(* ===== verification/Tuck_Prelude.thy ===== *)
theory Tuck_Prelude
  imports Main "HOL-Library.Word" "HOL-Library.Sublist"
begin

text \<open>
  The part of the JavaScript language and of its standard library that the console uses, as
  definitions every component of the development shares.

  A JavaScript string is a list of UTF-16 code units, so \<open>jsstring\<close> is a list of 16-bit words:
  \<open>s.length\<close> is \<open>length s\<close>, \<open>a + b\<close> is \<open>a @ b\<close> and \<open>s[i]\<close> is a code unit. \<open>js ''abc''\<close> is the
  literal whose characters are all below 256; the few other glyphs the sources use (the bullet,
  the dash, the ellipsis, the infinity sign) are written as code units. Numbers that are always
  integral in the sources are \<open>int\<close> or \<open>nat\<close>; a value that may be \<open>undefined\<close> or \<open>null\<close> is an
  \<open>option\<close>.

  The last section holds the facts on lists that several components use, and the
  collection \<open>js_lit\<close> that evaluates string literals.
\<close>

section \<open>Strings\<close>

type_synonym jschar = "16 word"

type_synonym jsstring = "jschar list"

named_theorems js_lit

abbreviation jc :: "char \<Rightarrow> jschar" where
  "jc \<equiv> of_char"

definition js :: "string \<Rightarrow> jsstring" where
  "js s = map jc s"

text \<open>Glyphs above U+00FF: the em dash, the bullet, the ellipsis, the infinity sign.\<close>

definition em_dash :: jsstring where "em_dash = [0x2014]"

definition bullet :: jschar where "bullet = 0x2022"

definition ellipsis :: jsstring where "ellipsis = [0x2026]"

definition infinity_sign :: jsstring where "infinity_sign = [0x221E]"

text \<open>ECMAScript WhiteSpace and LineTerminator: what \<open>trim\<close> strips and \<open>\s\<close> matches.\<close>

definition is_ws :: "jschar \<Rightarrow> bool" where
  "is_ws c \<longleftrightarrow> (0x0009 \<le> c \<and> c \<le> 0x000D) \<or> c = 0x0020 \<or> c = 0x00A0 \<or> c = 0x1680 \<or>
     (0x2000 \<le> c \<and> c \<le> 0x200A) \<or> c = 0x2028 \<or> c = 0x2029 \<or> c = 0x202F \<or> c = 0x205F \<or>
     c = 0x3000 \<or> c = 0xFEFF"

definition trim_start :: "jsstring \<Rightarrow> jsstring" where
  "trim_start s = dropWhile is_ws s"

definition trim_end :: "jsstring \<Rightarrow> jsstring" where
  "trim_end s = rev (dropWhile is_ws (rev s))"

definition trim :: "jsstring \<Rightarrow> jsstring" where
  "trim s = trim_end (trim_start s)"

definition starts_with :: "jsstring \<Rightarrow> jsstring \<Rightarrow> bool" where
  "starts_with s p \<longleftrightarrow> take (length p) s = p"

definition ends_with :: "jsstring \<Rightarrow> jsstring \<Rightarrow> bool" where
  "ends_with s p \<longleftrightarrow> length p \<le> length s \<and> drop (length s - length p) s = p"

text \<open>\<open>s.includes(p)\<close>: \<open>p\<close> begins at some position of \<open>s\<close>, the end included.\<close>

fun includes_str :: "jsstring \<Rightarrow> jsstring \<Rightarrow> bool" where
  "includes_str [] p = (p = [])"
| "includes_str (c # s) p = (starts_with (c # s) p \<or> includes_str s p)"

text \<open>\<open>s.split(c)\<close> for a separator of one code unit: never the empty list.\<close>

fun split_on :: "jschar \<Rightarrow> jsstring \<Rightarrow> jsstring list" where
  "split_on c [] = [[]]"
| "split_on c (x # xs) =
     (if x = c then [] # split_on c xs
      else (case split_on c xs of [] \<Rightarrow> [[x]] | w # ws \<Rightarrow> (x # w) # ws))"

fun join :: "jsstring \<Rightarrow> jsstring list \<Rightarrow> jsstring" where
  "join sep [] = []"
| "join sep [w] = w"
| "join sep (w # ws) = w @ sep @ join sep ws"

text \<open>\<open>s.indexOf(c)\<close> and \<open>s.lastIndexOf(c)\<close> for one code unit, \<open>None\<close> for -1.\<close>

fun index_of :: "jschar \<Rightarrow> jsstring \<Rightarrow> nat option" where
  "index_of c [] = None"
| "index_of c (x # xs) = (if x = c then Some 0 else map_option Suc (index_of c xs))"

fun last_index_of :: "jschar \<Rightarrow> jsstring \<Rightarrow> nat option" where
  "last_index_of c [] = None"
| "last_index_of c (x # xs) =
     (case last_index_of c xs of Some i \<Rightarrow> Some (Suc i) | None \<Rightarrow> if x = c then Some 0 else None)"

definition repeat_str :: "nat \<Rightarrow> jsstring \<Rightarrow> jsstring" where
  "repeat_str n s = concat (replicate n s)"

text \<open>
  \<open>toLowerCase\<close> on the ASCII letters. The sources apply it only in front of tests against ASCII
  text, and no other code unit has an ASCII lower case that those tests accept.
\<close>

definition lower :: "jsstring \<Rightarrow> jsstring" where
  "lower s = map (\<lambda>c. if 0x41 \<le> c \<and> c \<le> 0x5A then c + 0x20 else c) s"

section \<open>Numbers\<close>

text \<open>The decimal digits of a natural number, as \<open>String(n)\<close> prints them.\<close>

fun dec :: "nat \<Rightarrow> jsstring" where
  "dec n = (if n < 10 then [0x30 + of_nat n] else dec (n div 10) @ [0x30 + of_nat (n mod 10)])"

declare dec.simps [simp del]

definition dec_int :: "int \<Rightarrow> jsstring" where
  "dec_int i = (if i < 0 then js ''-'' @ dec (nat (- i)) else dec (nat i))"

definition is_digit :: "jschar \<Rightarrow> bool" where
  "is_digit c \<longleftrightarrow> 0x30 \<le> c \<and> c \<le> 0x39"

text \<open>\<open>Number(s)\<close> for a string of decimal digits.\<close>

definition undec :: "jsstring \<Rightarrow> nat" where
  "undec s = foldl (\<lambda>n c. 10 * n + (unat c - 0x30)) 0 s"

definition pad_start :: "nat \<Rightarrow> jschar \<Rightarrow> jsstring \<Rightarrow> jsstring" where
  "pad_start n c s = replicate (n - length s) c @ s"

text \<open>\<open>Math.round\<close> of \<open>n / d\<close> for integers with \<open>0 < d\<close>: halves go up.\<close>

definition round_div :: "int \<Rightarrow> int \<Rightarrow> int" where
  "round_div n d = (2 * n + d) div (2 * d)"

section \<open>Absent values\<close>

text \<open>\<open>a ?? b\<close>, and \<open>a || b\<close> on strings, where the empty string counts as absent.\<close>

definition nullish :: "'a option \<Rightarrow> 'a \<Rightarrow> 'a" where
  "nullish a b = (case a of Some x \<Rightarrow> x | None \<Rightarrow> b)"

definition or_str :: "jsstring option \<Rightarrow> jsstring \<Rightarrow> jsstring" where
  "or_str a b = (case a of Some x \<Rightarrow> if x = [] then b else x | None \<Rightarrow> b)"

definition truthy_str :: "jsstring option \<Rightarrow> bool" where
  "truthy_str a \<longleftrightarrow> (case a of Some x \<Rightarrow> x \<noteq> [] | None \<Rightarrow> False)"

text \<open>The names every plain object inherits from \<open>Object.prototype\<close>.\<close>

definition proto_keys :: "jsstring list" where
  "proto_keys = map js [''constructor'', ''__proto__'', ''hasOwnProperty'', ''isPrototypeOf'',
     ''propertyIsEnumerable'', ''toLocaleString'', ''toString'', ''valueOf'', ''__defineGetter__'',
     ''__defineSetter__'', ''__lookupGetter__'', ''__lookupSetter__'']"

lemma nullish_simps [simp]: "nullish (Some x) y = x" "nullish None y = y"
  by (simp_all add: nullish_def)

lemma or_str_simps [simp]:
  "or_str None y = y" "or_str (Some []) y = y" "or_str (Some (c # x)) y = c # x"
  by (simp_all add: or_str_def)

lemma truthy_str_simps [simp]:
  "truthy_str None = False" "truthy_str (Some x) = (x \<noteq> [])"
  by (simp_all add: truthy_str_def)

section \<open>Facts the components share\<close>

lemma js_simps [simp, js_lit]: "js [] = []" "js (c # s) = jc c # js s"
  by (simp_all add: js_def)

lemma js_append: "js (s @ t) = js s @ js t"
  by (simp add: js_def)

lemma length_js [simp]: "length (js s) = length s"
  by (simp add: js_def)

lemma starts_with_Nil [simp]: "starts_with s []"
  by (simp add: starts_with_def)

lemma starts_with_Nil1 [simp]: "starts_with [] p \<longleftrightarrow> p = []"
  by (auto simp: starts_with_def)

lemma starts_with_Cons [simp]: "starts_with (c # s) (d # p) \<longleftrightarrow> c = d \<and> starts_with s p"
  by (auto simp: starts_with_def)

lemma starts_with_iff: "starts_with s p \<longleftrightarrow> (\<exists>r. s = p @ r)"
proof
  assume "starts_with s p"
  then have "s = p @ drop (length p) s"
    by (metis append_take_drop_id starts_with_def)
  then show "\<exists>r. s = p @ r" ..
qed (auto simp: starts_with_def)

lemma includes_str_iff: "includes_str s p \<longleftrightarrow> (\<exists>a b. s = a @ p @ b)"
proof (induction s)
  case (Cons c s)
  have "(\<exists>a b. c # s = a @ p @ b) \<longleftrightarrow> (\<exists>b. c # s = p @ b) \<or> (\<exists>a b. s = a @ p @ b)"
    by (auto simp: append_eq_Cons_conv Cons_eq_append_conv)
  with Cons show ?case
    by (simp add: starts_with_iff)
qed auto

lemma includes_str_single [simp]: "includes_str s [c] \<longleftrightarrow> c \<in> set s"
  by (induction s) auto

lemma split_on_ne [simp]: "split_on c s \<noteq> []"
  by (induction s) (auto split: list.splits)

lemma split_on_sep_free: "c \<notin> set s \<Longrightarrow> split_on c s = [s]"
  by (induction s) auto

lemma split_on_append_sep:
  "c \<notin> set w \<Longrightarrow> split_on c (w @ c # s) = w # split_on c s"
  by (induction w) auto

lemma split_on_no_sep: "w \<in> set (split_on c s) \<Longrightarrow> c \<notin> set w"
  by (induction s arbitrary: w) (auto split: list.splits if_splits)

lemma join_split_on [simp]: "join [c] (split_on c s) = s"
proof (induction s)
  case (Cons x s)
  obtain w ws where ws: "split_on c s = w # ws"
    by (cases "split_on c s") auto
  with Cons show ?case
    by (cases ws) auto
qed simp

lemma split_on_join:
  "ws \<noteq> [] \<Longrightarrow> (\<And>w. w \<in> set ws \<Longrightarrow> c \<notin> set w) \<Longrightarrow> split_on c (join [c] ws) = ws"
proof (induction ws)
  case (Cons w ws)
  then show ?case
    by (cases ws) (auto simp: split_on_sep_free split_on_append_sep)
qed simp

lemma trim_end_last: "s \<noteq> [] \<Longrightarrow> \<not> is_ws (last s) \<Longrightarrow> trim_end s = s"
  by (cases s rule: rev_cases) (auto simp: trim_end_def)

lemma trim_start_hd: "s \<noteq> [] \<Longrightarrow> \<not> is_ws (hd s) \<Longrightarrow> trim_start s = s"
  by (cases s) (auto simp: trim_start_def)

lemma trim_id: "s \<noteq> [] \<Longrightarrow> \<not> is_ws (hd s) \<Longrightarrow> \<not> is_ws (last s) \<Longrightarrow> trim s = s"
  by (simp add: trim_def trim_start_hd trim_end_last)

lemma trim_Nil [simp]: "trim [] = []"
  by (simp add: trim_def trim_start_def trim_end_def)

lemma last_trim_end: "trim_end s \<noteq> [] \<Longrightarrow> \<not> is_ws (last (trim_end s))"
  by (simp add: trim_end_def last_rev hd_dropWhile)

lemma trim_end_prefix: "\<exists>w. s = trim_end s @ w \<and> (\<forall>c\<in>set w. is_ws c)"
proof -
  have "rev s = takeWhile is_ws (rev s) @ dropWhile is_ws (rev s)" by simp
  then have "s = trim_end s @ rev (takeWhile is_ws (rev s))"
    by (metis rev_append rev_rev_ident trim_end_def)
  moreover have "\<forall>c\<in>set (rev (takeWhile is_ws (rev s))). is_ws c"
    by (auto dest: set_takeWhileD)
  ultimately show ?thesis by blast
qed

lemma hd_trim_start: "trim_start s \<noteq> [] \<Longrightarrow> \<not> is_ws (hd (trim_start s))"
  by (simp add: trim_start_def hd_dropWhile)

lemma hd_trim: "trim s \<noteq> [] \<Longrightarrow> \<not> is_ws (hd (trim s))"
proof -
  assume ne: "trim s \<noteq> []"
  obtain w where "trim_start s = trim s @ w"
    using trim_end_prefix [of "trim_start s"] by (auto simp: trim_def)
  with ne have "hd (trim_start s) = hd (trim s)" and "trim_start s \<noteq> []"
    by (auto simp: hd_append)
  then show ?thesis using hd_trim_start [of s] by simp
qed

lemma last_trim: "trim s \<noteq> [] \<Longrightarrow> \<not> is_ws (last (trim s))"
  by (simp add: trim_def last_trim_end)

lemma trim_trim [simp]: "trim (trim s) = trim s"
  by (cases "trim s = []") (simp_all add: trim_id hd_trim last_trim)

lemma set_trim_subset: "set (trim s) \<subseteq> set s"
proof -
  obtain w where "trim_start s = trim s @ w"
    using trim_end_prefix [of "trim_start s"] by (auto simp: trim_def)
  then have "set (trim s) \<subseteq> set (trim_start s)" by simp
  also have "\<dots> \<subseteq> set s" by (auto simp: trim_start_def dest: set_dropWhileD)
  finally show ?thesis .
qed

lemma split_on_append: "split_on c (a @ c # b) = split_on c a @ split_on c b"
  by (induction a) (auto split: list.splits)

lemma split_on_mem:
  "w \<in> set (split_on c s) \<longleftrightarrow>
    c \<notin> set w \<and> (\<exists>a b. s = a @ w @ b \<and> (a = [] \<or> last a = c) \<and> (b = [] \<or> hd b = c))"
proof
  assume w: "w \<in> set (split_on c s)"
  then obtain us vs where "split_on c s = us @ w # vs" by (meson split_list)
  then have s: "s = join [c] (us @ w # vs)" by (metis join_split_on)
  have "\<exists>a. join [c] (us @ w # vs) = a @ join [c] (w # vs) \<and> (a = [] \<or> last a = c)"
  proof (induction us)
    case (Cons u us)
    then obtain a where a: "join [c] (us @ w # vs) = a @ join [c] (w # vs)" "a = [] \<or> last a = c" by blast
    have "join [c] ((u # us) @ w # vs) = (u @ c # a) @ join [c] (w # vs)"
      using a(1) by (cases us) simp_all
    with a(2) show ?case by (intro exI [of _ "u @ c # a"]) auto
  qed simp
  moreover have "\<exists>b. join [c] (w # vs) = w @ b \<and> (b = [] \<or> hd b = c)" by (cases vs) auto
  ultimately show "c \<notin> set w \<and> (\<exists>a b. s = a @ w @ b \<and> (a = [] \<or> last a = c) \<and> (b = [] \<or> hd b = c))"
    using split_on_no_sep [OF w] s by metis
next
  assume "c \<notin> set w \<and> (\<exists>a b. s = a @ w @ b \<and> (a = [] \<or> last a = c) \<and> (b = [] \<or> hd b = c))"
  then obtain a b where w: "c \<notin> set w" and s: "s = a @ w @ b" and a: "a = [] \<or> last a = c" and b: "b = [] \<or> hd b = c"
    by blast
  have wb: "w \<in> set (split_on c (w @ b))"
    using b by (cases b) (auto simp: split_on_sep_free [OF w] split_on_append_sep [OF w])
  show "w \<in> set (split_on c s)"
  proof (cases "a = []")
    case False
    then have "s = butlast a @ c # (w @ b)" using a s by (metis append.assoc append_Cons append_Nil append_butlast_last_id)
    with wb show ?thesis by (simp add: split_on_append)
  qed (use wb s in simp)
qed

lemma in_concat_nth: "x \<in> set (concat xss) \<longleftrightarrow> (\<exists>k<length xss. x \<in> set (xss ! k))"
  by simp (metis in_set_conv_nth)

lemma bex_nth: "(\<exists>x\<in>set xs. P x) \<longleftrightarrow> (\<exists>i<length xs. P (xs ! i))"
  using all_set_conv_all_nth [of xs "\<lambda>x. \<not> P x"] by blast

section \<open>Pages as machines\<close>

text \<open>
  A page is a state, a step per input, and an invariant that holds at the start and is kept by every step; it then holds
  after every sequence of inputs.
\<close>

locale machine =
  fixes step :: "'i \<Rightarrow> 's \<Rightarrow> 's"
    and init :: "'s"
    and inv :: "'s \<Rightarrow> bool"
  assumes inv_init: "inv init"
    and inv_step: "inv s \<Longrightarrow> inv (step i s)"
begin

lemma inv_fold: "inv s \<Longrightarrow> inv (fold step is s)"
  by (induction "is" arbitrary: s) (simp_all add: inv_step)

lemma inv_run: "inv (fold step is init)"
  by (rule inv_fold [OF inv_init])

end

end
