(* ===== verification/Js_Regex.thy ===== *)
theory Js_Regex
  imports Tuck_Prelude
begin

text \<open>
  Regular expressions as the sources use them: the backtracking matcher of ECMAScript as a
  function that lists every match of a pattern at a position in the order the engine tries them,
  so that the head of the list is the match JavaScript returns. Each pattern of the sources is
  transcribed literally as a value of \<open>re\<close>.

  The theorems relate the matcher to the language of the pattern (for tests anchored at both
  ends) and evaluate it on texts whose structure is known (for captures).
\<close>

section \<open>Patterns and the matcher\<close>

datatype re =
    Eps
  | Cls "jschar \<Rightarrow> bool"
  | Seq re re
  | Alt re re
  | Star re
  | Grp nat re
  | Bol
  | Eol
  | WordB

text \<open>\<open>r+\<close>, \<open>r?\<close>, \<open>r{0,n}\<close>, a sequence, a literal text, a set of characters.\<close>

definition Plus :: "re \<Rightarrow> re" where
  "Plus r = Seq r (Star r)"

definition Opt :: "re \<Rightarrow> re" where
  "Opt r = Alt r Eps"

primrec Upto :: "nat \<Rightarrow> re \<Rightarrow> re" where
  "Upto 0 r = Eps"
| "Upto (Suc n) r = Opt (Seq r (Upto n r))"

fun seqs :: "re list \<Rightarrow> re" where
  "seqs [] = Eps"
| "seqs [r] = r"
| "seqs (r # rs) = Seq r (seqs rs)"

fun Lit :: "jsstring \<Rightarrow> re" where
  "Lit [] = Eps"
| "Lit (c # s) = Seq (Cls (\<lambda>d. d = c)) (Lit s)"

definition one_of :: "string \<Rightarrow> jschar \<Rightarrow> bool" where
  "one_of s c \<longleftrightarrow> c \<in> set (js s)"

definition in_range :: "char \<Rightarrow> char \<Rightarrow> jschar \<Rightarrow> bool" where
  "in_range a b c \<longleftrightarrow> jc a \<le> c \<and> c \<le> jc b"

definition is_word :: "jschar \<Rightarrow> bool" where
  "is_word c \<longleftrightarrow> in_range CHR ''a'' CHR ''z'' c \<or> in_range CHR ''A'' CHR ''Z'' c \<or>
     is_digit c \<or> c = jc CHR ''_''"

text \<open>The code units \<open>.\<close> does not match.\<close>

definition is_line_terminator :: "jschar \<Rightarrow> bool" where
  "is_line_terminator c \<longleftrightarrow> c = 0x0A \<or> c = 0x0D \<or> c = 0x2028 \<or> c = 0x2029"

text \<open>
  A position in the subject: the text before it (reversed), the text after it, and the captures
  made so far.
\<close>

type_synonym captures = "nat \<Rightarrow> jsstring option"

type_synonym mpos = "jsstring \<times> jsstring \<times> captures"

primrec re_groups :: "re \<Rightarrow> nat list" where
  "re_groups Eps = []"
| "re_groups (Cls P) = []"
| "re_groups (Seq r s) = re_groups r @ re_groups s"
| "re_groups (Alt r s) = re_groups r @ re_groups s"
| "re_groups (Star r) = re_groups r"
| "re_groups (Grp n r) = n # re_groups r"
| "re_groups Bol = []"
| "re_groups Eol = []"
| "re_groups WordB = []"

definition clear_caps :: "nat list \<Rightarrow> mpos \<Rightarrow> mpos" where
  "clear_caps gs m = (case m of (b, a, c) \<Rightarrow> (b, a, \<lambda>n. if n \<in> set gs then None else c n))"

text \<open>
  Greedy iteration: each further round is tried before stopping, its captures start undefined,
  and a round that consumes nothing is rejected. Every round consumes at least one code unit, so
  the length of the remaining text bounds the number of rounds.
\<close>

fun iterate :: "(mpos \<Rightarrow> mpos list) \<Rightarrow> nat \<Rightarrow> mpos \<Rightarrow> mpos list" where
  "iterate f 0 m = [m]"
| "iterate f (Suc n) m =
     concat (map (\<lambda>m'. if length (fst (snd m')) < length (fst (snd m)) then iterate f n m' else [])
       (f m)) @ [m]"

definition at_word :: "jsstring \<Rightarrow> bool" where
  "at_word s \<longleftrightarrow> (case s of [] \<Rightarrow> False | c # _ \<Rightarrow> is_word c)"

primrec matches :: "re \<Rightarrow> mpos \<Rightarrow> mpos list" where
  "matches Eps m = [m]"
| "matches (Cls P) m = (case m of (b, a, c) \<Rightarrow>
     (case a of [] \<Rightarrow> [] | x # xs \<Rightarrow> if P x then [(x # b, xs, c)] else []))"
| "matches (Seq r s) m = concat (map (matches s) (matches r m))"
| "matches (Alt r s) m = matches r m @ matches s m"
| "matches (Star r) m =
     iterate (\<lambda>m. matches r (clear_caps (re_groups r) m)) (length (fst (snd m))) m"
| "matches (Grp n r) m =
     map (\<lambda>(b, a, c). (b, a, c(n \<mapsto> rev (take (length b - length (fst m)) b)))) (matches r m)"
| "matches Bol m = (if fst m = [] then [m] else [])"
| "matches Eol m = (if fst (snd m) = [] then [m] else [])"
| "matches WordB m = (if at_word (fst m) \<noteq> at_word (fst (snd m)) then [m] else [])"

text \<open>
  \<open>exec\<close> from a position: the first position at or after it where the pattern matches. The result
  is the text before the match (reversed), the matched text, the text after it and the captures.
\<close>

type_synonym mresult = "jsstring \<times> jsstring \<times> jsstring \<times> captures"

fun exec_at :: "re \<Rightarrow> jsstring \<Rightarrow> jsstring \<Rightarrow> mresult option" where
  "exec_at r b a =
     (case matches r (b, a, Map.empty) of
        (b', a', c) # _ \<Rightarrow> Some (b, take (length a - length a') a, a', c)
      | [] \<Rightarrow> (case a of [] \<Rightarrow> None | x # xs \<Rightarrow> exec_at r (x # b) xs))"

declare exec_at.simps [simp del]

definition exec :: "re \<Rightarrow> jsstring \<Rightarrow> mresult option" where
  "exec r s = exec_at r [] s"

definition test :: "re \<Rightarrow> jsstring \<Rightarrow> bool" where
  "test r s \<longleftrightarrow> exec r s \<noteq> None"

section \<open>The language of a pattern\<close>

text \<open>
  For a pattern without anchors, the texts it matches depend on nothing around them; \<open>lang\<close> is
  that set and \<open>plain\<close> the side condition.
\<close>

primrec plain :: "re \<Rightarrow> bool" where
  "plain Eps = True"
| "plain (Cls P) = True"
| "plain (Seq r s) = (plain r \<and> plain s)"
| "plain (Alt r s) = (plain r \<and> plain s)"
| "plain (Star r) = plain r"
| "plain (Grp n r) = plain r"
| "plain Bol = False"
| "plain Eol = False"
| "plain WordB = False"

inductive_set star :: "jsstring set \<Rightarrow> jsstring set" for L where
  star_Nil: "[] \<in> star L"
| star_step: "v \<in> L \<Longrightarrow> v \<noteq> [] \<Longrightarrow> w \<in> star L \<Longrightarrow> v @ w \<in> star L"

primrec lang :: "re \<Rightarrow> jsstring set" where
  "lang Eps = {[]}"
| "lang (Cls P) = {[c] | c. P c}"
| "lang (Seq r s) = {v @ w | v w. v \<in> lang r \<and> w \<in> lang s}"
| "lang (Alt r s) = lang r \<union> lang s"
| "lang (Star r) = star (lang r)"
| "lang (Grp n r) = lang r"
| "lang Bol = {[]}"
| "lang Eol = {[]}"
| "lang WordB = {[]}"

text \<open>\<open>moves L f\<close>: from every position, \<open>f\<close> reaches exactly the ends of the texts of \<open>L\<close>.\<close>

definition moves :: "jsstring set \<Rightarrow> (mpos \<Rightarrow> mpos list) \<Rightarrow> bool" where
  "moves L f \<longleftrightarrow> (\<forall>b a c b' a'.
     (\<exists>c'. (b', a', c') \<in> set (f (b, a, c))) \<longleftrightarrow> (\<exists>w\<in>L. a = w @ a' \<and> b' = rev w @ b))"

lemma movesI:
  assumes "\<And>b a c b' a' c'. (b', a', c') \<in> set (f (b, a, c)) \<Longrightarrow> \<exists>w\<in>L. a = w @ a' \<and> b' = rev w @ b"
    and "\<And>b a c w. w \<in> L \<Longrightarrow> \<exists>c'. (rev w @ b, a, c') \<in> set (f (b, w @ a, c))"
  shows "moves L f"
  unfolding moves_def using assms by blast

lemma movesD1: "moves L f \<Longrightarrow> (b', a', c') \<in> set (f (b, a, c)) \<Longrightarrow> \<exists>w\<in>L. a = w @ a' \<and> b' = rev w @ b"
  unfolding moves_def by blast

lemma movesD2: "moves L f \<Longrightarrow> w \<in> L \<Longrightarrow> \<exists>c'. (rev w @ b, a, c') \<in> set (f (b, w @ a, c))"
  unfolding moves_def by blast

lemma iterate_sound:
  assumes "moves L f" and "(b', a', c') \<in> set (iterate f n (b, a, c))"
  shows "\<exists>w\<in>star L. a = w @ a' \<and> b' = rev w @ b"
  using assms(2)
proof (induction n arbitrary: b a c)
  case 0
  then show ?case by (auto intro: star.intros)
next
  case (Suc n)
  then consider "b' = b" "a' = a"
    | b1 a1 c1 where "(b1, a1, c1) \<in> set (f (b, a, c))" "length a1 < length a"
        "(b', a', c') \<in> set (iterate f n (b1, a1, c1))"
    by (auto split: if_splits)
  then show ?case
  proof cases
    case 1
    then show ?thesis by (auto intro: star.intros)
  next
    case 2
    obtain v where v: "v \<in> L" "a = v @ a1" "b1 = rev v @ b"
      using movesD1 [OF assms(1) 2(1)] by blast
    obtain w where w: "w \<in> star L" "a1 = w @ a'" "b' = rev w @ b1"
      using Suc.IH [OF 2(3)] by blast
    have "v \<noteq> []" using v(2) 2(2) by auto
    with v w show ?thesis by (intro bexI [of _ "v @ w"]) (auto intro: star.intros)
  qed
qed

lemma iterate_complete:
  assumes "moves L f" and "w \<in> star L" and "length w \<le> n"
  shows "\<exists>c'. (rev w @ b, a, c') \<in> set (iterate f n (b, w @ a, c))"
  using assms(2,3)
proof (induction w arbitrary: n b c rule: star.induct)
  case star_Nil
  then show ?case by (cases n) auto
next
  case (star_step v w)
  then obtain k where n: "n = Suc k" by (cases n) auto
  have lw: "length w \<le> k" using star_step.prems star_step.hyps(2) n by (cases v) auto
  obtain c1 where c1: "(rev v @ b, w @ a, c1) \<in> set (f (b, v @ w @ a, c))"
    using movesD2 [OF assms(1) star_step.hyps(1)] by blast
  obtain c2 where "(rev w @ rev v @ b, a, c2) \<in> set (iterate f k (rev v @ b, w @ a, c1))"
    using star_step.IH [OF lw] by blast
  with c1 star_step.hyps(2) show ?case
    by (auto simp: n intro!: exI [of _ c2] bexI [of _ "(rev v @ b, w @ a, c1)"])
qed

lemma moves_Star:
  assumes "moves L (matches r)"
  shows "moves (star L) (matches (Star r))"
proof -
  let ?f = "\<lambda>m. matches r (clear_caps (re_groups r) m)"
  have m: "moves L ?f"
    using assms by (intro movesI) (auto simp: clear_caps_def dest: movesD1 movesD2)
  show ?thesis
  proof (rule movesI)
    fix b a c b' a' c'
    assume "(b', a', c') \<in> set (matches (Star r) (b, a, c))"
    then show "\<exists>w\<in>star L. a = w @ a' \<and> b' = rev w @ b"
      using iterate_sound [OF m] by (simp only: matches.simps)
  next
    fix b a c w
    assume "w \<in> star L"
    then show "\<exists>c'. (rev w @ b, a, c') \<in> set (matches (Star r) (b, w @ a, c))"
      using iterate_complete [OF m] by simp
  qed
qed

lemma moves_Seq:
  assumes r: "moves L (matches r)" and s: "moves M (matches s)"
  shows "moves {v @ w | v w. v \<in> L \<and> w \<in> M} (matches (Seq r s))"
proof (rule movesI)
  fix b a c b' a' c'
  assume "(b', a', c') \<in> set (matches (Seq r s) (b, a, c))"
  then obtain b1 a1 c1 where 1: "(b1, a1, c1) \<in> set (matches r (b, a, c))"
    and 2: "(b', a', c') \<in> set (matches s (b1, a1, c1))" by auto
  from movesD1 [OF r 1] movesD1 [OF s 2]
  show "\<exists>w\<in>{v @ w | v w. v \<in> L \<and> w \<in> M}. a = w @ a' \<and> b' = rev w @ b"
    by fastforce
next
  fix b a c u
  assume "u \<in> {v @ w | v w. v \<in> L \<and> w \<in> M}"
  then obtain v w where u: "u = v @ w" "v \<in> L" "w \<in> M" by blast
  obtain c1 where c1: "(rev v @ b, w @ a, c1) \<in> set (matches r (b, v @ w @ a, c))"
    using movesD2 [OF r u(2)] by blast
  obtain c2 where "(rev w @ rev v @ b, a, c2) \<in> set (matches s (rev v @ b, w @ a, c1))"
    using movesD2 [OF s u(3)] by blast
  with c1 show "\<exists>c'. (rev u @ b, a, c') \<in> set (matches (Seq r s) (b, u @ a, c))"
    by (auto simp: u(1) intro!: exI [of _ c2] bexI [of _ "(rev v @ b, w @ a, c1)"])
qed

theorem moves_lang: "plain r \<Longrightarrow> moves (lang r) (matches r)"
proof (induction r)
  case (Cls P)
  show ?case by (rule movesI) (auto split: list.splits if_splits)
next
  case (Seq r s)
  then show ?case using moves_Seq [of "lang r" r "lang s" s] by (simp del: matches.simps)
next
  case (Alt r s)
  then have r: "moves (lang r) (matches r)" and s: "moves (lang s) (matches s)" by auto
  show ?case
  proof (rule movesI)
    fix b a c b' a' c'
    assume "(b', a', c') \<in> set (matches (Alt r s) (b, a, c))"
    then show "\<exists>w\<in>lang (Alt r s). a = w @ a' \<and> b' = rev w @ b"
      using movesD1 [OF r] movesD1 [OF s] by auto blast+
  next
    fix b a c w
    assume "w \<in> lang (Alt r s)"
    then show "\<exists>c'. (rev w @ b, a, c') \<in> set (matches (Alt r s) (b, w @ a, c))"
      using movesD2 [OF r, of w b a c] movesD2 [OF s, of w b a c] by auto
  qed
next
  case (Star r)
  then show ?case using moves_Star [of "lang r" r] by (simp del: matches.simps)
next
  case (Grp n r)
  then have r: "moves (lang r) (matches r)" by auto
  show ?case
  proof (rule movesI)
    fix b a c b' a' c'
    assume "(b', a', c') \<in> set (matches (Grp n r) (b, a, c))"
    then show "\<exists>w\<in>lang (Grp n r). a = w @ a' \<and> b' = rev w @ b"
      using movesD1 [OF r] by auto
  next
    fix b a c w
    assume "w \<in> lang (Grp n r)"
    then obtain c' where "(rev w @ b, a, c') \<in> set (matches r (b, w @ a, c))"
      using movesD2 [OF r, of w b a c] by auto
    then show "\<exists>c'. (rev w @ b, a, c') \<in> set (matches (Grp n r) (b, w @ a, c))"
      by force
  qed
qed (auto intro: movesI)

section \<open>Tests anchored at both ends\<close>

definition anchored :: "re \<Rightarrow> re" where
  "anchored r = Seq Bol (Seq r Eol)"

lemma exec_at_Bol: "b \<noteq> [] \<Longrightarrow> exec_at (Seq Bol r) b a = None"
  by (induction a arbitrary: b) (auto simp: exec_at.simps)

lemma exec_Bol:
  "exec (Seq Bol r) s = (case matches r ([], s, Map.empty) of
     (b', a', c) # _ \<Rightarrow> Some ([], take (length s - length a') s, a', c) | [] \<Rightarrow> None)"
  unfolding exec_def by (subst exec_at.simps) (auto simp: exec_at_Bol split: list.splits)

lemma test_Bol: "test (Seq Bol r) s \<longleftrightarrow> matches r ([], s, Map.empty) \<noteq> []"
  by (auto simp: test_def exec_Bol split: list.splits)

lemma concat_map_Eol:
  "concat (map (matches Eol) ms) \<noteq> [] \<longleftrightarrow> (\<exists>b c. (b, [], c) \<in> set ms)"
  by (induction ms) auto

theorem test_anchored:
  assumes "plain r"
  shows "test (anchored r) s \<longleftrightarrow> s \<in> lang r"
proof -
  have "test (anchored r) s \<longleftrightarrow> (\<exists>b c. (b, [], c) \<in> set (matches r ([], s, Map.empty)))"
    using concat_map_Eol by (simp add: anchored_def test_Bol)
  also have "\<dots> \<longleftrightarrow> s \<in> lang r"
    using movesD1 [OF moves_lang [OF assms], where b = "[]" and a = s]
      movesD2 [OF moves_lang [OF assms], where b = "[]" and a = "[]"] by fastforce
  finally show ?thesis .
qed

named_theorems re_lang

lemma star_Cls: "star {[c] | c. P c} = {w. \<forall>c\<in>set w. P c}"
proof (intro set_eqI iffI)
  fix w assume "w \<in> star {[c] | c. P c}"
  then show "w \<in> {w. \<forall>c\<in>set w. P c}" by induction auto
next
  fix w assume "w \<in> {w. \<forall>c\<in>set w. P c}"
  then show "w \<in> star {[c] | c. P c}"
  proof (induction w)
    case (Cons c w)
    then show ?case using star_step [of "[c]" "{[c] | c. P c}" w] by auto
  qed (auto intro: star.intros)
qed

lemma lang_Star_Cls [re_lang]: "lang (Star (Cls P)) = {w. \<forall>c\<in>set w. P c}"
  using star_Cls by simp

lemma lang_Seq_Cls [re_lang]: "lang (Seq (Cls P) r) = {c # w | c w. P c \<and> w \<in> lang r}"
  by (rule set_eqI) (simp, metis append_Cons append_Nil)

lemma lang_Plus_Cls [re_lang]: "lang (Plus (Cls P)) = {w. w \<noteq> [] \<and> (\<forall>c\<in>set w. P c)}"
  unfolding Plus_def lang_Seq_Cls lang_Star_Cls by (auto simp: neq_Nil_conv)

lemma lang_Upto_Cls [re_lang]:
  "lang (Upto n (Cls P)) = {w. length w \<le> n \<and> (\<forall>c\<in>set w. P c)}"
proof (induction n)
  case (Suc n)
  have "w \<in> lang (Upto (Suc n) (Cls P)) \<longleftrightarrow> length w \<le> Suc n \<and> (\<forall>c\<in>set w. P c)" for w
    by (cases w) (auto simp: Opt_def Suc lang_Seq_Cls simp del: lang.simps(3))
  then show ?case by blast
qed auto

lemma lang_Lit [re_lang]: "lang (Lit s) = {s}"
  by (induction s) auto

lemma plain_Lit [simp]: "plain (Lit s)"
  by (induction s) auto

lemma plain_Plus [simp]: "plain (Plus r) = plain r"
  by (simp add: Plus_def)

lemma plain_Opt [simp]: "plain (Opt r) = plain r"
  by (simp add: Opt_def)

lemma plain_Upto [simp]: "plain r \<Longrightarrow> plain (Upto n r)"
  by (induction n) auto

section \<open>Evaluating the matcher on structured text\<close>

text \<open>
  \<open>then_m k ms\<close> continues every match of a list; \<open>matches (Seq r s) m\<close> is
  \<open>then_m (matches s) (matches r m)\<close>. A continuation that starts with a class disjoint from the
  class of a greedy loop succeeds only at the end of the loop's run.
\<close>

named_theorems re_eval

definition then_m :: "(mpos \<Rightarrow> mpos list) \<Rightarrow> mpos list \<Rightarrow> mpos list" where
  "then_m k ms = concat (map k ms)"

lemma then_m_simps [simp]: "then_m k [] = []" "then_m k (m # ms) = k m @ then_m k ms"
  by (simp_all add: then_m_def)

lemma then_m_append [simp]: "then_m k (xs @ ys) = then_m k xs @ then_m k ys"
  by (simp add: then_m_def)

lemma matches_Seq_then: "matches (Seq r s) m = then_m (matches s) (matches r m)"
  by (simp add: then_m_def)

text \<open>\<open>halts P k\<close>: the continuation \<open>k\<close> fails wherever the next code unit is in \<open>P\<close>.\<close>

definition halts :: "(jschar \<Rightarrow> bool) \<Rightarrow> (mpos \<Rightarrow> mpos list) \<Rightarrow> bool" where
  "halts P k \<longleftrightarrow> (\<forall>b x xs c. P x \<longrightarrow> k (b, x # xs, c) = [])"

lemma matches_Star_Cls_Cons:
  "matches (Star (Cls P)) (b, x # xs, c) =
     (if P x then matches (Star (Cls P)) (x # b, xs, c) @ [(b, x # xs, c)] else [(b, x # xs, c)])"
  by (simp add: clear_caps_def)

lemma matches_Star_Nil: "matches (Star r) (b, [], c) = [(b, [], c)]"
  by simp

lemma then_Star_Cls:
  assumes "halts P k" and "\<forall>c\<in>set w. P c" and "a = [] \<or> \<not> P (hd a)"
  shows "then_m k (matches (Star (Cls P)) (b, w @ a, c)) = k (rev w @ b, a, c)"
  using assms(2)
proof (induction w arbitrary: b)
  case Nil
  then show ?case
    using assms(3) by (cases a) (simp_all add: matches_Star_Cls_Cons matches_Star_Nil del: matches.simps)
next
  case (Cons x w)
  then have "k (b, x # w @ a, c) = []" using assms(1) by (auto simp: halts_def)
  with Cons show ?case by (simp add: matches_Star_Cls_Cons del: matches.simps)
qed

lemma then_Plus_Cls:
  assumes "halts P k" and "w \<noteq> []" and "\<forall>c\<in>set w. P c" and "a = [] \<or> \<not> P (hd a)"
  shows "then_m k (matches (Plus (Cls P)) (b, w @ a, c)) = k (rev w @ b, a, c)"
proof -
  obtain x v where w: "w = x # v" using assms(2) by (cases w) auto
  have "matches (Plus (Cls P)) (b, w @ a, c) = matches (Star (Cls P)) (x # b, v @ a, c)"
    using assms(3) by (simp add: Plus_def w del: matches.simps(5))
  with then_Star_Cls [OF assms(1) _ assms(4), of v] assms(3) show ?thesis by (simp add: w)
qed

lemma matches_Lit_append: "matches (Lit s) (b, s @ a, c) = [(rev s @ b, a, c)]"
  by (induction s arbitrary: b) auto

lemma matches_Lit:
  "matches (Lit s) (b, a, c) = (if starts_with a s then [(rev s @ b, drop (length s) a, c)] else [])"
  by (induction s arbitrary: a b) (auto split: list.splits)

lemma then_Grp:
  "then_m k (matches (Grp n r) m) =
   then_m (\<lambda>(b, a, c). k (b, a, c(n \<mapsto> rev (take (length b - length (fst m)) b)))) (matches r m)"
  by (simp add: then_m_def comp_def case_prod_unfold)

lemma then_m_assoc: "then_m k (then_m l ms) = then_m (\<lambda>m. then_m k (l m)) ms"
  by (induction ms) auto

text \<open>\<open>run rs k m\<close>: match the patterns \<open>rs\<close> one after the other from \<open>m\<close>, then continue with \<open>k\<close>.\<close>

fun run :: "re list \<Rightarrow> (mpos \<Rightarrow> mpos list) \<Rightarrow> mpos \<Rightarrow> mpos list" where
  "run [] k m = k m"
| "run (r # rs) k m = then_m (run rs k) (matches r m)"

declare run.simps(2) [simp del]

lemma then_m_seqs: "then_m k (matches (seqs rs) m) = run rs k m"
proof (induction rs arbitrary: m rule: seqs.induct)
  case (2 r)
  have "run [] k = k" by (rule ext) simp
  then show ?case by (simp add: run.simps)
next
  case (3 r s rs)
  have "then_m k (matches (seqs (r # s # rs)) m) =
      then_m (\<lambda>m. then_m k (matches (seqs (s # rs)) m)) (matches r m)"
    by (simp only: seqs.simps matches_Seq_then then_m_assoc)
  also have "(\<lambda>m. then_m k (matches (seqs (s # rs)) m)) = run (s # rs) k"
    using 3 by (intro ext) simp
  finally show ?case by (subst run.simps(2))
qed simp

lemma matches_seqs_Eol: "matches (Seq (seqs rs) Eol) m = run rs (matches Eol) m"
  by (simp only: matches_Seq_then then_m_seqs)

lemma run_Lit: "run (Lit s # rs) k (b, s @ a, c) = run rs k (rev s @ b, a, c)"
  by (simp add: run.simps matches_Lit_append)

lemma run_Star:
  assumes "halts P (run rs k)" and "\<forall>c\<in>set w. P c" and "a = [] \<or> \<not> P (hd a)"
  shows "run (Star (Cls P) # rs) k (b, w @ a, c) = run rs k (rev w @ b, a, c)"
  using then_Star_Cls [OF assms] by (simp only: run.simps)

lemma run_Plus:
  assumes "halts P (run rs k)" and "w \<noteq> []" and "\<forall>c\<in>set w. P c" and "a = [] \<or> \<not> P (hd a)"
  shows "run (Plus (Cls P) # rs) k (b, w @ a, c) = run rs k (rev w @ b, a, c)"
  using then_Plus_Cls [OF assms] by (simp only: run.simps)

lemma run_Grp_Star:
  assumes "halts P (run rs k)" and "\<forall>c\<in>set w. P c" and "a = [] \<or> \<not> P (hd a)"
  shows "run (Grp n (Star (Cls P)) # rs) k (b, w @ a, c) = run rs k (rev w @ b, a, c(n \<mapsto> w))"
proof -
  let ?k = "\<lambda>(b', a, c). run rs k (b', a, c(n \<mapsto> rev (take (length b' - length b) b')))"
  have "halts P ?k" using assms(1) by (auto simp: halts_def)
  then have "then_m ?k (matches (Star (Cls P)) (b, w @ a, c)) = ?k (rev w @ b, a, c)"
    by (rule then_Star_Cls [OF _ assms(2,3)])
  then show ?thesis by (simp add: run.simps then_Grp del: matches.simps)
qed

lemma halts_Lit: "\<not> P d \<Longrightarrow> halts P (run (Lit (d # s) # rs) k)"
  by (auto simp: halts_def run.simps matches_Lit)

lemma exec_anchored_seqs:
  "exec (anchored (seqs rs)) s =
     (case run rs (matches Eol) ([], s, Map.empty) of
        (b', a', c) # _ \<Rightarrow> Some ([], take (length s - length a') s, a', c) | [] \<Rightarrow> None)"
  by (simp only: anchored_def exec_Bol matches_seqs_Eol)

text \<open>Unanchored tests for a literal text: anywhere, or at the end.\<close>

lemma all_splits_Cons:
  "(\<forall>u v. x # a = u @ v \<longrightarrow> Q u v) \<longleftrightarrow> Q [] (x # a) \<and> (\<forall>u v. a = u @ v \<longrightarrow> Q (x # u) v)"
proof
  assume h: "Q [] (x # a) \<and> (\<forall>u v. a = u @ v \<longrightarrow> Q (x # u) v)"
  show "\<forall>u v. x # a = u @ v \<longrightarrow> Q u v"
  proof (intro allI impI)
    fix u v assume "x # a = u @ v"
    with h show "Q u v" by (cases u) auto
  qed
qed simp

lemma exec_at_None_iff:
  "exec_at r b a = None \<longleftrightarrow> (\<forall>u v. a = u @ v \<longrightarrow> matches r (rev u @ b, v, Map.empty) = [])"
proof (induction a arbitrary: b)
  case Nil
  show ?case by (subst exec_at.simps) (auto split: list.splits)
next
  case (Cons x a)
  have "exec_at r b (x # a) = None \<longleftrightarrow>
      matches r (b, x # a, Map.empty) = [] \<and> exec_at r (x # b) a = None"
    by (subst exec_at.simps) (auto split: list.splits)
  also have "\<dots> \<longleftrightarrow> (\<forall>u v. x # a = u @ v \<longrightarrow> matches r (rev u @ b, v, Map.empty) = [])"
    unfolding Cons all_splits_Cons [of x a "\<lambda>u v. matches r (rev u @ b, v, Map.empty) = []"] by simp
  finally show ?case .
qed

lemma test_iff: "test r s \<longleftrightarrow> (\<exists>u v. s = u @ v \<and> matches r (rev u, v, Map.empty) \<noteq> [])"
  using exec_at_None_iff [of r "[]" s] by (auto simp: test_def exec_def)

lemma test_Lit: "test (Lit p) s \<longleftrightarrow> includes_str s p"
  by (auto simp: test_iff matches_Lit includes_str_iff starts_with_iff split: if_splits)

lemma test_Lit_Eol: "test (Seq (Lit p) Eol) s \<longleftrightarrow> (\<exists>a. s = a @ p)"
proof -
  have "matches (Seq (Lit p) Eol) (b, v, c) \<noteq> [] \<longleftrightarrow> v = p" for b v c
    by (auto simp: matches_Lit starts_with_iff split: if_splits)
  then show ?thesis by (simp add: test_iff del: matches.simps)
qed

text \<open>A match consumes a prefix of the text and touches only its own groups.\<close>

definition advances :: "nat list \<Rightarrow> mpos \<Rightarrow> mpos \<Rightarrow> bool" where
  "advances gs m m' \<longleftrightarrow> (case (m, m') of ((b, a, c), (b', a', c')) \<Rightarrow>
     (\<exists>u. a = u @ a' \<and> b' = rev u @ b) \<and> (\<forall>n. n \<notin> set gs \<longrightarrow> c' n = c n))"

lemma advances_refl [simp]: "advances gs m m"
  by (cases m) (simp add: advances_def)

lemma advances_trans: "advances gs m m' \<Longrightarrow> advances gs m' m'' \<Longrightarrow> advances gs m m''"
  by (cases m; cases m'; cases m'') (force simp: advances_def)

lemma advances_mono: "advances gs m m' \<Longrightarrow> set gs \<subseteq> set gs' \<Longrightarrow> advances gs' m m'"
  by (cases m; cases m') (auto simp: advances_def)

lemma advances_clear: "advances gs m (clear_caps gs m)"
  by (cases m) (simp add: advances_def clear_caps_def)

lemma iterate_advances:
  assumes "\<And>m m'. m' \<in> set (f m) \<Longrightarrow> advances gs m m'"
  shows "m' \<in> set (iterate f n m) \<Longrightarrow> advances gs m m'"
proof (induction n arbitrary: m)
  case (Suc n)
  show ?case
  proof (cases "m' = m")
    case False
    then obtain k where "k \<in> set (f m)" "m' \<in> set (iterate f n k)" using Suc.prems by (auto split: if_splits)
    then show ?thesis using advances_trans [OF assms Suc.IH] by blast
  qed simp
qed simp

lemma matches_advances: "m' \<in> set (matches r m) \<Longrightarrow> advances (re_groups r) m m'"
proof (induction r arbitrary: m m')
  case (Cls P)
  then show ?case by (cases m) (auto simp: advances_def split: list.splits if_splits)
next
  case (Seq r s)
  then obtain k where k: "k \<in> set (matches r m)" "m' \<in> set (matches s k)"
    unfolding matches.simps set_concat set_map by blast
  have "advances (re_groups (Seq r s)) m k" "advances (re_groups (Seq r s)) k m'"
    by (rule advances_mono [OF Seq.IH(1) [OF k(1)]], simp) (rule advances_mono [OF Seq.IH(2) [OF k(2)]], simp)
  then show ?case by (rule advances_trans)
next
  case (Alt r s)
  then have "m' \<in> set (matches r m) \<or> m' \<in> set (matches s m)" by simp
  then show ?case
  proof
    assume "m' \<in> set (matches r m)"
    from advances_mono [OF Alt.IH(1) [OF this]] show ?thesis by simp
  next
    assume "m' \<in> set (matches s m)"
    from advances_mono [OF Alt.IH(2) [OF this]] show ?thesis by simp
  qed
next
  case (Star r)
  have step: "advances (re_groups r) k k'" if "k' \<in> set (matches r (clear_caps (re_groups r) k))" for k k'
    using advances_trans [OF advances_clear Star.IH [OF that]] .
  show ?case unfolding re_groups.simps
    by (rule iterate_advances [OF step Star.prems [unfolded matches.simps]])
next
  case (Grp n r)
  then obtain b a c where k: "(b, a, c) \<in> set (matches r m)" "m' = (b, a, c(n \<mapsto> rev (take (length b - length (fst m)) b)))"
    by auto
  then show ?case using Grp.IH [OF k(1)] by (cases m) (auto simp: advances_def)
qed (auto split: if_splits)

lemma exec_at_result:
  assumes "exec_at r b a = Some (b', w, a', c)"
  obtains skipped where "a = skipped @ w @ a'" "b' = rev skipped @ b"
    "(rev w @ b', a', c) \<in> set (matches r (b', w @ a', Map.empty))"
  using assms
proof (induction a arbitrary: b thesis)
  case Nil
  from Nil.prems(2) obtain ms k where m: "matches r (b, [], Map.empty) = (k, a', c) # ms" "b' = b" "w = []"
    by (subst (asm) exec_at.simps) (auto split: list.splits)
  then have "advances (re_groups r) (b, [], Map.empty) (k, a', c)" by (intro matches_advances) simp
  then show ?case using m by (intro Nil.prems(1) [of "[]"]) (auto simp: advances_def)
next
  case (Cons x xs)
  show ?case
  proof (cases "matches r (b, x # xs, Map.empty)")
    case Nil
    then have "exec_at r (x # b) xs = Some (b', w, a', c)" using Cons.prems(2) by (subst (asm) exec_at.simps) simp
    then obtain sk where "xs = sk @ w @ a'" "b' = rev sk @ x # b"
      "(rev w @ b', a', c) \<in> set (matches r (b', w @ a', Map.empty))" using Cons.IH by blast
    then show ?thesis by (intro Cons.prems(1) [of "x # sk"]) simp_all
  next
    case ms: (Cons m ms)
    obtain k a1 c1 where m: "m = (k, a1, c1)" by (cases m)
    have e: "b' = b" "a' = a1" "c = c1" "w = take (length (x # xs) - length a1) (x # xs)"
      using Cons.prems(2) ms m by (auto simp: exec_at.simps [of r b])
    have "advances (re_groups r) (b, x # xs, Map.empty) (k, a1, c1)"
      using ms m by (intro matches_advances) simp
    then obtain u where u: "x # xs = u @ a1" "k = rev u @ b" by (auto simp: advances_def)
    then have "w = u" using e(4) by simp
    then show ?thesis using u e ms m by (intro Cons.prems(1) [of "[]"]) auto
  qed
qed

text \<open>Patterns that never match the empty text.\<close>

definition consumes :: "re \<Rightarrow> bool" where
  "consumes r \<longleftrightarrow> (\<forall>b a c b' a' c'. (b', a', c') \<in> set (matches r (b, a, c)) \<longrightarrow> length a' < length a)"

lemma consumes_Cls [simp]: "consumes (Cls P)"
  by (auto simp: consumes_def split: list.splits if_splits)

lemma advances_length: "advances gs (b, a, c) (b', a', c') \<Longrightarrow> length a' \<le> length a"
  by (auto simp: advances_def)

lemma consumes_Seq:
  assumes "consumes r"
  shows "consumes (Seq r s)"
  unfolding consumes_def
proof (intro allI impI)
  fix b a b' a' :: jsstring and c c' :: captures
  assume "(b', a', c') \<in> set (matches (Seq r s) (b, a, c))"
  then obtain k1 k2 k3 where k: "(k1, k2, k3) \<in> set (matches r (b, a, c))" "(b', a', c') \<in> set (matches s (k1, k2, k3))"
    by auto
  then show "length a' < length a"
    using assms advances_length [OF matches_advances [OF k(2)]] unfolding consumes_def by (meson le_less_trans)
qed

lemma consumes_Alt: "consumes r \<Longrightarrow> consumes s \<Longrightarrow> consumes (Alt r s)"
  unfolding consumes_def matches.simps set_append Un_iff by blast

lemma consumes_Lit: "s \<noteq> [] \<Longrightarrow> consumes (Lit s)"
  by (cases s) (simp_all add: consumes_Seq del: matches.simps)

lemma Grp_matches:
  assumes "(rev w @ b, a, c) \<in> set (matches (Grp n r) (b, w @ a, Map.empty))" "re_groups r = []" "consumes r"
  shows "w \<noteq> [] \<and> c = [n \<mapsto> w]"
proof -
  obtain c1 where c1: "(rev w @ b, a, c1) \<in> set (matches r (b, w @ a, Map.empty))" "c = c1(n \<mapsto> w)"
    using assms(1) by auto
  have "c1 = Map.empty" using matches_advances [OF c1(1)] assms(2) by (auto simp: advances_def)
  moreover have "length a < length (w @ a)" using assms(3) c1(1) unfolding consumes_def by blast
  ultimately show ?thesis using c1(2) by auto
qed

lemma run_Grp_Plus:
  assumes "halts P (run rs k)" and "w \<noteq> []" and "\<forall>c\<in>set w. P c" and "a = [] \<or> \<not> P (hd a)"
  shows "run (Grp n (Plus (Cls P)) # rs) k (b, w @ a, c) = run rs k (rev w @ b, a, c(n \<mapsto> w))"
proof -
  let ?k = "\<lambda>(b', a, c). run rs k (b', a, c(n \<mapsto> rev (take (length b' - length b) b')))"
  have "halts P ?k" using assms(1) by (auto simp: halts_def)
  then have "then_m ?k (matches (Plus (Cls P)) (b, w @ a, c)) = ?k (rev w @ b, a, c)"
    by (rule then_Plus_Cls [OF _ assms(2,3,4)])
  then show ?thesis by (simp add: run.simps then_Grp del: matches.simps)
qed

end
