(* ===== verification/Policy_Glob.thy ===== *)
theory Policy_Glob
  imports Js_Regex
begin

text \<open>
  The access decision of the console, \<open>web/src/pages/dashboard/policies/lib/policy-text.ts\<close>: the
  glob matcher, the evaluation the access tester shows, sample paths and scopes; and the server's
  own decision, \<open>internal/policy/policy.go\<close>, which the console claims to reproduce.

  The theorems give the matcher a declarative specification, describe the three usual shapes of
  pattern, show what a star in front of a slash does, characterise the evaluation, and prove that
  tester and server agree.
\<close>

section \<open>The matcher\<close>

abbreviation slash :: jschar where "slash \<equiv> jc CHR ''/''"

abbreviation star_char :: jschar where "star_char \<equiv> jc CHR ''*''"

text \<open>
  The two inner loops try the suffixes of \<open>s\<close> in order; the loop of a single star stops in front of
  the first slash without trying that position.
\<close>

definition star_ends :: "'c \<Rightarrow> 'c list \<Rightarrow> nat list" where
  "star_ends sl s = (let k = length (takeWhile (\<lambda>c. c \<noteq> sl) s)
     in if k < length s then [0..<k] else [0..<Suc k])"

function globMatch :: "jsstring \<Rightarrow> jsstring \<Rightarrow> bool" where
  "globMatch pat s =
     (if pat = [] then s = []
      else if pat = js ''**'' then True
      else if starts_with pat (js ''**/'') then
        (let rest = drop 3 pat in
         globMatch rest s \<or> list_ex (\<lambda>i. s ! i = slash \<and> globMatch rest (drop (i + 1) s)) [0..<length s])
      else if hd pat = star_char then
        (let rest = tl pat in list_ex (\<lambda>k. globMatch rest (drop k s)) (star_ends slash s))
      else if s = [] \<or> hd pat \<noteq> hd s then False
      else globMatch (tl pat) (tl s))"
  by pat_completeness auto
termination
  by (relation "measure (\<lambda>(pat, s). length pat)") (auto simp: starts_with_iff)

declare globMatch.simps [simp del]

section \<open>A declarative specification of glob matching\<close>

text \<open>
  \<open>glob st sl pat s\<close> over any alphabet: a trailing double star matches everything, a double
  star with a slash matches any number of whole segments, a single star matches a run without a
  slash that is not followed by a slash, any other character matches itself.
\<close>

inductive glob :: "'c \<Rightarrow> 'c \<Rightarrow> 'c list \<Rightarrow> 'c list \<Rightarrow> bool" for st sl where
  glob_Nil: "glob st sl [] []"
| glob_any: "glob st sl [st, st] s"
| glob_dirs0: "glob st sl rest s \<Longrightarrow> glob st sl (st # st # sl # rest) s"
| glob_dirs: "glob st sl rest s \<Longrightarrow> glob st sl (st # st # sl # rest) (w @ sl # s)"
| glob_star: "rest \<noteq> [st] \<Longrightarrow> take 2 rest \<noteq> [st, sl] \<Longrightarrow> sl \<notin> set w \<Longrightarrow>
    s = [] \<or> hd s \<noteq> sl \<Longrightarrow> glob st sl rest s \<Longrightarrow> glob st sl (st # rest) (w @ s)"
| glob_lit: "c \<noteq> st \<Longrightarrow> glob st sl rest s \<Longrightarrow> glob st sl (c # rest) (c # s)"

inductive_simps glob_Nil_iff: "glob st sl [] s"

inductive_cases glob_star_cases: "glob st sl (x # rest) s"

text \<open>
  What the console's matcher and the server's matcher have in common: the recursion of the code.
  Everything below is proved once for both.
\<close>

locale glob_matcher =
  fixes st sl :: 'c and m :: "'c list \<Rightarrow> 'c list \<Rightarrow> bool"
  assumes star_slash: "st \<noteq> sl"
    and m_Nil: "m [] s \<longleftrightarrow> s = []"
    and m_any: "m [st, st] s"
    and m_dirs: "m (st # st # sl # rest) s \<longleftrightarrow>
      m rest s \<or> (\<exists>i<length s. s ! i = sl \<and> m rest (drop (Suc i) s))"
    and m_star: "rest \<noteq> [st] \<Longrightarrow> take 2 rest \<noteq> [st, sl] \<Longrightarrow> m (st # rest) s \<longleftrightarrow>
      (\<exists>k\<le>length s. (\<forall>j\<le>k. j < length s \<longrightarrow> s ! j \<noteq> sl) \<and> m rest (drop k s))"
    and m_lit: "c \<noteq> st \<Longrightarrow> m (c # rest) s \<longleftrightarrow> (case s of [] \<Rightarrow> False | d # s' \<Rightarrow> c = d \<and> m rest s')"
begin

lemma dirs_split:
  "(\<exists>i<length s. s ! i = sl \<and> Q (drop (Suc i) s)) \<longleftrightarrow> (\<exists>w t. s = w @ sl # t \<and> Q t)"
proof
  assume "\<exists>i<length s. s ! i = sl \<and> Q (drop (Suc i) s)"
  then obtain i where "i < length s" "s ! i = sl" "Q (drop (Suc i) s)" by blast
  then show "\<exists>w t. s = w @ sl # t \<and> Q t" by (metis id_take_nth_drop)
next
  assume "\<exists>w t. s = w @ sl # t \<and> Q t"
  then obtain w t where "s = w @ sl # t" "Q t" by blast
  then show "\<exists>i<length s. s ! i = sl \<and> Q (drop (Suc i) s)"
    by (intro exI [of _ "length w"]) auto
qed

lemma star_split:
  "(\<exists>k\<le>length s. (\<forall>j\<le>k. j < length s \<longrightarrow> s ! j \<noteq> sl) \<and> Q (drop k s)) \<longleftrightarrow>
   (\<exists>w t. s = w @ t \<and> sl \<notin> set w \<and> (t = [] \<or> hd t \<noteq> sl) \<and> Q t)"
proof
  assume "\<exists>k\<le>length s. (\<forall>j\<le>k. j < length s \<longrightarrow> s ! j \<noteq> sl) \<and> Q (drop k s)"
  then obtain k where k: "k \<le> length s" "\<And>j. j \<le> k \<Longrightarrow> j < length s \<Longrightarrow> s ! j \<noteq> sl" "Q (drop k s)"
    by blast
  have "sl \<notin> set (take k s)"
    using k(1,2) by (auto simp: in_set_conv_nth)
  moreover have "drop k s = [] \<or> hd (drop k s) \<noteq> sl"
    using k(2) [of k] by (cases "k < length s") (auto simp: hd_drop_conv_nth)
  ultimately show "\<exists>w t. s = w @ t \<and> sl \<notin> set w \<and> (t = [] \<or> hd t \<noteq> sl) \<and> Q t"
    using k(3) by (intro exI [of _ "take k s"] exI [of _ "drop k s"]) simp
next
  assume "\<exists>w t. s = w @ t \<and> sl \<notin> set w \<and> (t = [] \<or> hd t \<noteq> sl) \<and> Q t"
  then obtain w t where w: "s = w @ t" "sl \<notin> set w" "t = [] \<or> hd t \<noteq> sl" "Q t" by blast
  have "s ! j \<noteq> sl" if "j \<le> length w" "j < length s" for j
    using that w by (cases "j < length w") (auto simp: nth_append hd_conv_nth)
  with w show "\<exists>k\<le>length s. (\<forall>j\<le>k. j < length s \<longrightarrow> s ! j \<noteq> sl) \<and> Q (drop k s)"
    by (intro exI [of _ "length w"]) auto
qed

lemma glob_imp_m: "glob st sl pat s \<Longrightarrow> m pat s"
proof (induction rule: glob.induct)
  case (glob_dirs rest s w)
  then show ?case using m_dirs dirs_split [of "w @ sl # s" "m rest"] by blast
next
  case (glob_star rest w s)
  then show ?case using m_star [of rest "w @ s"] star_split [of "w @ s" "m rest"] by blast
qed (auto simp: m_Nil m_any m_dirs m_lit)

lemma m_imp_glob: "m pat s \<Longrightarrow> glob st sl pat s"
proof (induction pat arbitrary: s rule: length_induct)
  case (1 pat)
  then have IH: "\<And>p t. length p < length pat \<Longrightarrow> m p t \<Longrightarrow> glob st sl p t" by blast
  consider "pat = []" | "pat = [st, st]" | rest where "pat = st # st # sl # rest"
    | rest where "pat = st # rest" "rest \<noteq> [st]" "take 2 rest \<noteq> [st, sl]"
    | c rest where "pat = c # rest" "c \<noteq> st"
    by (cases pat; cases "tl pat"; cases "tl (tl pat)"; cases "hd pat = st") auto
  then show ?case
  proof cases
    case 1
    with "1.prems" show ?thesis by (simp add: m_Nil glob_Nil)
  next
    case 2
    then show ?thesis by (simp add: glob_any)
  next
    case (3 rest)
    with "1.prems" consider "m rest s" | w t where "s = w @ sl # t" "m rest t"
      by (auto simp: m_dirs dirs_split)
    then show ?thesis using IH 3 by cases (auto intro: glob.intros)
  next
    case (4 rest)
    with "1.prems" obtain w t where "s = w @ t" "sl \<notin> set w" "t = [] \<or> hd t \<noteq> sl" "m rest t"
      by (auto simp: m_star star_split)
    then show ?thesis using IH 4 by (auto intro: glob.glob_star)
  next
    case (5 c rest)
    with "1.prems" show ?thesis using IH by (auto simp: m_lit intro: glob.glob_lit split: list.splits)
  qed
qed

theorem m_iff_glob: "m pat s \<longleftrightarrow> glob st sl pat s"
  using glob_imp_m m_imp_glob by blast

lemma m_literal_prefix:
  "st \<notin> set lit \<Longrightarrow> m (lit @ pat) s \<longleftrightarrow> (\<exists>t. s = lit @ t \<and> m pat t)"
proof (induction lit arbitrary: s)
  case (Cons c lit)
  then have "c \<noteq> st" by auto
  with Cons show ?case by (auto simp: m_lit split: list.splits)
qed simp

lemma m_single_star: "m [st] s \<longleftrightarrow> sl \<notin> set s"
proof -
  have "m [st] s \<longleftrightarrow> (\<exists>w t. s = w @ t \<and> sl \<notin> set w \<and> (t = [] \<or> hd t \<noteq> sl) \<and> m [] t)"
    using m_star [of "[]" s] star_split [of s "m []"] by simp
  then show ?thesis by (auto simp: m_Nil)
qed

lemma m_star_slash: "\<not> m (st # sl # pat) s"
proof -
  have "\<not> (t = [] \<or> hd t \<noteq> sl)" if "m (sl # pat) t" for t
    using that star_slash by (auto simp: m_lit split: list.splits)
  then show ?thesis
    using star_slash by (auto simp: m_star star_split)
qed

end

lemma glob_map:
  assumes inj: "\<And>x y. x \<in> A \<Longrightarrow> y \<in> A \<Longrightarrow> f x = f y \<Longrightarrow> x = y"
    and mem: "st \<in> A" "sl \<in> A"
    and g: "glob st sl pat s" and sub: "set pat \<subseteq> A" "set s \<subseteq> A"
  shows "glob (f st) (f sl) (map f pat) (map f s)"
  using g sub
proof (induction rule: glob.induct)
  case (glob_dirs rest s w)
  then show ?case using glob.glob_dirs [of "f st" "f sl" "map f rest" "map f s" "map f w"] by auto
next
  case (glob_star rest w s)
  have "map f rest \<noteq> [f st]" "take 2 (map f rest) \<noteq> [f st, f sl]"
    using glob_star.hyps(1,2) glob_star.prems(1) inj mem
    by (auto simp: take_map map_eq_Cons_conv dest!: in_set_takeD)
      (metis Cons_eq_appendI append_take_drop_id in_set_conv_decomp list.set_intros subsetD)+
  moreover have "f sl \<notin> set (map f w)"
    using glob_star.hyps(3) glob_star.prems(2) inj mem by auto
  moreover have "map f s = [] \<or> hd (map f s) \<noteq> f sl"
    using glob_star.hyps(4) glob_star.prems(2) inj mem by (cases s) auto
  ultimately show ?case
    using glob.glob_star [of "map f rest" "f st" "f sl" "map f w" "map f s"] glob_star by auto
next
  case (glob_lit c rest s)
  then show ?case using inj mem by (auto intro!: glob.glob_lit)
qed (auto intro: glob.intros)

lemma star_ends_iff:
  "k \<in> set (star_ends sl s) \<longleftrightarrow> k \<le> length s \<and> (\<forall>j\<le>k. j < length s \<longrightarrow> s ! j \<noteq> sl)"
proof -
  let ?n = "length (takeWhile (\<lambda>c. c \<noteq> sl) s)"
  have le: "?n \<le> length s" by (rule length_takeWhile_le)
  have before: "s ! j \<noteq> sl" if "j < ?n" for j
    using set_takeWhileD [OF nth_mem [OF that]] takeWhile_nth [OF that] by simp
  show ?thesis
  proof (cases "?n < length s")
    case True
    then have n: "s ! ?n = sl" using nth_length_takeWhile by fastforce
    have "k < ?n" if "\<forall>j\<le>k. j < length s \<longrightarrow> s ! j \<noteq> sl"
      using that True n by (meson not_le)
    moreover have "k \<le> length s \<and> (\<forall>j\<le>k. j < length s \<longrightarrow> s ! j \<noteq> sl)" if "k < ?n"
    proof (intro conjI allI impI)
      show "k \<le> length s" using that le by simp
      show "s ! j \<noteq> sl" if "j \<le> k" for j
        using \<open>k < ?n\<close> that by (intro before) simp
    qed
    moreover have "k \<in> set (star_ends sl s) \<longleftrightarrow> k < ?n"
      using True by (simp add: star_ends_def Let_def)
    ultimately show ?thesis by blast
  next
    case False
    with le have "?n = length s" by simp
    with before show ?thesis by (auto simp: star_ends_def Let_def)
  qed
qed

text \<open>The console's matcher is a glob matcher.\<close>

lemma starts_with_dirs:
  "starts_with pat (js ''**/'') \<longleftrightarrow> (\<exists>rest. pat = star_char # star_char # slash # rest)"
  by (auto simp: starts_with_iff)

lemma globMatch_star:
  assumes "rest \<noteq> [star_char]" "take 2 rest \<noteq> [star_char, slash]"
  shows "globMatch (star_char # rest) s \<longleftrightarrow> (\<exists>k\<in>set (star_ends slash s). globMatch rest (drop k s))"
proof -
  have "star_char # rest \<noteq> js ''**''" using assms(1) by simp
  moreover have "\<not> starts_with (star_char # rest) (js ''**/'')"
    using assms(2) by (auto simp: starts_with_def numeral_2_eq_2)
  ultimately show ?thesis
    by (subst globMatch.simps) (simp only: list.sel list.distinct if_False if_True Let_def list_ex_iff refl)
qed

interpretation ui: glob_matcher star_char slash globMatch
proof unfold_locales
  show "star_char \<noteq> slash" by simp
next
  fix s
  show "globMatch [] s \<longleftrightarrow> s = []" by (subst globMatch.simps) simp
next
  fix s
  show "globMatch [star_char, star_char] s" by (subst globMatch.simps) simp
next
  fix rest s
  show "globMatch (star_char # star_char # slash # rest) s \<longleftrightarrow>
      globMatch rest s \<or> (\<exists>i<length s. s ! i = slash \<and> globMatch rest (drop (Suc i) s))"
    by (subst globMatch.simps) (auto simp: list_ex_iff)
next
  fix rest s
  assume "rest \<noteq> [star_char]" "take 2 rest \<noteq> [star_char, slash]"
  then show "globMatch (star_char # rest) s \<longleftrightarrow>
      (\<exists>k\<le>length s. (\<forall>j\<le>k. j < length s \<longrightarrow> s ! j \<noteq> slash) \<and> globMatch rest (drop k s))"
    unfolding globMatch_star [OF \<open>rest \<noteq> [star_char]\<close> \<open>take 2 rest \<noteq> [star_char, slash]\<close>]
    by (simp only: Bex_def star_ends_iff conj_assoc)
next
  fix c rest s
  assume c: "c \<noteq> star_char"
  then have "c # rest \<noteq> js ''**''" "\<not> starts_with (c # rest) (js ''**/'')" by auto
  with c show "globMatch (c # rest) s \<longleftrightarrow> (case s of [] \<Rightarrow> False | d # s' \<Rightarrow> c = d \<and> globMatch rest s')"
    by (subst globMatch.simps) (simp only: list.sel list.distinct if_False if_True, cases s, simp_all)
qed

section \<open>Rules and their evaluation\<close>

definition CAPS :: "jsstring list" where
  "CAPS = [js ''read'', js ''write'', js ''delete'', js ''list'', js ''deny'']"

record parsed_rule =
  pr_caps :: "jsstring list"
  pr_line :: nat
  pr_n :: nat
  pr_path :: jsstring

datatype eval_kind = KAllow | KDeny | KNocap | KNomatch

record evaluation =
  ev_allow :: bool
  ev_kind :: eval_kind
  ev_matches :: "parsed_rule list"
  ev_rule :: "parsed_rule option"

definition evaluate :: "parsed_rule list \<Rightarrow> jsstring \<Rightarrow> jsstring \<Rightarrow> evaluation" where
  "evaluate rules path cap =
     (let ms = filter (\<lambda>r. globMatch (pr_path r) path) rules in
      (case find (\<lambda>r. js ''deny'' \<in> set (pr_caps r)) ms of
         Some d \<Rightarrow> \<lparr>ev_allow = False, ev_kind = KDeny, ev_matches = ms, ev_rule = Some d\<rparr>
       | None \<Rightarrow>
          (case find (\<lambda>r. cap \<in> set (pr_caps r)) ms of
             Some r \<Rightarrow> \<lparr>ev_allow = True, ev_kind = KAllow, ev_matches = ms, ev_rule = Some r\<rparr>
           | None \<Rightarrow> \<lparr>ev_allow = False, ev_kind = (if ms \<noteq> [] then KNocap else KNomatch),
                      ev_matches = ms, ev_rule = None\<rparr>)))"

text \<open>\<open>.replace(/\*\*/g, 'example/item').replace(/\*/g, 'example')\<close>\<close>

fun replace_star2 :: "jsstring \<Rightarrow> jsstring" where
  "replace_star2 [] = []"
| "replace_star2 [c] = [c]"
| "replace_star2 (c # d # s) =
     (if c = star_char \<and> d = star_char then js ''example/item'' @ replace_star2 s
      else c # replace_star2 (d # s))"

definition replace_star1 :: "jsstring \<Rightarrow> jsstring" where
  "replace_star1 s = concat (map (\<lambda>c. if c = star_char then js ''example'' else [c]) s)"

definition samplePath :: "jsstring \<Rightarrow> jsstring" where
  "samplePath pattern = replace_star1 (replace_star2 pattern)"

datatype scope = Exact | Recursive | Segment

definition pathScope :: "jsstring \<Rightarrow> scope" where
  "pathScope path =
     (if includes_str path (js ''**'') then Recursive
      else if includes_str path (js ''*'') then Segment else Exact)"

section \<open>The server's decision\<close>

text \<open>
  \<open>internal/policy/policy.go\<close> and the capability parser of \<open>internal/api/policies.go\<close>. Go strings
  are byte strings; for ASCII text the bytes are the code units.
\<close>

unbundle bit_operations_syntax

type_synonym bytes = "8 word list"

definition b8 :: "string \<Rightarrow> bytes" where
  "b8 s = map of_char s"

definition to_bytes :: "jsstring \<Rightarrow> bytes" where
  "to_bytes s = map ucast s"

abbreviation bstar :: "8 word" where "bstar \<equiv> of_char CHR ''*''"

abbreviation bslash :: "8 word" where "bslash \<equiv> of_char CHR ''/''"

function go_globMatch :: "bytes \<Rightarrow> bytes \<Rightarrow> bool" where
  "go_globMatch pat s =
     (if length pat = 0 then length s = 0
      else if pat = b8 ''**'' then True
      else if take 3 pat = b8 ''**/'' then
        (let rest = drop 3 pat in
         go_globMatch rest s \<or>
         list_ex (\<lambda>i. s ! i = bslash \<and> go_globMatch rest (drop (i + 1) s)) [0..<length s])
      else if hd pat = bstar then
        (let rest = tl pat in list_ex (\<lambda>i. go_globMatch rest (drop i s)) (star_ends bslash s))
      else if length s = 0 \<or> hd pat \<noteq> hd s then False
      else go_globMatch (tl pat) (tl s))"
  by pat_completeness auto
termination
proof (relation "measure (\<lambda>(pat, s). length pat)")
  fix pat s :: bytes and rest
  assume "take 3 pat = b8 ''**/''" "rest = drop 3 pat"
  then have "length pat \<ge> 3" "length rest = length pat - 3"
    by (auto simp: b8_def dest: arg_cong [of _ _ length])
  then show "((rest, s), (pat, s)) \<in> measure (\<lambda>(pat, s). length pat)"
    and "\<And>z. ((rest, drop (z + 1) s), (pat, s)) \<in> measure (\<lambda>(pat, s). length pat)" by auto
qed auto

declare go_globMatch.simps [simp del]

type_synonym capability = "64 word"

definition CapRead :: capability where "CapRead = 1"
definition CapWrite :: capability where "CapWrite = 2"
definition CapDelete :: capability where "CapDelete = 4"
definition CapList :: capability where "CapList = 8"
definition CapDeny :: capability where "CapDeny = 16"

record go_rule =
  gr_path :: bytes
  gr_caps :: capability

record go_policy =
  gp_name :: bytes
  gp_rules :: "go_rule list"
  gp_inheritable :: bool

definition Allowed :: "go_policy list \<Rightarrow> bytes \<Rightarrow> capability \<Rightarrow> bool" where
  "Allowed policies path cap =
     (if list_ex (\<lambda>p. list_ex (\<lambda>r. go_globMatch (gr_path r) path \<and> gr_caps r AND CapDeny \<noteq> 0) (gp_rules p)) policies
      then False
      else list_ex (\<lambda>p. list_ex (\<lambda>r. go_globMatch (gr_path r) path \<and> gr_caps r AND cap \<noteq> 0) (gp_rules p)) policies)"

definition cap_of_name :: "bytes \<Rightarrow> capability option" where
  "cap_of_name s =
     (if s = b8 ''read'' then Some CapRead
      else if s = b8 ''write'' then Some CapWrite
      else if s = b8 ''delete'' then Some CapDelete
      else if s = b8 ''list'' then Some CapList
      else if s = b8 ''deny'' then Some CapDeny
      else None)"

text \<open>\<open>parseCaps\<close>: the accumulated mask, or the first unrecognised name.\<close>

fun parseCaps :: "capability \<Rightarrow> bytes list \<Rightarrow> bytes + capability" where
  "parseCaps c [] = Inr c"
| "parseCaps c (s # ss) = (case cap_of_name s of Some m \<Rightarrow> parseCaps (c OR m) ss | None \<Rightarrow> Inl s)"

text \<open>The rules \<open>putPolicy\<close> of the server builds from a request, or the name it rejects.\<close>

fun putPolicy_rules :: "(bytes \<times> bytes list) list \<Rightarrow> bytes + go_rule list" where
  "putPolicy_rules [] = Inr []"
| "putPolicy_rules ((path, caps) # rs) =
     (case parseCaps 0 caps of
        Inl e \<Rightarrow> Inl e
      | Inr m \<Rightarrow> (case putPolicy_rules rs of
          Inl e \<Rightarrow> Inl e
        | Inr out \<Rightarrow> Inr (\<lparr>gr_path = path, gr_caps = m\<rparr> # out)))"

section \<open>Properties of the matcher\<close>

lemma ends_dir_iff:
  "t = x \<or> (\<exists>w. t = w @ c # x) \<longleftrightarrow> (\<exists>d. t = d @ x \<and> (d = [] \<or> last d = c))"
proof
  assume "\<exists>d. t = d @ x \<and> (d = [] \<or> last d = c)"
  then obtain d where d: "t = d @ x" "d = [] \<or> last d = c" by blast
  then show "t = x \<or> (\<exists>w. t = w @ c # x)" by (cases d rule: rev_cases) auto
next
  assume "t = x \<or> (\<exists>w. t = w @ c # x)"
  then consider "t = x" | w where "t = (w @ [c]) @ x" by auto
  then show "\<exists>d. t = d @ x \<and> (d = [] \<or> last d = c)"
  proof cases
    case 2
    then show ?thesis by (intro exI [of _ "w @ [c]"]) simp
  qed simp
qed


text \<open>
  The shapes of pattern the console documents. A pattern without stars matches itself, a
  trailing single star matches one segment, a trailing double star everything below, and a double
  star with a slash any number of whole segments.
\<close>

theorem globMatch_shapes:
  assumes "star_char \<notin> set lit" and "star_char \<notin> set lit2"
  shows "(globMatch lit s \<longleftrightarrow> s = lit) \<and>
    (globMatch (lit @ js ''*'') s \<longleftrightarrow> (\<exists>w. s = lit @ w \<and> slash \<notin> set w)) \<and>
    (globMatch (lit @ js ''**'') s \<longleftrightarrow> (\<exists>w. s = lit @ w)) \<and>
    (globMatch (lit @ js ''**/'' @ lit2) s \<longleftrightarrow>
      (\<exists>d. s = lit @ d @ lit2 \<and> (d = [] \<or> last d = slash)))"
proof (intro conjI)
  note pre = ui.m_literal_prefix [OF assms(1)]
  have exact: "globMatch x t \<longleftrightarrow> t = x" if "star_char \<notin> set x" for x t
    using ui.m_literal_prefix [OF that, of "[]" t] by (auto simp: ui.m_Nil)
  show "globMatch lit s \<longleftrightarrow> s = lit" by (rule exact [OF assms(1)])
  show "globMatch (lit @ js ''*'') s \<longleftrightarrow> (\<exists>w. s = lit @ w \<and> slash \<notin> set w)"
    using pre [of "[star_char]" s] by (simp only: js_simps ui.m_single_star)
  show "globMatch (lit @ js ''**'') s \<longleftrightarrow> (\<exists>w. s = lit @ w)"
    using pre [of "[star_char, star_char]" s] ui.m_any by (simp only: js_simps) simp
  have "globMatch (js ''**/'' @ lit2) t \<longleftrightarrow> t = lit2 \<or> (\<exists>w. t = w @ slash # lit2)" for t
    using ui.m_dirs [of lit2 t] ui.dirs_split [of t "globMatch lit2"] exact [OF assms(2)]
    by (simp only: js_simps append.simps) blast
  then have "globMatch (js ''**/'' @ lit2) t \<longleftrightarrow> (\<exists>d. t = d @ lit2 \<and> (d = [] \<or> last d = slash))" for t
    by (simp only: ends_dir_iff)
  then show "globMatch (lit @ js ''**/'' @ lit2) s \<longleftrightarrow>
      (\<exists>d. s = lit @ d @ lit2 \<and> (d = [] \<or> last d = slash))"
    unfolding pre by blast
qed

theorem globMatch_shapes_witness:
  "star_char \<notin> set (js ''secret/'') \<and> star_char \<notin> set (js ''db'') \<and>
   globMatch (js ''secret/'' @ js ''*'') (js ''secret/api'') \<and>
   \<not> globMatch (js ''secret/'' @ js ''*'') (js ''secret/team/api'') \<and>
   globMatch (js ''secret/'' @ js ''**/'' @ js ''db'') (js ''secret/a/b/db'')"
proof -
  have h: "star_char \<notin> set (js ''secret/'')" "star_char \<notin> set (js ''db'')" by simp_all
  have "\<exists>w. js ''secret/api'' = js ''secret/'' @ w \<and> slash \<notin> set w"
    by (rule exI [of _ "js ''api''"]) simp
  moreover have "\<not> (\<exists>w. js ''secret/team/api'' = js ''secret/'' @ w \<and> slash \<notin> set w)"
    by auto
  moreover have "\<exists>d. js ''secret/a/b/db'' = js ''secret/'' @ d @ js ''db'' \<and> (d = [] \<or> last d = slash)"
    by (rule exI [of _ "js ''a/b/''"]) simp
  ultimately show ?thesis
    using h globMatch_shapes [OF h] by blast
qed

text \<open>
  C2: a single star directly in front of a slash never matches, whatever the subject: the loop over
  the subject stops in front of the slash it would have to leave. A pattern such as
  \<open>secret/*/prod\<close> therefore grants nothing and, as a deny rule, denies nothing.
\<close>

theorem star_before_slash_never_matches:
  assumes "star_char \<notin> set lit"
  shows "\<not> globMatch (lit @ js ''*/'' @ pat) s"
  using ui.m_literal_prefix [OF assms, of "star_char # slash # pat" s] ui.m_star_slash
  by (simp only: js_simps append.simps) blast

theorem star_before_slash_never_matches_witness:
  "star_char \<notin> set (js ''secret/'') \<and>
   \<not> globMatch (js ''secret/'' @ js ''*/'' @ js ''prod'') (js ''secret/team/prod'')"
proof -
  have h: "star_char \<notin> set (js ''secret/'')" by simp
  show ?thesis using h star_before_slash_never_matches [OF h, of "js ''prod''" "js ''secret/team/prod''"]
    by blast
qed

section \<open>Properties of the evaluation\<close>

lemma find_Some_iff_ex: "(\<exists>x. find P xs = Some x) \<longleftrightarrow> (\<exists>x\<in>set xs. P x)"
  by (metis find_None_iff not_None_eq)

lemma find_Some_D: "find P xs = Some x \<Longrightarrow> x \<in> set xs \<and> P x"
  by (auto simp: find_Some_iff)

abbreviation denies :: "parsed_rule list \<Rightarrow> jsstring \<Rightarrow> bool" where
  "denies rules path \<equiv> \<exists>r\<in>set rules. globMatch (pr_path r) path \<and> js ''deny'' \<in> set (pr_caps r)"

abbreviation grants :: "parsed_rule list \<Rightarrow> jsstring \<Rightarrow> jsstring \<Rightarrow> bool" where
  "grants rules path cap \<equiv> \<exists>r\<in>set rules. globMatch (pr_path r) path \<and> cap \<in> set (pr_caps r)"

lemma evaluate_allow:
  "ev_allow (evaluate rules path cap) \<longleftrightarrow> grants rules path cap \<and> \<not> denies rules path"
proof -
  let ?ms = "filter (\<lambda>r. globMatch (pr_path r) path) rules"
  have "find (\<lambda>r. js ''deny'' \<in> set (pr_caps r)) ?ms = None \<longleftrightarrow> \<not> denies rules path"
    by (auto simp: find_None_iff simp del: js_simps)
  moreover have "find (\<lambda>r. cap \<in> set (pr_caps r)) ?ms = None \<longleftrightarrow> \<not> grants rules path cap"
    by (auto simp: find_None_iff)
  ultimately show ?thesis
    by (auto simp: evaluate_def Let_def simp del: js_simps split: option.splits)
qed

text \<open>
  C3: the tester's decision. Access is allowed exactly when a matching rule grants the capability
  and no matching rule denies; the reported kind names the reason, the reported rule is a rule of
  the policy that matches and carries the deciding capability, and \<open>matches\<close> are all rules that
  match.
\<close>

theorem evaluate_decision:
  "let e = evaluate rules path cap in
     (ev_allow e \<longleftrightarrow> grants rules path cap \<and> \<not> denies rules path) \<and>
     ev_kind e = (if denies rules path then KDeny
                  else if grants rules path cap then KAllow
                  else if (\<exists>r\<in>set rules. globMatch (pr_path r) path) then KNocap else KNomatch) \<and>
     set (ev_matches e) = {r \<in> set rules. globMatch (pr_path r) path} \<and>
     (case ev_rule e of
        None \<Rightarrow> \<not> denies rules path \<and> \<not> grants rules path cap
      | Some r \<Rightarrow> r \<in> set (ev_matches e) \<and>
          (if denies rules path then js ''deny'' else cap) \<in> set (pr_caps r))"
proof -
  let ?ms = "filter (\<lambda>r. globMatch (pr_path r) path) rules"
  have d: "find (\<lambda>r. js ''deny'' \<in> set (pr_caps r)) ?ms = None \<longleftrightarrow> \<not> denies rules path"
    by (auto simp: find_None_iff)
  have g: "find (\<lambda>r. cap \<in> set (pr_caps r)) ?ms = None \<longleftrightarrow> \<not> grants rules path cap"
    by (auto simp: find_None_iff)
  show ?thesis
  proof (cases "find (\<lambda>r. js ''deny'' \<in> set (pr_caps r)) ?ms")
    case (Some x)
    with d have "denies rules path" by auto
    with Some show ?thesis by (auto simp: evaluate_def Let_def dest: find_Some_D)
  next
    case None
    with d have nd: "\<not> denies rules path" by auto
    show ?thesis
    proof (cases "find (\<lambda>r. cap \<in> set (pr_caps r)) ?ms")
      case (Some x)
      with g have "grants rules path cap" by auto
      with Some None nd show ?thesis by (auto simp: evaluate_def Let_def dest: find_Some_D)
    next
      case N: None
      with g have "\<not> grants rules path cap" by auto
      with N None nd show ?thesis by (auto simp: evaluate_def Let_def filter_empty_conv)
    qed
  qed
qed

section \<open>The tester and the server agree\<close>

definition ascii :: "jsstring \<Rightarrow> bool" where
  "ascii s \<longleftrightarrow> (\<forall>c\<in>set s. c < 128)"

lemma go_globMatch_star:
  assumes "rest \<noteq> [bstar]" "take 2 rest \<noteq> [bstar, bslash]"
  shows "go_globMatch (bstar # rest) s \<longleftrightarrow> (\<exists>k\<in>set (star_ends bslash s). go_globMatch rest (drop k s))"
proof -
  have "bstar # rest \<noteq> b8 ''**''" using assms(1) by (simp add: b8_def)
  moreover have "take 3 (bstar # rest) \<noteq> b8 ''**/''"
    using assms(2) by (simp add: b8_def numeral_3_eq_3 numeral_2_eq_2)
  moreover have "length (bstar # rest) \<noteq> 0" by simp
  ultimately show ?thesis
    by (subst go_globMatch.simps) (simp only: list.sel if_False if_True Let_def list_ex_iff refl)
qed

interpretation go: glob_matcher bstar bslash go_globMatch
proof unfold_locales
  show "bstar \<noteq> bslash" by simp
next
  fix s
  show "go_globMatch [] s \<longleftrightarrow> s = []" by (subst go_globMatch.simps) simp
next
  fix s
  show "go_globMatch [bstar, bstar] s" by (subst go_globMatch.simps) (simp add: b8_def)
next
  fix rest s
  show "go_globMatch (bstar # bstar # bslash # rest) s \<longleftrightarrow>
      go_globMatch rest s \<or> (\<exists>i<length s. s ! i = bslash \<and> go_globMatch rest (drop (Suc i) s))"
    by (subst go_globMatch.simps) (auto simp: list_ex_iff b8_def)
next
  fix rest s
  assume "rest \<noteq> [bstar]" "take 2 rest \<noteq> [bstar, bslash]"
  then show "go_globMatch (bstar # rest) s \<longleftrightarrow>
      (\<exists>k\<le>length s. (\<forall>j\<le>k. j < length s \<longrightarrow> s ! j \<noteq> bslash) \<and> go_globMatch rest (drop k s))"
    unfolding go_globMatch_star [OF \<open>rest \<noteq> [bstar]\<close> \<open>take 2 rest \<noteq> [bstar, bslash]\<close>]
    by (simp only: Bex_def star_ends_iff conj_assoc)
next
  fix c rest s
  assume c: "c \<noteq> bstar"
  then have "c # rest \<noteq> b8 ''**''" "take 3 (c # rest) \<noteq> b8 ''**/''" by (auto simp: b8_def)
  moreover have "length (c # rest) \<noteq> 0" by simp
  ultimately show "go_globMatch (c # rest) s \<longleftrightarrow>
      (case s of [] \<Rightarrow> False | d # s' \<Rightarrow> c = d \<and> go_globMatch rest s')"
    using c by (subst go_globMatch.simps) (simp only: list.sel if_False if_True, cases s, simp_all)
qed

lemma ucast_back_ascii: "x < 128 \<Longrightarrow> (ucast (ucast (x :: jschar) :: 8 word) :: jschar) = x"
proof -
  assume "x < 128"
  then have "unat x < 128" by (simp add: word_less_nat_alt)
  then show ?thesis
    by (simp add: word_unat_eq_iff unsigned_ucast_eq unsigned_take_bit_eq take_bit_nat_eq_self)
qed

lemma ucast_inj_ascii:
  assumes "x < 128" "y < 128" "(ucast (x :: jschar) :: 8 word) = ucast y"
  shows "x = y"
  using arg_cong [OF assms(3), of "ucast :: 8 word \<Rightarrow> jschar"] assms(1,2)
  by (simp only: ucast_back_ascii)

lemma to_bytes_back: "ascii s \<Longrightarrow> map ucast (to_bytes s) = s"
  by (simp add: ascii_def to_bytes_def map_idI ucast_back_ascii)

lemma inj_ucast_up: "(ucast (x :: 8 word) :: jschar) = ucast y \<Longrightarrow> x = y"
proof -
  assume "(ucast x :: jschar) = ucast y"
  then have "unat (ucast x :: jschar) = unat (ucast y :: jschar)" by simp
  moreover have "unat (ucast z :: jschar) = unat z" for z :: "8 word"
    using unsigned_less [of z, where ?'a = nat] by (simp add: unsigned_ucast_eq unsigned_take_bit_eq take_bit_nat_eq_self)
  ultimately show ?thesis by (simp add: word_unat_eq_iff)
qed

theorem go_globMatch_ascii:
  assumes "ascii pat" "ascii s"
  shows "go_globMatch (to_bytes pat) (to_bytes s) \<longleftrightarrow> globMatch pat s"
proof
  assume "globMatch pat s"
  then have "glob star_char slash pat s" by (simp only: ui.m_iff_glob)
  then have "glob (ucast star_char :: 8 word) (ucast slash) (map ucast pat) (map ucast s)"
    using assms by (intro glob_map [where A = "{c. c < 128}"]) (auto simp: ascii_def intro: ucast_inj_ascii)
  then show "go_globMatch (to_bytes pat) (to_bytes s)"
    by (simp add: go.m_iff_glob to_bytes_def)
next
  assume "go_globMatch (to_bytes pat) (to_bytes s)"
  then have "glob bstar bslash (to_bytes pat) (to_bytes s)" by (simp only: go.m_iff_glob)
  then have "glob (ucast bstar :: jschar) (ucast bslash) (map ucast (to_bytes pat)) (map ucast (to_bytes s))"
    by (intro glob_map [where A = UNIV]) (auto dest: inj_ucast_up)
  then have "glob (ucast bstar :: jschar) (ucast bslash) pat s" by (simp only: to_bytes_back assms)
  then show "globMatch pat s" by (simp add: ui.m_iff_glob)
qed

definition cap_index :: "jsstring \<Rightarrow> nat option" where
  "cap_index c = (if c = js ''read'' then Some 0 else if c = js ''write'' then Some 1
     else if c = js ''delete'' then Some 2 else if c = js ''list'' then Some 3
     else if c = js ''deny'' then Some 4 else None)"

lemma CAPS_cases:
  assumes "c \<in> set CAPS"
  obtains "c = js ''read''" | "c = js ''write''" | "c = js ''delete''" | "c = js ''list''" | "c = js ''deny''"
  using assms unfolding CAPS_def list.set by blast

lemma cap_of_name_index:
  assumes "c \<in> set CAPS"
  shows "\<exists>n. cap_index c = Some n \<and> cap_of_name (to_bytes c) = Some (2 ^ n)"
  using assms
  by (rule CAPS_cases)
    (simp_all add: cap_index_def cap_of_name_def to_bytes_def b8_def
      CapRead_def CapWrite_def CapDelete_def CapList_def CapDeny_def)

lemma cap_index_inj: "cap_index c = Some n \<Longrightarrow> cap_index d = Some n \<Longrightarrow> c = d"
  by (auto simp: cap_index_def simp del: js_simps split: if_splits)

lemma cap_index_bound: "cap_index c = Some n \<Longrightarrow> n < 64"
  by (auto simp: cap_index_def simp del: js_simps split: if_splits)

lemma parseCaps_bits:
  assumes "set caps \<subseteq> set CAPS"
  shows "\<exists>m. parseCaps c (map to_bytes caps) = Inr m \<and>
    (\<forall>n. bit m n \<longleftrightarrow> bit c n \<or> (\<exists>d\<in>set caps. cap_index d = Some n))"
  using assms
proof (induction caps arbitrary: c)
  case (Cons d caps)
  then obtain k where k: "cap_index d = Some k" "cap_of_name (to_bytes d) = Some (2 ^ k)"
    using cap_of_name_index [of d] by auto
  obtain m where m: "parseCaps (c OR 2 ^ k) (map to_bytes caps) = Inr m"
      "\<forall>n. bit m n \<longleftrightarrow> bit (c OR 2 ^ k) n \<or> (\<exists>d\<in>set caps. cap_index d = Some n)"
    using Cons.IH [of "c OR 2 ^ k"] Cons.prems by auto
  have "bit (c OR 2 ^ k) n \<longleftrightarrow> bit c n \<or> k = n" for n
    using cap_index_bound [OF k(1)] by (auto simp: bit_or_iff bit_exp_iff)
  with m k show ?case by auto
qed simp

lemma mask_test:
  assumes "parseCaps 0 (map to_bytes caps) = Inr m" "set caps \<subseteq> set CAPS"
    and "cap_of_name (to_bytes cap) = Some b" "cap \<in> set CAPS"
  shows "m AND b \<noteq> 0 \<longleftrightarrow> cap \<in> set caps"
proof -
  obtain n where n: "cap_index cap = Some n" "b = 2 ^ n"
    using cap_of_name_index [OF assms(4)] assms(3) by auto
  have "m AND b \<noteq> 0 \<longleftrightarrow> bit m n"
    by (simp add: n(2) and_exp_eq_0_iff_not_bit)
  also have "\<dots> \<longleftrightarrow> (\<exists>d\<in>set caps. cap_index d = Some n)"
    using parseCaps_bits [OF assms(2), of 0] assms(1) by auto
  also have "\<dots> \<longleftrightarrow> cap \<in> set caps" using n(1) cap_index_inj by blast
  finally show ?thesis .
qed

abbreviation wire_rules :: "parsed_rule list \<Rightarrow> (bytes \<times> bytes list) list" where
  "wire_rules rules \<equiv> map (\<lambda>r. (to_bytes (pr_path r), map to_bytes (pr_caps r))) rules"

lemma putPolicy_rules_ok:
  assumes "\<forall>r\<in>set rules. set (pr_caps r) \<subseteq> set CAPS"
  shows "\<exists>out. putPolicy_rules (wire_rules rules) = Inr out \<and>
    list_all2 (\<lambda>r g. gr_path g = to_bytes (pr_path r) \<and>
      parseCaps 0 (map to_bytes (pr_caps r)) = Inr (gr_caps g)) rules out"
  using assms
proof (induction rules)
  case (Cons r rules)
  then obtain out where "putPolicy_rules (wire_rules rules) = Inr out"
      "list_all2 (\<lambda>r g. gr_path g = to_bytes (pr_path r) \<and>
        parseCaps 0 (map to_bytes (pr_caps r)) = Inr (gr_caps g)) rules out" by auto
  moreover obtain m where "parseCaps 0 (map to_bytes (pr_caps r)) = Inr m"
    using parseCaps_bits [of "pr_caps r" 0] Cons.prems by auto
  ultimately show ?case by simp
qed simp

lemma list_ex_list_all2:
  "list_all2 R xs ys \<Longrightarrow> (\<And>x y. x \<in> set xs \<Longrightarrow> R x y \<Longrightarrow> P y \<longleftrightarrow> Q x) \<Longrightarrow>
   list_ex P ys \<longleftrightarrow> (\<exists>x\<in>set xs. Q x)"
  by (induction rule: list_all2_induct) auto

text \<open>
  C4: the access tester gives the server's answer. For a rule list in ASCII whose capabilities are
  the known ones (what \<open>parsePolicy\<close> yields), the server accepts the rules and its \<open>Allowed\<close> on
  the stored policy is the tester's verdict, for every path and capability.
\<close>

theorem tester_agrees_with_server:
  assumes "\<forall>r\<in>set rules. ascii (pr_path r) \<and> set (pr_caps r) \<subseteq> set CAPS"
    and "ascii path" and "cap \<in> set CAPS" and "cap_of_name (to_bytes cap) = Some b"
  shows "\<exists>out. putPolicy_rules (wire_rules rules) = Inr out \<and>
    (Allowed [\<lparr>gp_name = name, gp_rules = out, gp_inheritable = inh\<rparr>] (to_bytes path) b \<longleftrightarrow>
     ev_allow (evaluate rules path cap))"
proof -
  obtain out where out: "putPolicy_rules (wire_rules rules) = Inr out"
      "list_all2 (\<lambda>r g. gr_path g = to_bytes (pr_path r) \<and>
        parseCaps 0 (map to_bytes (pr_caps r)) = Inr (gr_caps g)) rules out"
    using putPolicy_rules_ok assms(1) by blast
  have mask: "list_ex (\<lambda>g. go_globMatch (gr_path g) (to_bytes path) \<and> gr_caps g AND e \<noteq> 0) out \<longleftrightarrow>
      grants rules path d"
    if "d \<in> set CAPS" "cap_of_name (to_bytes d) = Some e" for d e
  proof (rule list_ex_list_all2 [OF out(2)])
    fix r g
    assume r: "r \<in> set rules" and g: "gr_path g = to_bytes (pr_path r) \<and>
      parseCaps 0 (map to_bytes (pr_caps r)) = Inr (gr_caps g)"
    then have "go_globMatch (gr_path g) (to_bytes path) \<longleftrightarrow> globMatch (pr_path r) path"
      using go_globMatch_ascii assms(1,2) by simp
    moreover have "gr_caps g AND e \<noteq> 0 \<longleftrightarrow> d \<in> set (pr_caps r)"
      using mask_test that r g assms(1) by blast
    ultimately show "go_globMatch (gr_path g) (to_bytes path) \<and> gr_caps g AND e \<noteq> 0 \<longleftrightarrow>
      globMatch (pr_path r) path \<and> d \<in> set (pr_caps r)" by blast
  qed
  have deny: "js ''deny'' \<in> set CAPS" "cap_of_name (to_bytes (js ''deny'')) = Some CapDeny"
    by (simp_all add: CAPS_def cap_of_name_def to_bytes_def b8_def)
  have "Allowed [\<lparr>gp_name = name, gp_rules = out, gp_inheritable = inh\<rparr>] (to_bytes path) b \<longleftrightarrow>
      \<not> denies rules path \<and> grants rules path cap"
    using mask [OF deny] mask [OF assms(3,4)] by (simp add: Allowed_def del: js_simps)
  also have "\<dots> \<longleftrightarrow> ev_allow (evaluate rules path cap)"
    using evaluate_allow by blast
  finally show ?thesis using out(1) by blast
qed

abbreviation example_rules :: "parsed_rule list" where
  "example_rules \<equiv>
     [\<lparr>pr_caps = [js ''read'', js ''list''], pr_line = 0, pr_n = 1, pr_path = js ''secret/**''\<rparr>,
      \<lparr>pr_caps = [js ''deny''], pr_line = 1, pr_n = 2, pr_path = js ''secret/prod/*''\<rparr>]"

theorem tester_agrees_with_server_witness:
  "list_all (\<lambda>r. ascii (pr_path r) \<and> set (pr_caps r) \<subseteq> set CAPS) example_rules \<and>
   ascii (js ''secret/prod/db'') \<and> js ''read'' \<in> set CAPS \<and>
   cap_of_name (to_bytes (js ''read'')) = Some CapRead \<and>
   (\<exists>out. putPolicy_rules (wire_rules example_rules) = Inr out \<and>
     (Allowed [\<lparr>gp_name = b8 ''dev'', gp_rules = out, gp_inheritable = False\<rparr>]
        (to_bytes (js ''secret/prod/db'')) CapRead \<longleftrightarrow>
      ev_allow (evaluate example_rules (js ''secret/prod/db'') (js ''read''))))"
proof -
  have h: "\<forall>r\<in>set example_rules. ascii (pr_path r) \<and> set (pr_caps r) \<subseteq> set CAPS"
      "ascii (js ''secret/prod/db'')" "js ''read'' \<in> set CAPS"
      "cap_of_name (to_bytes (js ''read'')) = Some CapRead"
    by (simp_all add: ascii_def CAPS_def cap_of_name_def to_bytes_def b8_def)
  from tester_agrees_with_server [OF h] h show ?thesis unfolding list_all_iff by blast
qed

section \<open>Sample paths\<close>

text \<open>
  The patterns whose stars the matcher reads as the console describes them: a double star only at
  the end or in front of a slash, a single star only at the end or in front of a literal other
  than a slash.
\<close>

fun star_shaped :: "jsstring \<Rightarrow> bool" where
  "star_shaped [] = True"
| "star_shaped [c] = True"
| "star_shaped (c # d # s) =
     (if c \<noteq> star_char then star_shaped (d # s)
      else if d = star_char then s = [] \<or> (hd s = slash \<and> star_shaped (tl s))
      else d \<noteq> slash \<and> star_shaped (d # s))"

lemma replace_star1_append: "replace_star1 (a @ b) = replace_star1 a @ replace_star1 b"
  by (simp add: replace_star1_def)

lemma samplePath_simps:
  "samplePath [] = []"
  "samplePath [star_char] = js ''example''"
  "c \<noteq> star_char \<Longrightarrow> samplePath (c # s) = c # samplePath s"
  "samplePath (star_char # star_char # s) = js ''example/item'' @ samplePath s"
  "d \<noteq> star_char \<Longrightarrow> samplePath (star_char # d # s) = js ''example'' @ samplePath (d # s)"
  by (simp_all add: samplePath_def replace_star1_append)
    (cases s; simp add: replace_star1_def)+

text \<open>
  The sample path the editor offers for a rule is matched by the rule, for every pattern whose
  stars are shaped as documented.
\<close>

theorem samplePath_matches:
  assumes "star_shaped pat"
  shows "globMatch pat (samplePath pat)"
  unfolding ui.m_iff_glob using assms
proof (induction pat rule: star_shaped.induct)
  case 1
  show ?case by (simp add: samplePath_simps glob_Nil)
next
  case (2 c)
  have "glob star_char slash [star_char] (js ''example'' @ [])"
    by (rule glob.glob_star) (auto intro: glob.intros)
  then have "glob star_char slash [c] (samplePath [c])" if "c = star_char"
    unfolding that samplePath_simps(2) by simp
  moreover have "glob star_char slash [c] (samplePath [c])" if "c \<noteq> star_char"
    unfolding samplePath_simps(3) [OF that] samplePath_simps(1) using that by (intro glob.intros)
  ultimately show ?case by blast
next
  case (3 c d s)
  consider "c \<noteq> star_char" | "c = star_char" "d = star_char" "s = []"
    | s' where "c = star_char" "d = star_char" "s = slash # s'" "star_shaped s'"
    | "c = star_char" "d \<noteq> star_char" "d \<noteq> slash"
    using "3.prems" by (cases s) (auto split: if_splits)
  then show ?case
  proof cases
    case 1
    with 3 show ?thesis by (auto simp: samplePath_simps(3) intro: glob.glob_lit)
  next
    case 2
    then show ?thesis by (simp add: glob.glob_any)
  next
    case (3 s')
    then have "glob star_char slash s' (samplePath s')" using "3.IH" by simp
    then have "glob star_char slash (star_char # star_char # slash # s')
        (js ''example/item'' @ slash # samplePath s')" by (rule glob.glob_dirs)
    moreover have "samplePath (star_char # star_char # slash # s') = js ''example/item'' @ slash # samplePath s'"
      unfolding samplePath_simps(4) by (subst samplePath_simps(3)) simp_all
    ultimately show ?thesis using 3 by simp
  next
    case 4
    then have "glob star_char slash (d # s) (samplePath (d # s))" using "3.IH" "3.prems" by simp
    moreover have "hd (samplePath (d # s)) \<noteq> slash"
      using 4 samplePath_simps(3) [OF 4(2)] by simp
    ultimately have "glob star_char slash (star_char # d # s) (js ''example'' @ samplePath (d # s))"
      using 4 by (intro glob.glob_star) auto
    then show ?thesis unfolding 4(1) samplePath_simps(5) [OF 4(2)] .
  qed
qed

theorem samplePath_matches_witness:
  "star_shaped (js ''secret/**/db-*'') \<and>
   samplePath (js ''secret/**/db-*'') = js ''secret/example/item/db-example'' \<and>
   globMatch (js ''secret/**/db-*'') (samplePath (js ''secret/**/db-*''))"
proof -
  have "star_shaped (js ''secret/**/db-*'')" by simp
  moreover have "samplePath (js ''secret/**/db-*'') = js ''secret/example/item/db-example''"
    by (simp add: samplePath_def replace_star1_def)
  ultimately show ?thesis using samplePath_matches [of "js ''secret/**/db-*''"] by blast
qed

end
