(* ===== verification/Policy_Text.thy ===== *)
theory Policy_Text
  imports Policy_Glob
begin

text \<open>
  The policy language of the console, \<open>web/src/pages/dashboard/policies/lib/policy-text.ts\<close>: the
  printer of a rule list and the line parser with its diagnostics. Each regular expression of the
  file is transcribed into \<open>re\<close>.
\<close>

section \<open>Data\<close>

datatype sev = SevE | SevW

text \<open>
  The value of a diagnostic parameter. \<open>Inherited\<close> stands for a property found on
  \<open>Object.prototype\<close> (see \<open>obj_get\<close>).
\<close>

datatype param = PStr jsstring | PNum nat | Inherited

record diag =
  d_key :: string
  d_fixKey :: "string option"
  d_fixRaw :: "jsstring option"
  d_line :: nat
  d_n :: nat
  d_params :: "(string \<times> param) list"
  d_sev :: sev

record parsed =
  p_diags :: "diag list"
  p_errors :: nat
  p_lines :: "jsstring list"
  p_rules :: "parsed_rule list"
  p_warns :: nat

record policy_rule =
  rule_path :: "jsstring option"
  rule_capabilities :: "jsstring list option"

definition NAME_RE :: re where
  "NAME_RE = anchored (Seq (Cls (\<lambda>c. in_range CHR ''a'' CHR ''z'' c \<or> is_digit c))
     (Upto 62 (Cls (\<lambda>c. in_range CHR ''a'' CHR ''z'' c \<or> is_digit c \<or> one_of ''_-'' c))))"

definition RESERVED_NAMES :: "jsstring list" where
  "RESERVED_NAMES = [js ''root'']"

datatype template_id = Tadmin | Tro | Trw

fun template_caps :: "template_id \<Rightarrow> jsstring list" where
  "template_caps Tadmin = [js ''read'', js ''write'', js ''delete'', js ''list'']"
| "template_caps Tro = [js ''read'', js ''list'']"
| "template_caps Trw = [js ''read'', js ''write'', js ''list'']"

fun template_path :: "template_id \<Rightarrow> jsstring" where
  "template_path Tadmin = js ''secret/**''"
| "template_path Tro = js ''secret/*''"
| "template_path Trw = js ''secret/*''"

section \<open>Printing\<close>

definition quoted :: "jsstring \<Rightarrow> jsstring" where
  "quoted c = js ''\"'' @ c @ js ''\"''"

definition ordered_caps :: "jsstring list \<Rightarrow> jsstring list" where
  "ordered_caps caps = filter (\<lambda>c. c \<in> set caps) CAPS"

definition fmtRule :: "jsstring \<Rightarrow> jsstring list \<Rightarrow> jsstring" where
  "fmtRule path caps =
     js ''path \"'' @ path @ js ''\" { capabilities = ['' @
     join (js '', '') (map quoted (ordered_caps caps)) @ js ''] }''"

definition rulesToText :: "policy_rule list option \<Rightarrow> jsstring" where
  "rulesToText rules =
     join (js ''\<newline>'') (map (\<lambda>r. fmtRule (nullish (rule_path r) []) (nullish (rule_capabilities r) []))
       (nullish rules []))"

section \<open>Parsing\<close>

definition not_quote :: "jschar \<Rightarrow> bool" where
  "not_quote c \<longleftrightarrow> c \<noteq> jc CHR ''\"''"

definition not_rbracket :: "jschar \<Rightarrow> bool" where
  "not_rbracket c \<longleftrightarrow> c \<noteq> jc CHR '']''"

definition LINE_RE :: re where
  "LINE_RE = anchored (seqs
     [Lit (js ''path''), Plus (Cls is_ws), Lit (js ''\"''), Grp 1 (Star (Cls not_quote)), Lit (js ''\"''),
      Star (Cls is_ws), Lit (js ''{''), Star (Cls is_ws), Lit (js ''capabilities''), Star (Cls is_ws),
      Lit (js ''=''), Star (Cls is_ws), Lit (js ''[''), Grp 2 (Star (Cls not_rbracket)), Lit (js '']''),
      Star (Cls is_ws), Lit (js ''}'')])"

text \<open>\<open>/^"([^"]*)"$/\<close>\<close>

definition CAP_RE :: re where
  "CAP_RE = anchored (seqs [Lit (js ''\"''), Grp 1 (Star (Cls not_quote)), Lit (js ''\"'')])"

definition group :: "mresult \<Rightarrow> nat \<Rightarrow> jsstring" where
  "group m n = (case m of (_, _, _, c) \<Rightarrow> nullish (c n) [])"

text \<open>
  \<open>seen\<close> is a plain object literal, so reading a key also finds the properties every object
  inherits from \<open>Object.prototype\<close>.
\<close>

datatype obj_val = Undefined | Own nat | Proto

definition obj_get :: "(jsstring \<times> nat) list \<Rightarrow> jsstring \<Rightarrow> obj_val" where
  "obj_get seen k = (case map_of seen k of
      Some n \<Rightarrow> Own n
    | None \<Rightarrow> if k \<in> set proto_keys then Proto else Undefined)"

fun param_of :: "obj_val \<Rightarrow> param" where
  "param_of (Own n) = PNum n"
| "param_of Proto = Inherited"
| "param_of Undefined = Inherited"

record pstate =
  ps_rules :: "parsed_rule list"
  ps_diags :: "diag list"
  ps_seen :: "(jsstring \<times> nat) list"

definition E :: "nat \<Rightarrow> string \<Rightarrow> string option \<Rightarrow> jsstring option \<Rightarrow> (string \<times> param) list \<Rightarrow> diag" where
  "E i key fixKey fixRaw params =
     \<lparr>d_key = key, d_fixKey = fixKey, d_fixRaw = fixRaw, d_line = i, d_n = i + 1,
      d_params = params, d_sev = SevE\<rparr>"

definition W :: "nat \<Rightarrow> string \<Rightarrow> string option \<Rightarrow> (string \<times> param) list \<Rightarrow> diag" where
  "W i key fixKey params =
     \<lparr>d_key = key, d_fixKey = fixKey, d_fixRaw = None, d_line = i, d_n = i + 1,
      d_params = params, d_sev = SevW\<rparr>"

text \<open>The line does not match \<open>LINE_RE\<close>: one error names the first thing missing.\<close>

definition syntax_diag :: "nat \<Rightarrow> jsstring \<Rightarrow> diag" where
  "syntax_diag i t =
     (if \<not> test (Seq Bol (Seq (Lit (js ''path'')) WordB)) t then E i ''expectRule'' (Some ''startPath'') None []
      else if \<not> test (Lit (js ''{'')) t \<or> \<not> test (Lit (js ''}'')) t
        then E i ''noBrace'' (Some ''wrapBraces'') None []
      else if \<not> test (Lit (js ''capabilities'')) t
        then E i ''noCaps'' None (Some (js ''capabilities = [\"read\"]'')) []
      else if \<not> test (Lit (js ''['')) t \<or> \<not> test (Lit (js '']'')) t
        then E i ''capsArray'' None (Some (js ''[ \"read\", \"list\" ]'')) []
      else E i ''syntax'' None None [])"

definition unknown_cap_key :: "jsstring \<Rightarrow> string" where
  "unknown_cap_key v =
     (if v = js ''update'' \<or> v = js ''create'' then ''unknownCapWrite''
      else if v = js ''sudo'' then ''unknownCapSudo'' else ''unknownCap'')"

text \<open>One entry of the capability list: the capabilities so far, \<open>bad\<close>, the diagnostics.\<close>

definition cap_item ::
  "nat \<Rightarrow> jsstring \<Rightarrow> jsstring list \<times> bool \<times> diag list \<Rightarrow> jsstring list \<times> bool \<times> diag list" where
  "cap_item i it st = (case st of (caps, bad, ds) \<Rightarrow>
     (let c = trim it in
      (case exec CAP_RE c of
         None \<Rightarrow> (caps, True, ds @ [E i ''capQuoted'' None (Some (js ''\"read\"'')) [(''cap'', PStr c)]])
       | Some mm \<Rightarrow>
           (let v = group mm 1 in
            if v \<notin> set CAPS then (caps, True, ds @ [E i (unknown_cap_key v) None None [(''cap'', PStr v)]])
            else (if v \<in> set caps then caps else caps @ [v], bad, ds)))))"

definition cap_items :: "nat \<Rightarrow> jsstring \<Rightarrow> jsstring list \<times> bool \<times> diag list" where
  "cap_items i raw =
     (let rawCaps = trim raw; items = if rawCaps \<noteq> [] then split_on (jc CHR '','') rawCaps else []
      in fold (cap_item i) items ([], False, []))"

definition path_diags :: "nat \<Rightarrow> jsstring \<Rightarrow> diag list" where
  "path_diags i path =
     (if path = [] then [E i ''emptyPath'' None (Some (js ''secret/'' @ ellipsis)) []]
      else if hd path = jc CHR ''/'' then [E i ''leadingSlash'' (Some ''dropSlash'') None []] else []) @
     (if test (Lit (js ''***'')) path then [E i ''tripleStar'' (Some ''useStars'') None []] else []) @
     (if includes_str path (js ''+'') then [W i ''plusLiteral'' (Some ''useStars'') []] else [])"

definition rule_warnings :: "nat \<Rightarrow> jsstring \<Rightarrow> jsstring list \<Rightarrow> (jsstring \<times> nat) list \<Rightarrow> diag list" where
  "rule_warnings i path caps seen =
     (if caps = [] then [W i ''emptyCaps'' None []]
      else if js ''deny'' \<in> set caps \<and> length caps > 1 then [W i ''denyOverrides'' (Some ''onlyDeny'') []]
      else []) @
     (if path \<noteq> [] \<and> obj_get seen path \<noteq> Undefined
      then [W i ''dupPath'' (Some ''merge'') [(''line'', param_of (obj_get seen path))]] else []) @
     (if path \<noteq> [] \<and> \<not> test (Seq (Lit (js ''**'')) Eol) path \<and> test (Seq (Lit (js ''*'')) Eol) path \<and>
         length (split_on (jc CHR ''/'') path) > 3
      then [W i ''singleStar'' (Some ''useDoubleStar'') []] else [])"

definition add_diags :: "diag list \<Rightarrow> pstate \<Rightarrow> pstate" where
  "add_diags ds s = s\<lparr>ps_diags := ps_diags s @ ds\<rparr>"

definition parse_rule :: "nat \<Rightarrow> jsstring \<Rightarrow> jsstring \<Rightarrow> pstate \<Rightarrow> pstate" where
  "parse_rule i path raw s =
     (case cap_items i raw of (caps, bad, ds) \<Rightarrow>
        (let s1 = add_diags (ds @ path_diags i path) s in
         if bad then s1
         else \<lparr>ps_rules = ps_rules s1 @ [\<lparr>pr_caps = caps, pr_line = i, pr_n = i + 1, pr_path = path\<rparr>],
               ps_diags = ps_diags s1 @ rule_warnings i path caps (ps_seen s1),
               ps_seen = (if path \<noteq> [] \<and> obj_get (ps_seen s1) path = Undefined
                          then (path, i + 1) # ps_seen s1 else ps_seen s1)\<rparr>))"

definition parse_line :: "nat \<Rightarrow> jsstring \<Rightarrow> pstate \<Rightarrow> pstate" where
  "parse_line i raw s =
     (let t = trim raw in
      if t = [] \<or> hd t = jc CHR ''#'' then s
      else if odd (length (filter (\<lambda>c. c = jc CHR ''\"'') t))
        then add_diags [E i ''unclosedQuote'' (Some ''closeQuote'') None []] s
      else (case exec LINE_RE t of
          None \<Rightarrow> add_diags [syntax_diag i t] s
        | Some m \<Rightarrow> parse_rule i (group m 1) (group m 2) s))"

fun parse_lines :: "nat \<Rightarrow> jsstring list \<Rightarrow> pstate \<Rightarrow> pstate" where
  "parse_lines i [] s = s"
| "parse_lines i (l # ls) s = parse_lines (Suc i) ls (parse_line i l s)"

definition is_error :: "diag \<Rightarrow> bool" where
  "is_error d \<longleftrightarrow> d_sev d = SevE"

definition parsePolicy :: "jsstring \<Rightarrow> parsed" where
  "parsePolicy text =
     (let lines = split_on (jc CHR ''\<newline>'') text;
          s = parse_lines 0 lines \<lparr>ps_rules = [], ps_diags = [], ps_seen = []\<rparr>;
          errors = length (filter is_error (ps_diags s))
      in \<lparr>p_diags = ps_diags s, p_errors = errors, p_lines = lines, p_rules = ps_rules s,
          p_warns = length (ps_diags s) - errors\<rparr>)"

section \<open>What the line pattern matches\<close>

definition rule_line ::
  "jsstring \<Rightarrow> jsstring \<Rightarrow> jsstring \<Rightarrow> jsstring \<Rightarrow> jsstring \<Rightarrow> jsstring \<Rightarrow> jsstring \<Rightarrow> jsstring \<Rightarrow> jsstring" where
  "rule_line w1 p w2 w3 w4 w5 q w6 =
     js ''path'' @ w1 @ js ''\"'' @ p @ js ''\"'' @ w2 @ js ''{'' @ w3 @ js ''capabilities'' @ w4 @
     js ''='' @ w5 @ js ''['' @ q @ js '']'' @ w6 @ js ''}''"

definition all_ws :: "jsstring \<Rightarrow> bool" where
  "all_ws w \<longleftrightarrow> (\<forall>c\<in>set w. is_ws c)"

lemma halts_Lit_js: "\<not> P (jc d) \<Longrightarrow> halts P (run (Lit (js (d # s)) # rs) k)"
  by (simp add: halts_Lit del: Lit.simps)

lemma hd_js_append: "hd (js (d # s) @ a) = jc d" "hd (js (d # s)) = jc d"
  by simp_all

lemma run_Lit_last: "run (Lit s # rs) k (b, s, c) = run rs k (rev s @ b, [], c)"
  using run_Lit [of s rs k b "[]" c] by simp

lemma exec_LINE_RE:
  assumes "w1 \<noteq> []" "all_ws w1" "all_ws w2" "all_ws w3" "all_ws w4" "all_ws w5" "all_ws w6"
    and "jc CHR ''\"'' \<notin> set p" "jc CHR '']'' \<notin> set q"
  shows "exec LINE_RE (rule_line w1 p w2 w3 w4 w5 q w6) =
    Some ([], rule_line w1 p w2 w3 w4 w5 q w6, [], [1 \<mapsto> p, 2 \<mapsto> q])"
proof -
  have q: "\<forall>c\<in>set p. not_quote c" "\<forall>c\<in>set q. not_rbracket c"
    using assms(8,9) by (auto simp: not_quote_def not_rbracket_def)
  have ws: "\<not> is_ws (jc CHR ''\"'')" "\<not> is_ws (jc CHR ''{'')" "\<not> is_ws (jc CHR ''c'')"
      "\<not> is_ws (jc CHR ''='')" "\<not> is_ws (jc CHR ''['')" "\<not> is_ws (jc CHR ''}'')"
      "\<not> not_quote (jc CHR ''\"'')" "\<not> not_rbracket (jc CHR '']'')"
    by (simp_all add: is_ws_def not_quote_def not_rbracket_def)
  note steps = run_Lit run_Lit_last run_Star run_Plus run_Grp_Star halts_Lit_js hd_js_append
  show ?thesis
    unfolding LINE_RE_def exec_anchored_seqs rule_line_def
    using assms(1-7) q ws unfolding all_ws_def
    by (simp add: steps del: js_simps Lit.simps)
qed

lemma exec_CAP_RE:
  assumes "jc CHR ''\"'' \<notin> set v"
  shows "exec CAP_RE (quoted v) = Some ([], quoted v, [], [1 \<mapsto> v])"
proof -
  have q: "\<forall>c\<in>set v. not_quote c" using assms by (auto simp: not_quote_def)
  have "\<not> not_quote (jc CHR ''\"'')" by (simp add: not_quote_def)
  with q show ?thesis
    unfolding CAP_RE_def exec_anchored_seqs quoted_def
    by (simp add: run_Lit run_Lit_last run_Grp_Star halts_Lit_js hd_js_append del: js_simps Lit.simps)
qed

lemma exec_LINE_RE_sound:
  assumes "exec LINE_RE t = Some m"
  obtains w1 p w2 w3 w4 w5 q w6 where
    "t = rule_line w1 p w2 w3 w4 w5 q w6" "w1 \<noteq> []" "all_ws w1" "all_ws w2" "all_ws w3" "all_ws w4"
    "all_ws w5" "all_ws w6" "jc CHR ''\"'' \<notin> set p" "jc CHR '']'' \<notin> set q"
    "group m 1 = p" "group m 2 = q"
proof -
  have "test LINE_RE t" using assms by (simp add: test_def)
  then have "t \<in> lang (seqs
     [Lit (js ''path''), Plus (Cls is_ws), Lit (js ''\"''), Grp 1 (Star (Cls not_quote)), Lit (js ''\"''),
      Star (Cls is_ws), Lit (js ''{''), Star (Cls is_ws), Lit (js ''capabilities''), Star (Cls is_ws),
      Lit (js ''=''), Star (Cls is_ws), Lit (js ''[''), Grp 2 (Star (Cls not_rbracket)), Lit (js '']''),
      Star (Cls is_ws), Lit (js ''}'')])"
    unfolding LINE_RE_def by (subst (asm) test_anchored) simp_all
  then obtain w1 p w2 w3 w4 w5 q w6 where t: "t = rule_line w1 p w2 w3 w4 w5 q w6"
    and w: "w1 \<noteq> []" "all_ws w1" "all_ws w2" "all_ws w3" "all_ws w4" "all_ws w5" "all_ws w6"
    and pq: "\<forall>c\<in>set p. not_quote c" "\<forall>c\<in>set q. not_rbracket c"
    unfolding rule_line_def all_ws_def seqs.simps lang.simps(3,6) lang_Lit lang_Plus_Cls lang_Star_Cls
    by blast
  have pq': "jc CHR ''\"'' \<notin> set p" "jc CHR '']'' \<notin> set q"
    using pq by (auto simp: not_quote_def not_rbracket_def)
  have "group m 1 = p" "group m 2 = q"
    using exec_LINE_RE [OF w pq'] assms by (auto simp: t group_def)
  with t w pq' show ?thesis by (rule that)
qed

lemma exec_CAP_RE_sound:
  assumes "exec CAP_RE c = Some m"
  obtains v where "c = quoted v" "jc CHR ''\"'' \<notin> set v" "group m 1 = v"
proof -
  have "test CAP_RE c" using assms by (simp add: test_def)
  then have "c \<in> lang (seqs [Lit (js ''\"''), Grp 1 (Star (Cls not_quote)), Lit (js ''\"'')])"
    unfolding CAP_RE_def by (subst (asm) test_anchored) simp_all
  then obtain v where c: "c = quoted v" and v: "\<forall>c\<in>set v. not_quote c"
    unfolding quoted_def seqs.simps lang.simps(3,6) lang_Lit lang_Star_Cls by blast
  have v': "jc CHR ''\"'' \<notin> set v" using v by (auto simp: not_quote_def)
  have "group m 1 = v" using exec_CAP_RE [OF v'] assms by (auto simp: c group_def)
  with c v' show ?thesis by (rule that)
qed

section \<open>Reading back printed rules\<close>

lemma quoted_simps: "quoted v \<noteq> []" "hd (quoted v) = jc CHR ''\"''" "last (quoted v) = jc CHR ''\"''"
  by (simp_all add: quoted_def)

lemma trim_quoted [simp]: "trim (quoted v) = quoted v"
  by (rule trim_id) (simp_all add: quoted_simps is_ws_def)

lemma trim_space_quoted [simp]: "trim (js '' '' @ quoted v) = quoted v"
proof -
  have "trim_start (js '' '' @ quoted v) = trim_start (quoted v)"
    by (simp add: trim_start_def is_ws_def)
  then show ?thesis using trim_quoted [of v] by (simp add: trim_def)
qed

definition cap_name :: "jsstring \<Rightarrow> bool" where
  "cap_name c \<longleftrightarrow> jc CHR ''\"'' \<notin> set c \<and> jc CHR '','' \<notin> set c"

lemma split_printed_caps:
  assumes "\<forall>c\<in>set (c # cs). cap_name c"
  shows "split_on (jc CHR '','') (join (js '', '') (map quoted (c # cs))) =
    quoted c # map (\<lambda>c. js '' '' @ quoted c) cs"
  using assms
proof (induction cs arbitrary: c)
  case Nil
  then show ?case by (simp add: quoted_def cap_name_def split_on_sep_free)
next
  case (Cons d cs)
  have nc: "jc CHR '','' \<notin> set (quoted c)" using Cons.prems by (simp add: quoted_def cap_name_def)
  have "join (js '', '') (map quoted (c # d # cs)) =
      quoted c @ jc CHR '','' # jc CHR '' '' # join (js '', '') (map quoted (d # cs))" by simp
  moreover have "split_on (jc CHR '','') (jc CHR '' '' # join (js '', '') (map quoted (d # cs))) =
      (js '' '' @ quoted d) # map (\<lambda>c. js '' '' @ quoted c) cs"
    using Cons.IH [of d] Cons.prems by simp
  ultimately show ?case using split_on_append_sep [OF nc] by simp
qed

lemma cap_item_printed:
  assumes "c \<in> set CAPS" "cap_name c" "trim it = quoted c" "c \<notin> set caps"
  shows "cap_item i it (caps, bad, ds) = (caps @ [c], bad, ds)"
  using assms by (simp add: cap_item_def exec_CAP_RE cap_name_def group_def)

lemma fold_printed_caps:
  assumes "set cs \<subseteq> set CAPS" "\<forall>c\<in>set cs. cap_name c" "distinct (caps @ cs)"
  shows "fold (cap_item i) (map (\<lambda>c. js '' '' @ quoted c) cs) (caps, bad, ds) = (caps @ cs, bad, ds)"
  using assms
proof (induction cs arbitrary: caps)
  case (Cons c cs)
  then have "cap_item i (js '' '' @ quoted c) (caps, bad, ds) = (caps @ [c], bad, ds)"
    by (intro cap_item_printed) (auto simp del: js_simps)
  with Cons show ?case by (simp del: js_simps)
qed simp

lemma CAPS_cap_name: "c \<in> set CAPS \<Longrightarrow> cap_name c"
  by (erule CAPS_cases) (simp_all add: cap_name_def)

lemma distinct_CAPS: "distinct CAPS"
  by (simp add: CAPS_def)

lemma cap_items_printed:
  "cap_items i (join (js '', '') (map quoted (ordered_caps caps))) = (ordered_caps caps, False, [])"
proof -
  have sub: "set (ordered_caps caps) \<subseteq> set CAPS" and dist: "distinct (ordered_caps caps)"
    using distinct_CAPS by (auto simp: ordered_caps_def)
  then have names: "\<forall>c\<in>set (ordered_caps caps). cap_name c" using CAPS_cap_name by blast
  show ?thesis
  proof (cases "ordered_caps caps")
    case Nil
    then show ?thesis by (simp add: cap_items_def)
  next
    case (Cons c cs)
    let ?t = "join (js '', '') (map quoted (c # cs))"
    have ne: "?t \<noteq> []" and hd: "hd ?t = jc CHR ''\"''"
      by (cases cs; simp add: quoted_def)+
    have "last (join (js '', '') (map quoted (d # ds))) = jc CHR ''\"''" for d ds
    proof (induction ds arbitrary: d)
      case (Cons e ds)
      then show ?case by (cases ds) (simp_all add: quoted_def)
    qed (simp add: quoted_def)
    then have "trim ?t = ?t" using ne hd by (intro trim_id) (simp_all add: is_ws_def del: join.simps)
    moreover have "split_on (jc CHR '','') ?t = quoted c # map (\<lambda>c. js '' '' @ quoted c) cs"
      using names Cons by (intro split_printed_caps) simp
    moreover have "cap_item i (quoted c) ([], False, []) = ([c], False, [])"
      using cap_item_printed [of c "quoted c" "[]"] sub names Cons by auto
    moreover have "fold (cap_item i) (map (\<lambda>c. js '' '' @ quoted c) cs) ([c], False, []) = (c # cs, False, [])"
      using fold_printed_caps [of cs "[c]"] sub names dist Cons by auto
    ultimately show ?thesis using ne by (simp add: cap_items_def Cons Let_def del: join.simps js_simps)
  qed
qed

section \<open>What one line contributes\<close>

definition significant :: "jsstring \<Rightarrow> bool" where
  "significant raw \<longleftrightarrow> trim raw \<noteq> [] \<and> hd (trim raw) \<noteq> jc CHR ''#''"

definition good_path :: "jsstring \<Rightarrow> bool" where
  "good_path p \<longleftrightarrow> p \<noteq> [] \<and> hd p \<noteq> jc CHR ''/'' \<and> \<not> includes_str p (js ''***'')"

definition rule_shape :: "nat \<Rightarrow> jsstring \<Rightarrow> parsed_rule \<Rightarrow> bool" where
  "rule_shape i raw r \<longleftrightarrow> pr_line r = i \<and> pr_n r = i + 1 \<and> set (pr_caps r) \<subseteq> set CAPS \<and>
     distinct (pr_caps r) \<and> jc CHR ''\"'' \<notin> set (pr_path r) \<and> set (pr_path r) \<subseteq> set raw"

text \<open>The rules \<open>rs\<close> and diagnostics \<open>ds\<close> that line \<open>i\<close> adds.\<close>

definition line_result :: "nat \<Rightarrow> jsstring \<Rightarrow> parsed_rule list \<Rightarrow> diag list \<Rightarrow> bool" where
  "line_result i raw rs ds \<longleftrightarrow>
     (\<forall>d\<in>set ds. d_line d = i \<and> d_n d = i + 1) \<and>
     (if significant raw
      then (rs = [] \<and> (\<exists>d\<in>set ds. is_error d)) \<or>
           (\<exists>r. rs = [r] \<and> rule_shape i raw r \<and> (good_path (pr_path r) \<or> (\<exists>d\<in>set ds. is_error d)))
      else rs = [] \<and> ds = [])"

lemma E_W_simps [simp]:
  "is_error (E i k f r p)" "\<not> is_error (W i k f p)" "d_line (E i k f r p) = i" "d_line (W i k f p) = i"
  "d_n (E i k f r p) = Suc i" "d_n (W i k f p) = Suc i"
  by (simp_all add: is_error_def E_def W_def)

lemma syntax_diag_error [simp]:
  "is_error (syntax_diag i t)" "d_line (syntax_diag i t) = i" "d_n (syntax_diag i t) = Suc i"
  by (simp_all add: syntax_diag_def)

definition items_ok :: "nat \<Rightarrow> jsstring list \<times> bool \<times> diag list \<Rightarrow> bool" where
  "items_ok i st \<longleftrightarrow> (case st of (caps, bad, ds) \<Rightarrow> set caps \<subseteq> set CAPS \<and> distinct caps \<and>
     (\<forall>d\<in>set ds. is_error d \<and> d_line d = i \<and> d_n d = Suc i) \<and> (bad \<longleftrightarrow> ds \<noteq> []))"

lemma cap_item_ok: "items_ok i st \<Longrightarrow> items_ok i (cap_item i it st)"
  by (cases st) (auto simp: items_ok_def cap_item_def Let_def split: option.splits)

lemma cap_items_ok: "items_ok i (cap_items i raw)"
proof -
  have "items_ok i st \<Longrightarrow> items_ok i (fold (cap_item i) its st)" for its st
    by (induction its arbitrary: st) (simp_all add: cap_item_ok)
  then show ?thesis by (simp add: cap_items_def Let_def items_ok_def)
qed

lemma path_diags_line: "d \<in> set (path_diags i p) \<Longrightarrow> d_line d = i \<and> d_n d = Suc i"
  by (auto simp: path_diags_def split: if_splits)

lemma path_diags_good: "good_path p \<longleftrightarrow> \<not> (\<exists>d\<in>set (path_diags i p). is_error d)"
  by (auto simp: path_diags_def good_path_def test_Lit simp del: Lit.simps js_simps)

lemma rule_warnings_line:
  "d \<in> set (rule_warnings i p caps seen) \<Longrightarrow> d_line d = i \<and> d_n d = Suc i \<and> \<not> is_error d"
  unfolding rule_warnings_def by (auto simp del: Lit.simps js_simps split: if_splits)

lemma parse_rule_result:
  assumes "significant raw" "jc CHR ''\"'' \<notin> set p" "set p \<subseteq> set raw"
  obtains rs ds where "ps_rules (parse_rule i p q s) = ps_rules s @ rs"
    "ps_diags (parse_rule i p q s) = ps_diags s @ ds" "line_result i raw rs ds"
proof -
  obtain caps bad ds where c: "cap_items i q = (caps, bad, ds)" by (cases "cap_items i q")
  have ok: "items_ok i (caps, bad, ds)" using cap_items_ok [of i q] c by simp
  show ?thesis
  proof (cases bad)
    case True
    have "line_result i raw [] (ds @ path_diags i p)"
      using ok assms True path_diags_line by (fastforce simp: line_result_def items_ok_def neq_Nil_conv)
    then show ?thesis
      using that [of "[]" "ds @ path_diags i p"] c True by (simp add: parse_rule_def add_diags_def Let_def)
  next
    case False
    let ?r = "\<lparr>pr_caps = caps, pr_line = i, pr_n = i + 1, pr_path = p\<rparr>"
    let ?ds = "ds @ path_diags i p @ rule_warnings i p caps (ps_seen s)"
    have "rule_shape i raw ?r" using ok assms by (simp add: rule_shape_def items_ok_def)
    moreover have "good_path p \<or> (\<exists>d\<in>set ?ds. is_error d)" using path_diags_good [of p i] by auto
    moreover have "\<forall>d\<in>set ?ds. d_line d = i \<and> d_n d = i + 1"
      using ok path_diags_line [of _ i p] rule_warnings_line [of _ i p caps "ps_seen s"]
      by (auto simp: items_ok_def)
    ultimately have "line_result i raw [?r] ?ds" using assms(1) by (simp add: line_result_def)
    then show ?thesis
      using that [of "[?r]" ?ds] c False by (simp add: parse_rule_def add_diags_def Let_def)
  qed
qed

lemma parse_line_result:
  obtains rs ds where "ps_rules (parse_line i raw s) = ps_rules s @ rs"
    "ps_diags (parse_line i raw s) = ps_diags s @ ds" "line_result i raw rs ds"
proof -
  let ?t = "trim raw"
  consider (skip) "\<not> significant raw"
    | (odd) "significant raw" "odd (length (filter (\<lambda>c. c = jc CHR ''\"'') ?t))"
    | (none) "significant raw" "even (length (filter (\<lambda>c. c = jc CHR ''\"'') ?t))" "exec LINE_RE ?t = None"
    | (rule) m where "significant raw" "even (length (filter (\<lambda>c. c = jc CHR ''\"'') ?t))"
        "exec LINE_RE ?t = Some m"
    by (cases "exec LINE_RE ?t") blast+
  then show ?thesis
  proof cases
    case skip
    then have "parse_line i raw s = s" by (auto simp: parse_line_def significant_def Let_def)
    with skip show ?thesis using that [of "[]" "[]"] by (simp add: line_result_def)
  next
    case odd
    let ?d = "E i ''unclosedQuote'' (Some ''closeQuote'') None []"
    have "parse_line i raw s = add_diags [?d] s"
      using odd by (simp add: parse_line_def significant_def Let_def)
    with odd show ?thesis using that [of "[]" "[?d]"] by (simp add: line_result_def add_diags_def)
  next
    case none
    have "parse_line i raw s = add_diags [syntax_diag i ?t] s"
      using none by (simp add: parse_line_def significant_def Let_def)
    with none show ?thesis
      using that [of "[]" "[syntax_diag i ?t]"] by (simp add: line_result_def add_diags_def)
  next
    case rule
    have eq: "parse_line i raw s = parse_rule i (group m 1) (group m 2) s"
      using rule by (simp add: parse_line_def significant_def Let_def)
    have "jc CHR ''\"'' \<notin> set (group m 1)" "set (group m 1) \<subseteq> set ?t"
      using rule(3) by (rule exec_LINE_RE_sound; auto simp: rule_line_def simp del: js_simps)+
    then show ?thesis
      using parse_rule_result [OF rule(1), of "group m 1" i "group m 2" s] set_trim_subset [of raw]
      by (metis eq subset_trans that)
  qed
qed

section \<open>What the whole text contributes\<close>

lemma parse_lines_result:
  "\<exists>rss dss. length rss = length ls \<and> length dss = length ls \<and>
     ps_rules (parse_lines i ls s) = ps_rules s @ concat rss \<and>
     ps_diags (parse_lines i ls s) = ps_diags s @ concat dss \<and>
     (\<forall>k<length ls. line_result (i + k) (ls ! k) (rss ! k) (dss ! k))"
proof (induction ls arbitrary: i s)
  case Nil
  show ?case by simp
next
  case (Cons l ls)
  obtain rs ds where l: "ps_rules (parse_line i l s) = ps_rules s @ rs"
    "ps_diags (parse_line i l s) = ps_diags s @ ds" "line_result i l rs ds"
    by (rule parse_line_result)
  obtain rss dss where ls: "length rss = length ls" "length dss = length ls"
     "ps_rules (parse_lines (Suc i) ls (parse_line i l s)) = ps_rules (parse_line i l s) @ concat rss"
     "ps_diags (parse_lines (Suc i) ls (parse_line i l s)) = ps_diags (parse_line i l s) @ concat dss"
     "\<forall>k<length ls. line_result (Suc i + k) (ls ! k) (rss ! k) (dss ! k)"
    using Cons.IH [of "Suc i" "parse_line i l s"] by blast
  have "line_result (i + k) ((l # ls) ! k) ((rs # rss) ! k) ((ds # dss) ! k)"
    if "k < length (l # ls)" for k
    using that l(3) ls(5) by (cases k) auto
  with l ls show ?case by (intro exI [of _ "rs # rss"] exI [of _ "ds # dss"]) simp
qed

lemma parsePolicy_result:
  obtains rss dss where
    "length rss = length (p_lines (parsePolicy src))" "length dss = length (p_lines (parsePolicy src))"
    "p_rules (parsePolicy src) = concat rss" "p_diags (parsePolicy src) = concat dss"
    "\<forall>k<length (p_lines (parsePolicy src)).
      line_result k (p_lines (parsePolicy src) ! k) (rss ! k) (dss ! k)"
proof -
  obtain rss dss where r: "length rss = length (split_on (jc CHR ''\<newline>'') src)"
    "length dss = length (split_on (jc CHR ''\<newline>'') src)"
    "ps_rules (parse_lines 0 (split_on (jc CHR ''\<newline>'') src) \<lparr>ps_rules = [], ps_diags = [], ps_seen = []\<rparr>)
      = concat rss"
    "ps_diags (parse_lines 0 (split_on (jc CHR ''\<newline>'') src) \<lparr>ps_rules = [], ps_diags = [], ps_seen = []\<rparr>)
      = concat dss"
    "\<forall>k<length (split_on (jc CHR ''\<newline>'') src).
      line_result k (split_on (jc CHR ''\<newline>'') src ! k) (rss ! k) (dss ! k)"
    using parse_lines_result [of "split_on (jc CHR ''\<newline>'') src" 0
        "\<lparr>ps_rules = [], ps_diags = [], ps_seen = []\<rparr>"] by (simp del: js_simps) blast
  show ?thesis by (rule that [of rss dss]) (use r in \<open>simp_all add: parsePolicy_def Let_def\<close>)
qed

lemma p_errors_eq: "p_errors (parsePolicy src) = length (filter is_error (p_diags (parsePolicy src)))"
  by (simp add: parsePolicy_def Let_def)

lemma concat_lines:
  assumes "length rss = n" "\<And>k. k < n \<Longrightarrow> map f (rss ! k) = (if P k then [k] else [])"
  shows "map f (concat rss) = filter P [0..<n]"
  using assms
proof (induction rss arbitrary: n rule: rev_induct)
  case (snoc rs rss)
  obtain m where m: "n = Suc m" "length rss = m" using snoc.prems(1) by simp
  have "map f (concat rss) = filter P [0..<m]"
  proof (rule snoc.IH [OF m(2)])
    fix k assume "k < m"
    then show "map f (rss ! k) = (if P k then [k] else [])"
      using snoc.prems(2) [of k] m by (simp add: nth_append)
  qed
  moreover have "map f rs = (if P m then [m] else [])" using snoc.prems(2) [of m] m by (simp add: nth_append)
  ultimately show ?case using m by simp
qed simp

text \<open>
  C5: no line of the policy text is dropped silently. The lines that are neither blank nor comments
  are exactly the lines that gave a rule or an error.
\<close>

theorem parsePolicy_accounts_for_every_line:
  "{i. i < length (p_lines (parsePolicy src)) \<and> significant (p_lines (parsePolicy src) ! i)} =
     pr_line ` set (p_rules (parsePolicy src)) \<union>
     d_line ` {d. d \<in> set (p_diags (parsePolicy src)) \<and> is_error d}"
proof -
  let ?ls = "p_lines (parsePolicy src)"
  obtain rss dss where r: "length rss = length ?ls" "length dss = length ?ls"
    "p_rules (parsePolicy src) = concat rss" "p_diags (parsePolicy src) = concat dss"
    and "\<forall>k<length ?ls. line_result k (?ls ! k) (rss ! k) (dss ! k)"
    by (rule parsePolicy_result [of src])
  then have line: "line_result k (?ls ! k) (rss ! k) (dss ! k)" if "k < length ?ls" for k
    using that by blast
  show ?thesis (is "?S = ?R \<union> ?D")
  proof (intro equalityI subsetI)
    fix i assume "i \<in> ?S"
    then have i: "i < length ?ls" "significant (?ls ! i)" by auto
    then consider d where "d \<in> set (dss ! i)" "is_error d" | x where "rss ! i = [x]" "pr_line x = i"
      using line [OF i(1)] by (auto simp: line_result_def rule_shape_def)
    then show "i \<in> ?R \<union> ?D"
    proof cases
      case 1
      then have "d_line d = i" using line [OF i(1)] by (auto simp: line_result_def)
      with 1 i r show ?thesis by (auto simp: in_concat_nth simp del: set_concat)
    next
      case 2
      then have "x \<in> set (concat rss)" using i r by (auto simp: in_concat_nth simp del: set_concat)
      with 2 r show ?thesis by force
    qed
  next
    fix i assume "i \<in> ?R \<union> ?D"
    then consider x k where "k < length ?ls" "x \<in> set (rss ! k)" "i = pr_line x"
      | d k where "k < length ?ls" "d \<in> set (dss ! k)" "i = d_line d"
      using r by (auto simp: in_concat_nth simp del: set_concat)
    then show "i \<in> ?S"
      using line by cases (fastforce simp: line_result_def rule_shape_def split: if_splits)+
  qed
qed

text \<open>
  C6: a text the console lets the user save (no error) is read completely: there is one rule for
  every line that is neither blank nor a comment, in order; every rule has known capabilities
  without repetition, a path that is not empty, has no leading slash and no triple star, and carries the
  line number the editor shows.
\<close>

theorem parsePolicy_error_free:
  assumes "p_errors (parsePolicy src) = 0"
  shows "map pr_line (p_rules (parsePolicy src)) =
      filter (\<lambda>i. significant (p_lines (parsePolicy src) ! i)) [0..<length (p_lines (parsePolicy src))] \<and>
    list_all (\<lambda>r. set (pr_caps r) \<subseteq> set CAPS \<and> distinct (pr_caps r) \<and> good_path (pr_path r) \<and>
      pr_n r = pr_line r + 1) (p_rules (parsePolicy src))"
proof -
  let ?ls = "p_lines (parsePolicy src)"
  obtain rss dss where r: "length rss = length ?ls" "length dss = length ?ls"
    "p_rules (parsePolicy src) = concat rss" "p_diags (parsePolicy src) = concat dss"
    and "\<forall>k<length ?ls. line_result k (?ls ! k) (rss ! k) (dss ! k)"
    by (rule parsePolicy_result [of src])
  then have line: "line_result k (?ls ! k) (rss ! k) (dss ! k)" if "k < length ?ls" for k
    using that by blast
  have clean: "\<not> is_error d" if "k < length ?ls" "d \<in> set (dss ! k)" for k d
    using assms that r by (auto simp: p_errors_eq filter_empty_conv)
  have one: "if significant (?ls ! k) then \<exists>x. rss ! k = [x] \<and> rule_shape k (?ls ! k) x \<and> good_path (pr_path x)
      else rss ! k = []" if "k < length ?ls" for k
    using line [OF that] clean [OF that] by (auto simp: line_result_def split: if_splits)
  have "map pr_line (concat rss) = filter (\<lambda>i. significant (?ls ! i)) [0..<length ?ls]"
    by (rule concat_lines [OF r(1)]) (use one in \<open>fastforce simp: rule_shape_def split: if_splits\<close>)
  moreover have "set (pr_caps x) \<subseteq> set CAPS \<and> distinct (pr_caps x) \<and> good_path (pr_path x) \<and> pr_n x = pr_line x + 1"
    if x: "x \<in> set (concat rss)" for x
  proof -
    obtain k where k: "k < length ?ls" "x \<in> set (rss ! k)"
      using x r(1) by (auto simp: in_concat_nth simp del: set_concat)
    then show ?thesis using one [OF k(1)] by (auto simp: rule_shape_def split: if_splits)
  qed
  ultimately show ?thesis using r(3) by (simp add: list_all_iff del: set_concat)
qed

section \<open>The printer and the parser\<close>

definition printed_caps :: "jsstring list \<Rightarrow> jsstring" where
  "printed_caps caps = join (js '', '') (map quoted (ordered_caps caps))"

lemma fmtRule_rule_line:
  "fmtRule p caps = rule_line (js '' '') p (js '' '') (js '' '') (js '' '') (js '' '') (printed_caps caps) (js '' '')"
  by (simp add: fmtRule_def rule_line_def printed_caps_def)

lemma set_join: "set (join sep ws) \<subseteq> set sep \<union> (\<Union>w\<in>set ws. set w)"
  by (induction sep ws rule: join.induct) auto

lemma CAPS_chars: "c \<in> set CAPS \<Longrightarrow> jc CHR '']'' \<notin> set c \<and> jc CHR ''\<newline>'' \<notin> set c"
  by (erule CAPS_cases) simp_all

lemma printed_caps_set:
  assumes "x \<in> set (printed_caps caps)"
  shows "x \<in> set (js '', \"'') \<or> (\<exists>c\<in>set CAPS. x \<in> set c)"
proof -
  have "x \<in> set (js '', '') \<union> (\<Union>c\<in>set (ordered_caps caps). set (quoted c))"
    using set_join [of "js '', ''" "map quoted (ordered_caps caps)"] assms
    by (auto simp: printed_caps_def simp del: js_simps)
  then show ?thesis by (auto simp: ordered_caps_def quoted_def split: if_splits)
qed

lemma printed_caps_chars: "jc CHR '']'' \<notin> set (printed_caps caps)" "jc CHR ''\<newline>'' \<notin> set (printed_caps caps)"
  using printed_caps_set [of "jc CHR '']''" caps] printed_caps_set [of "jc CHR ''\<newline>''" caps] CAPS_chars by auto

lemma trim_fmtRule [simp]: "trim (fmtRule p caps) = fmtRule p caps"
  by (rule trim_id) (simp_all add: fmtRule_def is_ws_def)

lemma quotes_join:
  "\<forall>c\<in>set cs. cap_name c \<Longrightarrow>
    length (filter (\<lambda>x. x = jc CHR ''\"'') (join (js '', '') (map quoted cs))) = 2 * length cs"
proof (induction cs)
  case (Cons c cs)
  have "filter (\<lambda>x. x = jc CHR ''\"'') c = []"
    using Cons.prems by (auto simp: cap_name_def filter_empty_conv)
  then show ?case using Cons by (cases cs) (simp_all add: quoted_def)
qed simp

lemma even_quotes_fmtRule:
  assumes "jc CHR ''\"'' \<notin> set p"
  shows "even (length (filter (\<lambda>x. x = jc CHR ''\"'') (fmtRule p caps)))"
proof -
  have "filter (\<lambda>x. x = jc CHR ''\"'') p = []" using assms by (auto simp: filter_empty_conv)
  moreover have "even (length (filter (\<lambda>x. x = jc CHR ''\"'') (join (js '', '') (map quoted (ordered_caps caps)))))"
    by (subst quotes_join) (auto simp: ordered_caps_def intro: CAPS_cap_name)
  ultimately show ?thesis by (simp add: fmtRule_def)
qed

lemma parse_line_fmtRule:
  assumes "jc CHR ''\"'' \<notin> set p"
  shows "parse_line i (fmtRule p caps) s =
    \<lparr>ps_rules = ps_rules s @ [\<lparr>pr_caps = ordered_caps caps, pr_line = i, pr_n = i + 1, pr_path = p\<rparr>],
     ps_diags = ps_diags s @ path_diags i p @ rule_warnings i p (ordered_caps caps) (ps_seen s),
     ps_seen = (if p \<noteq> [] \<and> obj_get (ps_seen s) p = Undefined then (p, i + 1) # ps_seen s else ps_seen s)\<rparr>"
proof -
  have ne: "fmtRule p caps \<noteq> []" "hd (fmtRule p caps) \<noteq> jc CHR ''#''" by (simp_all add: fmtRule_def)
  have w: "js '' '' \<noteq> []" "all_ws (js '' '')" by (simp_all add: all_ws_def is_ws_def)
  have "exec LINE_RE (fmtRule p caps) = Some ([], fmtRule p caps, [], [1 \<mapsto> p, 2 \<mapsto> printed_caps caps])"
    unfolding fmtRule_rule_line
    by (rule exec_LINE_RE [OF w w(2) w(2) w(2) w(2) w(2) assms printed_caps_chars(1)])
  then have "parse_line i (fmtRule p caps) s = parse_rule i p (printed_caps caps) s"
    using ne even_quotes_fmtRule [OF assms] by (simp add: parse_line_def group_def)
  then show ?thesis
    by (simp add: parse_rule_def cap_items_printed printed_caps_def add_diags_def Let_def del: js_simps)
qed

lemma parse_lines_printed:
  assumes "list_all (\<lambda>(p, caps). jc CHR ''\"'' \<notin> set p) rs"
  shows "ps_rules (parse_lines i (map (\<lambda>(p, caps). fmtRule p caps) rs) s) = ps_rules s @
    map (\<lambda>(k, p, caps). \<lparr>pr_caps = ordered_caps caps, pr_line = k, pr_n = k + 1, pr_path = p\<rparr>)
      (enumerate i rs)"
  using assms
proof (induction rs arbitrary: i s)
  case (Cons r rs)
  then show ?case by (cases r) (simp add: parse_line_fmtRule)
qed simp

text \<open>The rules a policy of the server holds, as \<open>rulesToText\<close> reads them.\<close>

definition rule_pair :: "policy_rule \<Rightarrow> jsstring \<times> jsstring list" where
  "rule_pair r = (nullish (rule_path r) [], nullish (rule_capabilities r) [])"

definition one_line :: "jsstring \<Rightarrow> bool" where
  "one_line p \<longleftrightarrow> jc CHR ''\"'' \<notin> set p \<and> jc CHR ''\<newline>'' \<notin> set p"

lemma newline_fmtRule: "jc CHR ''\<newline>'' \<notin> set p \<Longrightarrow> jc CHR ''\<newline>'' \<notin> set (fmtRule p caps)"
  using printed_caps_chars(2) [of caps] by (simp add: fmtRule_rule_line rule_line_def)

lemma rulesToText_lines:
  assumes "list_all (\<lambda>r. one_line (fst (rule_pair r))) rs" "rs \<noteq> []"
  shows "split_on (jc CHR ''\<newline>'') (rulesToText (Some rs)) = map (\<lambda>(p, caps). fmtRule p caps) (map rule_pair rs)"
proof -
  let ?ls = "map (\<lambda>(p, caps). fmtRule p caps) (map rule_pair rs)"
  have "rulesToText (Some rs) = join [jc CHR ''\<newline>''] ?ls"
    by (simp add: rulesToText_def rule_pair_def nullish_def comp_def)
  moreover have "jc CHR ''\<newline>'' \<notin> set l" if "l \<in> set ?ls" for l
    using that assms newline_fmtRule by (auto simp: list_all_iff one_line_def case_prod_beta)
  ultimately show ?thesis using split_on_join [of ?ls "jc CHR ''\<newline>''"] assms(2) by simp
qed

lemma parse_printed:
  assumes "list_all (\<lambda>r. one_line (fst (rule_pair r))) rs"
  shows "p_rules (parsePolicy (rulesToText (Some rs))) =
    map (\<lambda>(k, p, caps). \<lparr>pr_caps = ordered_caps caps, pr_line = k, pr_n = k + 1, pr_path = p\<rparr>)
      (enumerate 0 (map rule_pair rs))"
proof (cases "rs = []")
  case True
  then show ?thesis
    by (simp add: rulesToText_def nullish_def parsePolicy_def parse_line_def)
next
  case False
  have "list_all (\<lambda>(p, caps). jc CHR ''\"'' \<notin> set p) (map rule_pair rs)"
    using assms by (auto simp: list_all_iff one_line_def split: prod.splits)
  then show ?thesis
    using parse_lines_printed [of "map rule_pair rs" 0] rulesToText_lines [OF assms False]
    by (simp add: parsePolicy_def Let_def del: js_simps)
qed

lemma parse_one_printed:
  assumes "one_line p"
  shows "p_lines (parsePolicy (fmtRule p caps)) = [fmtRule p caps]"
    and "p_diags (parsePolicy (fmtRule p caps)) = path_diags 0 p @ rule_warnings 0 p (ordered_caps caps) []"
    and "p_rules (parsePolicy (fmtRule p caps)) =
      [\<lparr>pr_caps = ordered_caps caps, pr_line = 0, pr_n = 1, pr_path = p\<rparr>]"
proof -
  have q: "jc CHR ''\"'' \<notin> set p" and "jc CHR ''\<newline>'' \<notin> set p" using assms by (simp_all add: one_line_def)
  then have "split_on (jc CHR ''\<newline>'') (fmtRule p caps) = [fmtRule p caps]"
    by (intro split_on_sep_free newline_fmtRule)
  then show "p_lines (parsePolicy (fmtRule p caps)) = [fmtRule p caps]"
    "p_diags (parsePolicy (fmtRule p caps)) = path_diags 0 p @ rule_warnings 0 p (ordered_caps caps) []"
    "p_rules (parsePolicy (fmtRule p caps)) =
      [\<lparr>pr_caps = ordered_caps caps, pr_line = 0, pr_n = 1, pr_path = p\<rparr>]"
    by (simp_all add: parsePolicy_def Let_def parse_line_fmtRule [OF q] del: js_simps)
qed

theorem parsePolicy_error_free_witness:
  "let src = fmtRule (js ''secret/*'') [js ''list'', js ''read''] in
     p_errors (parsePolicy src) = 0 \<and>
     list_all (\<lambda>r. set (pr_caps r) \<subseteq> set CAPS \<and> distinct (pr_caps r) \<and> good_path (pr_path r) \<and>
       pr_n r = pr_line r + 1) (p_rules (parsePolicy src)) \<and>
     map pr_path (p_rules (parsePolicy src)) = [js ''secret/*'']"
proof -
  let ?src = "fmtRule (js ''secret/*'') [js ''list'', js ''read'']"
  have one: "one_line (js ''secret/*'')" by (simp add: one_line_def)
  have ok: "good_path (js ''secret/*'')" by (simp add: good_path_def)
  then have "\<not> (\<exists>d\<in>set (p_diags (parsePolicy ?src)). is_error d)"
    using path_diags_good [of "js ''secret/*''" 0] rule_warnings_line
    by (auto simp: parse_one_printed [OF one] simp del: js_simps)
  then have "p_errors (parsePolicy ?src) = 0" by (simp add: p_errors_eq filter_empty_conv)
  with parsePolicy_error_free [OF this] show ?thesis
    by (simp add: Let_def parse_one_printed [OF one] del: js_simps)
qed



text \<open>The rules the page sends to the server (\<open>save\<close> in \<open>policies.page.tsx\<close>).\<close>

definition saved_rules :: "parsed_rule list \<Rightarrow> policy_rule list" where
  "saved_rules rs = map (\<lambda>r. \<lparr>rule_path = Some (pr_path r), rule_capabilities = Some (pr_caps r)\<rparr>) rs"

lemma parsed_rule_shape:
  assumes "r \<in> set (p_rules (parsePolicy src))"
  shows "one_line (pr_path r) \<and> set (pr_caps r) \<subseteq> set CAPS"
proof -
  let ?ls = "p_lines (parsePolicy src)"
  obtain rss dss where r: "length rss = length ?ls" "length dss = length ?ls"
    "p_rules (parsePolicy src) = concat rss" "p_diags (parsePolicy src) = concat dss"
    and line: "\<forall>k<length ?ls. line_result k (?ls ! k) (rss ! k) (dss ! k)"
    by (rule parsePolicy_result [of src])
  obtain k where k: "k < length ?ls" "r \<in> set (rss ! k)"
    using assms r by (auto simp: in_concat_nth simp del: set_concat)
  then have shape: "rule_shape k (?ls ! k) r"
    using line by (auto simp: line_result_def split: if_splits)
  have "?ls ! k \<in> set (split_on (jc CHR ''\<newline>'') src)"
    using k(1) by (simp add: parsePolicy_def Let_def)
  then have "jc CHR ''\<newline>'' \<notin> set (?ls ! k)" by (rule split_on_no_sep)
  with shape show ?thesis by (auto simp: rule_shape_def one_line_def simp del: js_simps)
qed

lemma set_ordered_caps: "set caps \<subseteq> set CAPS \<Longrightarrow> set (ordered_caps caps) = set caps"
  by (auto simp: ordered_caps_def)

lemma evaluate_cong:
  assumes "map pr_path rs = map pr_path rs'" "map (set \<circ> pr_caps) rs = map (set \<circ> pr_caps) rs'"
  shows "ev_allow (evaluate rs path cap) = ev_allow (evaluate rs' path cap)"
proof -
  have len: "length rs = length rs'" using assms(1) map_eq_imp_length_eq by blast
  have nth: "pr_path (rs ! i) = pr_path (rs' ! i)" "set (pr_caps (rs ! i)) = set (pr_caps (rs' ! i))"
    if "i < length rs'" for i
    using that len arg_cong [OF assms(1), of "\<lambda>xs. xs ! i"] arg_cong [OF assms(2), of "\<lambda>xs. xs ! i"] by simp_all
  have "(\<exists>r\<in>set rs. globMatch (pr_path r) path \<and> c \<in> set (pr_caps r)) \<longleftrightarrow>
      (\<exists>r\<in>set rs'. globMatch (pr_path r) path \<and> c \<in> set (pr_caps r))" for c
    unfolding bex_nth using nth len by auto
  then show ?thesis by (simp only: evaluate_allow)
qed

text \<open>
  C8: saving and reopening a policy never changes what it permits. Whatever text is in the editor,
  the rules parsed from it, sent to the server and printed again in the editor, parse to rules with the
  same paths, the same capability sets and the same decision for every path and capability.
\<close>

theorem save_reopen_same_decisions:
  "let rs = p_rules (parsePolicy src); rs' = p_rules (parsePolicy (rulesToText (Some (saved_rules rs)))) in
     map pr_path rs' = map pr_path rs \<and> map (set \<circ> pr_caps) rs' = map (set \<circ> pr_caps) rs \<and>
     (\<forall>path cap. ev_allow (evaluate rs' path cap) = ev_allow (evaluate rs path cap))"
proof -
  let ?rs = "p_rules (parsePolicy src)"
  let ?rs' = "p_rules (parsePolicy (rulesToText (Some (saved_rules ?rs))))"
  have pairs: "map rule_pair (saved_rules ?rs) = map (\<lambda>r. (pr_path r, pr_caps r)) ?rs"
    by (simp add: saved_rules_def rule_pair_def nullish_def)
  have "list_all (\<lambda>r. one_line (fst (rule_pair r))) (saved_rules ?rs)"
    using parsed_rule_shape by (auto simp: list_all_iff saved_rules_def rule_pair_def nullish_def)
  then have rs': "?rs' = map (\<lambda>(k, p, caps). \<lparr>pr_caps = ordered_caps caps, pr_line = k, pr_n = k + 1, pr_path = p\<rparr>)
      (enumerate 0 (map (\<lambda>r. (pr_path r, pr_caps r)) ?rs))"
    using parse_printed pairs by simp
  have caps: "set (ordered_caps (pr_caps (?rs ! i))) = set (pr_caps (?rs ! i))" if "i < length ?rs" for i
    using parsed_rule_shape [of "?rs ! i" src] that by (simp add: set_ordered_caps)
  have 1: "map pr_path ?rs' = map pr_path ?rs" unfolding rs'
    by (rule nth_equalityI) (simp_all add: nth_enumerate_eq)
  have 2: "map (set \<circ> pr_caps) ?rs' = map (set \<circ> pr_caps) ?rs" unfolding rs'
    by (rule nth_equalityI) (simp_all add: nth_enumerate_eq caps)
  show ?thesis using 1 2 evaluate_cong [OF 1 2] by (simp add: Let_def)
qed

text \<open>
  The duplicate warning on a first occurrence. \<open>seen\<close> is a plain object, so a single rule for the
  path \<open>constructor\<close> is reported as a duplicate although the policy has no other rule.
\<close>

theorem dupPath_on_inherited_name:
  "length (p_rules (parsePolicy (fmtRule (js ''constructor'') [js ''read'']))) = 1 \<and>
   (\<exists>d\<in>set (p_diags (parsePolicy (fmtRule (js ''constructor'') [js ''read'']))). d_key d = ''dupPath'')"
proof -
  have one: "one_line (js ''constructor'')" by (simp add: one_line_def)
  have "js ''constructor'' \<in> set proto_keys" by (simp add: proto_keys_def)
  then have "obj_get [] (js ''constructor'') = Proto" by (simp add: obj_get_def)
  moreover have "d_key (W 0 ''dupPath'' f p) = ''dupPath''" for f p by (simp add: W_def)
  moreover have "js ''constructor'' \<noteq> []" by simp
  ultimately show ?thesis
    by (simp add: parse_one_printed [OF one] rule_warnings_def del: js_simps Lit.simps)
qed

end
