(* ===== verification/Js_Data.thy ===== *)
theory Js_Data
  imports Tuck_Prelude "HOL-Library.Multiset"
begin

text \<open>
  Arrays that are sorted and objects used as dictionaries, as ECMAScript defines them.

  \<open>sort_by cmp xs\<close> is \<open>Array.prototype.sort\<close> with a consistent comparator: the stable sort, which is
  the only result the standard allows. An object is its list of own properties in creation order;
  \<open>entries\<close> lists them in property order, where keys that are array indices come first in ascending
  order.
\<close>

section \<open>Sorting\<close>

fun ins_by :: "('a \<Rightarrow> 'a \<Rightarrow> int) \<Rightarrow> 'a \<Rightarrow> 'a list \<Rightarrow> 'a list" where
  "ins_by cmp x [] = [x]"
| "ins_by cmp x (y # ys) = (if cmp x y \<le> 0 then x # y # ys else y # ins_by cmp x ys)"

definition sort_by :: "('a \<Rightarrow> 'a \<Rightarrow> int) \<Rightarrow> 'a list \<Rightarrow> 'a list" where
  "sort_by cmp xs = foldr (ins_by cmp) xs []"

lemma mset_ins_by [simp]: "mset (ins_by cmp x ys) = add_mset x (mset ys)"
  by (induction ys) auto

lemma mset_sort_by [simp]: "mset (sort_by cmp xs) = mset xs"
  by (induction xs) (simp_all add: sort_by_def)

lemma set_sort_by [simp]: "set (sort_by cmp xs) = set xs"
  by (metis mset_sort_by set_mset_mset)

lemma length_sort_by [simp]: "length (sort_by cmp xs) = length xs"
  by (metis mset_sort_by size_mset)

lemma sort_by_Nil [simp]: "sort_by cmp [] = []"
  by (simp add: sort_by_def)

text \<open>A consistent comparator: what \<open>Array.prototype.sort\<close> asks of its argument.\<close>

locale comparator =
  fixes cmp :: "'a \<Rightarrow> 'a \<Rightarrow> int"
  assumes cmp_total: "cmp x y \<le> 0 \<or> cmp y x \<le> 0"
    and cmp_trans: "cmp x y \<le> 0 \<Longrightarrow> cmp y z \<le> 0 \<Longrightarrow> cmp x z \<le> 0"
begin

lemma set_ins_by: "set (ins_by cmp x ys) = insert x (set ys)"
  by (metis mset_ins_by set_mset_add_mset_insert set_mset_mset)

lemma sorted_ins_by:
  "sorted_wrt (\<lambda>x y. cmp x y \<le> 0) ys \<Longrightarrow> sorted_wrt (\<lambda>x y. cmp x y \<le> 0) (ins_by cmp x ys)"
proof (induction ys)
  case (Cons y ys)
  show ?case
  proof (cases "cmp x y \<le> 0")
    case True
    with Cons.prems show ?thesis using cmp_trans by auto
  next
    case False
    then have "cmp y x \<le> 0" using cmp_total by blast
    with Cons False show ?thesis by (auto simp: set_ins_by)
  qed
qed simp

lemma sorted_sort_by: "sorted_wrt (\<lambda>x y. cmp x y \<le> 0) (sort_by cmp xs)"
  by (induction xs) (simp_all add: sort_by_def sorted_ins_by)

lemma filter_ins_by:
  "(\<And>y. y \<in> set ys \<Longrightarrow> P x \<Longrightarrow> P y \<Longrightarrow> cmp x y \<le> 0) \<Longrightarrow> filter P (ins_by cmp x ys) = filter P (x # ys)"
  by (induction ys) auto

text \<open>Stability: elements the comparator does not tell apart keep their order.\<close>

lemma sort_by_stable:
  assumes "\<And>x y. P x \<Longrightarrow> P y \<Longrightarrow> cmp x y \<le> 0"
  shows "filter P (sort_by cmp xs) = filter P xs"
  using assms by (induction xs) (simp_all add: sort_by_def filter_ins_by)

end

text \<open>Ascending by a number: \<open>(a, b) => f(a) - f(b)\<close>.\<close>

definition by_num :: "('a \<Rightarrow> int) \<Rightarrow> 'a \<Rightarrow> 'a \<Rightarrow> int" where
  "by_num f a b = f a - f b"

interpretation by_num: comparator "by_num f"
  by unfold_locales (auto simp: by_num_def)

lemma sorted_by_num: "sorted (map f (sort_by (by_num f) xs))"
  using by_num.sorted_sort_by [of f xs] by (simp add: sorted_map by_num_def)

section \<open>Objects as dictionaries\<close>

type_synonym 'v jsobj = "(jsstring \<times> 'v) list"

fun obj_put :: "jsstring \<Rightarrow> 'v \<Rightarrow> 'v jsobj \<Rightarrow> 'v jsobj" where
  "obj_put k v [] = [(k, v)]"
| "obj_put k v ((k', v') # o') = (if k = k' then (k, v) # o' else (k', v') # obj_put k v o')"

text \<open>\<open>o[k] = v\<close> for a primitive \<open>v\<close>: the inherited setter of \<open>__proto__\<close> ignores it.\<close>

definition obj_assign :: "jsstring \<Rightarrow> 'v \<Rightarrow> 'v jsobj \<Rightarrow> 'v jsobj" where
  "obj_assign k v o' = (if k = js ''__proto__'' then o' else obj_put k v o')"

definition is_index :: "jsstring \<Rightarrow> bool" where
  "is_index k \<longleftrightarrow> k \<noteq> [] \<and> list_all is_digit k \<and> dec (undec k) = k \<and> undec k < 2 ^ 32 - 1"

definition entries :: "'v jsobj \<Rightarrow> (jsstring \<times> 'v) list" where
  "entries o' = sort_by (by_num (\<lambda>e. int (undec (fst e)))) (filter (\<lambda>e. is_index (fst e)) o') @
     filter (\<lambda>e. \<not> is_index (fst e)) o'"

lemma map_of_obj_put [simp]: "map_of (obj_put k v o') = (map_of o')(k \<mapsto> v)"
  by (induction o') auto

lemma keys_obj_put: "fst ` set (obj_put k v o') = insert k (fst ` set o')"
  by (simp flip: dom_map_of_conv_image_fst)

lemma distinct_obj_put: "distinct (map fst o') \<Longrightarrow> distinct (map fst (obj_put k v o'))"
proof (induction o')
  case (Cons e o')
  obtain k' v' where e: "e = (k', v')" by (cases e)
  have "set (map fst (obj_put k v o')) = insert k (set (map fst o'))" using keys_obj_put [of k v o'] by simp
  with Cons e show ?case by auto
qed simp

lemma obj_put_new: "k \<notin> fst ` set o' \<Longrightarrow> obj_put k v o' = o' @ [(k, v)]"
  by (induction o') auto

lemma fold_obj_put_new:
  "distinct (map fst es) \<Longrightarrow> fst ` set o' \<inter> fst ` set es = {} \<Longrightarrow>
    fold (\<lambda>(k, v). obj_put k v) es o' = o' @ es"
proof (induction es arbitrary: o')
  case (Cons e es)
  obtain k v where e: "e = (k, v)" by (cases e)
  have "obj_put k v o' = o' @ [(k, v)]" using Cons.prems e by (intro obj_put_new) auto
  moreover have "fold (\<lambda>(k, v). obj_put k v) es (o' @ [(k, v)]) = (o' @ [(k, v)]) @ es"
    using Cons.prems e by (intro Cons.IH) auto
  ultimately show ?case using e by simp
qed simp

lemma mset_entries: "mset (entries o') = mset o'"
  by (simp add: entries_def)

lemma set_entries [simp]: "set (entries o') = set o'"
  using mset_entries [of o'] by (metis set_mset_mset)

lemma length_entries [simp]: "length (entries o') = length o'"
  using mset_entries [of o'] by (metis size_mset)

lemma entries_Nil_iff [simp]: "entries o' = [] \<longleftrightarrow> o' = []"
  by (metis length_0_conv length_entries)

lemma distinct_entries: "distinct (map fst o') \<Longrightarrow> distinct (map fst (entries o'))"
  using mset_entries [of o'] by (metis mset_eq_imp_distinct_iff mset_map)

lemma ins_by_map: "ins_by c (g x) (map g ys) = map g (ins_by (\<lambda>x y. c (g x) (g y)) x ys)"
  by (induction ys) auto

lemma sort_by_map: "sort_by c (map g xs) = map g (sort_by (\<lambda>x y. c (g x) (g y)) xs)"
  by (induction xs) (simp_all add: sort_by_def ins_by_map)

lemma entries_map: "entries (map (\<lambda>(k, v). (k, f v)) o') = map (\<lambda>(k, v). (k, f v)) (entries o')"
  by (simp add: entries_def filter_map sort_by_map comp_def case_prod_beta by_num_def [abs_def])

lemma sort_by_id: "sorted_wrt (\<lambda>x y. cmp x y \<le> 0) xs \<Longrightarrow> sort_by cmp xs = xs"
proof (induction xs)
  case (Cons x xs)
  then show ?case by (cases xs) (auto simp: sort_by_def)
qed simp

lemma entries_idem [simp]: "entries (entries o') = entries o'"
proof -
  let ?c = "by_num (\<lambda>e. int (undec (fst e)))"
  let ?s = "sort_by ?c (filter (\<lambda>e. is_index (fst e)) o')"
  have "\<forall>e\<in>set ?s. is_index (fst e)" by simp
  then have "filter (\<lambda>e. is_index (fst e)) ?s = ?s" "filter (\<lambda>e. \<not> is_index (fst e)) ?s = []"
    by (simp_all add: filter_id_conv)
  moreover have "sort_by ?c ?s = ?s" by (rule sort_by_id [OF by_num.sorted_sort_by])
  ultimately show ?thesis by (simp add: entries_def)
qed

end
