(* ===== verification/Js_Json.thy ===== *)
theory Js_Json
  imports Js_Data Js_Regex
begin

text \<open>
  \<open>JSON.parse\<close> and \<open>JSON.stringify\<close>. A number is kept as its literal (\<open>JNum\<close>): the sources only ask
  for the type of a parsed number or print it, and what \<open>JSON.stringify\<close> prints for the number a literal
  denotes is the argument \<open>nf\<close> of the printer.

  The parser recurses through fuel, one unit per nested value. \<open>json_fuel\<close> shows that the fuel
  \<open>JSON_parse\<close> gives is always enough. \<open>jstr_esc\<close> is the round trip of string literals,
  for every sequence of code units, lone surrogates included.
\<close>

datatype json =
    JNull
  | JBool bool
  | JNum jsstring
  | JStr jsstring
  | JArr "json list"
  | JObj "(jsstring \<times> json) list"

section \<open>String literals\<close>

definition hexdig :: "nat \<Rightarrow> jschar" where
  "hexdig n = (if n < 10 then 0x30 + of_nat n else 0x57 + of_nat n)"

definition hex4 :: "jschar \<Rightarrow> jsstring" where
  "hex4 c = (let n = unat c in
     [hexdig (n div 4096), hexdig (n div 256 mod 16), hexdig (n div 16 mod 16), hexdig (n mod 16)])"

definition unhexdig :: "jschar \<Rightarrow> nat option" where
  "unhexdig c = (let n = unat c in
     if 0x30 \<le> n \<and> n \<le> 0x39 then Some (n - 0x30)
     else if 0x61 \<le> n \<and> n \<le> 0x66 then Some (n - 0x57)
     else if 0x41 \<le> n \<and> n \<le> 0x46 then Some (n - 0x37) else None)"

definition unhex4 :: "jschar \<Rightarrow> jschar \<Rightarrow> jschar \<Rightarrow> jschar \<Rightarrow> jschar option" where
  "unhex4 a b c d = (case (unhexdig a, unhexdig b, unhexdig c, unhexdig d) of
     (Some w, Some x, Some y, Some z) \<Rightarrow> Some (of_nat (((w * 16 + x) * 16 + y) * 16 + z)) | _ \<Rightarrow> None)"

definition is_high :: "jschar \<Rightarrow> bool" where
  "is_high c \<longleftrightarrow> 0xD800 \<le> c \<and> c \<le> 0xDBFF"

definition is_low :: "jschar \<Rightarrow> bool" where
  "is_low c \<longleftrightarrow> 0xDC00 \<le> c \<and> c \<le> 0xDFFF"

definition backslash :: jschar where "backslash = 0x5C"

definition quote :: jschar where "quote = 0x22"

definition uesc :: "jschar \<Rightarrow> jsstring" where
  "uesc c = backslash # jc CHR ''u'' # hex4 c"

definition esc1 :: "jschar \<Rightarrow> jsstring" where
  "esc1 c =
     (if c = 0x08 then [backslash, jc CHR ''b''] else if c = 0x09 then [backslash, jc CHR ''t'']
      else if c = 0x0A then [backslash, jc CHR ''n''] else if c = 0x0C then [backslash, jc CHR ''f'']
      else if c = 0x0D then [backslash, jc CHR ''r''] else if c = quote then [backslash, quote]
      else if c = backslash then [backslash, backslash] else if c < 0x20 then uesc c else [c])"

text \<open>Paired surrogates are printed as they are, lone ones are escaped.\<close>

fun esc :: "jsstring \<Rightarrow> jsstring" where
  "esc [] = []"
| "esc [c] = (if is_high c \<or> is_low c then uesc c else esc1 c)"
| "esc (c # d # s) =
     (if is_high c \<and> is_low d then c # d # esc s
      else (if is_high c \<or> is_low c then uesc c else esc1 c) @ esc (d # s))"

definition quote_json :: "jsstring \<Rightarrow> jsstring" where
  "quote_json s = quote # esc s @ [quote]"

definition unesc1 :: "jschar \<Rightarrow> jschar option" where
  "unesc1 c =
     (if c = quote \<or> c = backslash \<or> c = jc CHR ''/'' then Some c
      else if c = jc CHR ''b'' then Some 0x08 else if c = jc CHR ''t'' then Some 0x09
      else if c = jc CHR ''n'' then Some 0x0A else if c = jc CHR ''f'' then Some 0x0C
      else if c = jc CHR ''r'' then Some 0x0D else None)"

text \<open>The characters up to the closing quote, and what follows it.\<close>

function jstr :: "jsstring \<Rightarrow> (jsstring \<times> jsstring) option" where
  "jstr s = (case s of
      [] \<Rightarrow> None
    | c # r \<Rightarrow>
        if c = quote then Some ([], r)
        else if c = backslash then
          (case r of
             [] \<Rightarrow> None
           | e # r1 \<Rightarrow>
               if e = jc CHR ''u'' then
                 (if length r1 < 4 then None
                  else (case unhex4 (r1 ! 0) (r1 ! 1) (r1 ! 2) (r1 ! 3) of
                      None \<Rightarrow> None
                    | Some x \<Rightarrow> map_option (\<lambda>(t, u). (x # t, u)) (jstr (drop 4 r1))))
               else (case unesc1 e of
                   None \<Rightarrow> None
                 | Some x \<Rightarrow> map_option (\<lambda>(t, u). (x # t, u)) (jstr r1)))
        else if c < 0x20 then None
        else map_option (\<lambda>(t, u). (c # t, u)) (jstr r))"
  by pat_completeness auto
termination
  by (relation "measure length") auto

declare jstr.simps [simp del]

section \<open>Parsing\<close>

definition is_json_ws :: "jschar \<Rightarrow> bool" where
  "is_json_ws c \<longleftrightarrow> c = 0x20 \<or> c = 0x09 \<or> c = 0x0A \<or> c = 0x0D"

definition skip :: "jsstring \<Rightarrow> jsstring" where
  "skip s = dropWhile is_json_ws s"

definition expect :: "jschar \<Rightarrow> jsstring \<Rightarrow> jsstring option" where
  "expect c s = (case s of [] \<Rightarrow> None | x # r \<Rightarrow> if x = c then Some r else None)"

definition word_lit :: "jsstring \<Rightarrow> json \<Rightarrow> jsstring \<Rightarrow> (json \<times> jsstring) option" where
  "word_lit w v s = (if starts_with s w then Some (v, drop (length w) s) else None)"

text \<open>\<open>-?(0|[1-9]\d*)(\.\d+)?([eE][+-]?\d+)?\<close> at the start of the text.\<close>

definition NUM_RE :: re where
  "NUM_RE = Seq Bol (seqs
     [Opt (Cls (one_of ''-'')),
      Alt (Lit (js ''0'')) (Seq (Cls (in_range CHR ''1'' CHR ''9'')) (Star (Cls is_digit))),
      Opt (Seq (Lit (js ''.'')) (Plus (Cls is_digit))),
      Opt (Seq (Cls (one_of ''eE'')) (Seq (Opt (Cls (one_of ''+-''))) (Plus (Cls is_digit))))])"

definition num_lit :: "jsstring \<Rightarrow> (json \<times> jsstring) option" where
  "num_lit s = (case exec NUM_RE s of None \<Rightarrow> None | Some (_, m, r, _) \<Rightarrow> if m = [] then None else Some (JNum m, r))"

text \<open>Later members with the same key replace the value and keep the place of the first one.\<close>

definition own :: "(jsstring \<times> 'v) list \<Rightarrow> 'v jsobj" where
  "own ms = fold (\<lambda>(k, v). obj_put k v) ms []"

fun jval :: "nat \<Rightarrow> jsstring \<Rightarrow> (json \<times> jsstring) option"
  and jelems :: "nat \<Rightarrow> jsstring \<Rightarrow> (json list \<times> jsstring) option"
  and jmembers :: "nat \<Rightarrow> jsstring \<Rightarrow> ((jsstring \<times> json) list \<times> jsstring) option" where
  "jval 0 s = None"
| "jval (Suc n) s =
     (case expect quote s of Some r \<Rightarrow> map_option (\<lambda>(t, u). (JStr t, u)) (jstr r) | None \<Rightarrow>
     (case expect (jc CHR ''{'') s of Some r \<Rightarrow>
        (case expect (jc CHR ''}'') (skip r) of Some u \<Rightarrow> Some (JObj [], u)
         | None \<Rightarrow> map_option (\<lambda>(ms, u). (JObj (own ms), u)) (jmembers n (skip r))) | None \<Rightarrow>
     (case expect (jc CHR ''['') s of Some r \<Rightarrow>
        (case expect (jc CHR '']'') (skip r) of Some u \<Rightarrow> Some (JArr [], u)
         | None \<Rightarrow> map_option (\<lambda>(vs, u). (JArr vs, u)) (jelems n (skip r))) | None \<Rightarrow>
     (case word_lit (js ''true'') (JBool True) s of Some x \<Rightarrow> Some x | None \<Rightarrow>
     (case word_lit (js ''false'') (JBool False) s of Some x \<Rightarrow> Some x | None \<Rightarrow>
     (case word_lit (js ''null'') JNull s of Some x \<Rightarrow> Some x | None \<Rightarrow> num_lit s))))))"
| "jelems 0 s = None"
| "jelems (Suc n) s =
     (case jval n s of None \<Rightarrow> None | Some (v, r) \<Rightarrow>
        (case expect (jc CHR '']'') (skip r) of Some u \<Rightarrow> Some ([v], u) | None \<Rightarrow>
        (case expect (jc CHR '','') (skip r) of None \<Rightarrow> None
         | Some u \<Rightarrow> map_option (\<lambda>(vs, w). (v # vs, w)) (jelems n (skip u)))))"
| "jmembers 0 s = None"
| "jmembers (Suc n) s =
     (case expect quote s of None \<Rightarrow> None | Some r \<Rightarrow>
     (case jstr r of None \<Rightarrow> None | Some (k, r1) \<Rightarrow>
     (case expect (jc CHR '':'') (skip r1) of None \<Rightarrow> None | Some r2 \<Rightarrow>
     (case jval n (skip r2) of None \<Rightarrow> None | Some (v, r3) \<Rightarrow>
        (case expect (jc CHR ''}'') (skip r3) of Some u \<Rightarrow> Some ([(k, v)], u) | None \<Rightarrow>
        (case expect (jc CHR '','') (skip r3) of None \<Rightarrow> None
         | Some u \<Rightarrow> map_option (\<lambda>(ms, w). ((k, v) # ms, w)) (jmembers n (skip u))))))))"

declare jval.simps(2) [simp del] jelems.simps(2) [simp del] jmembers.simps(2) [simp del]

definition JSON_parse :: "jsstring \<Rightarrow> json option" where
  "JSON_parse s = (case jval (2 * length s + 1) (skip s) of
     Some (v, r) \<Rightarrow> if skip r = [] then Some v else None | None \<Rightarrow> None)"

section \<open>Printing\<close>

fun stringify :: "(jsstring \<Rightarrow> jsstring) \<Rightarrow> json \<Rightarrow> jsstring" where
  "stringify nf JNull = js ''null''"
| "stringify nf (JBool b) = (if b then js ''true'' else js ''false'')"
| "stringify nf (JNum l) = nf l"
| "stringify nf (JStr s) = quote_json s"
| "stringify nf (JArr vs) = js ''['' @ join (js '','') (map (stringify nf) vs) @ js '']''"
| "stringify nf (JObj o') = js ''{'' @
     join (js '','') (map (\<lambda>(k, t). quote_json k @ js '':'' @ t)
       (entries (map (\<lambda>(k, v). (k, stringify nf v)) o'))) @ js ''}''"

section \<open>The fuel is enough\<close>

lemma expect_length: "expect c s = Some r \<Longrightarrow> length s = Suc (length r)"
  by (auto simp: expect_def split: list.splits if_splits)

lemma length_skip: "length (skip s) \<le> length s"
  by (simp add: skip_def length_dropWhile_le)

lemma jstr_length: "jstr s = Some (t, u) \<Longrightarrow> length u < length s"
proof (induction s arbitrary: t u rule: jstr.induct)
  case (1 s)
  show ?case
  proof (cases s)
    case (Cons c r)
    show ?thesis
      using "1.prems" "1.IH" [OF Cons] unfolding Cons
      by (subst (asm) jstr.simps) (fastforce split: if_splits list.splits option.splits)
  qed (use "1.prems" in \<open>simp add: jstr.simps\<close>)
qed

lemma num_lit_length: "num_lit s = Some (v, r) \<Longrightarrow> length r < length s"
proof -
  assume a: "num_lit s = Some (v, r)"
  let ?n = "seqs [Opt (Cls (one_of ''-'')),
      Alt (Lit (js ''0'')) (Seq (Cls (in_range CHR ''1'' CHR ''9'')) (Star (Cls is_digit))),
      Opt (Seq (Lit (js ''.'')) (Plus (Cls is_digit))),
      Opt (Seq (Cls (one_of ''eE'')) (Seq (Opt (Cls (one_of ''+-''))) (Plus (Cls is_digit))))]"
  have pl: "plain ?n" by simp
  obtain b' c ms where m: "matches ?n ([], s, Map.empty) = (b', r, c) # ms"
    and ne: "take (length s - length r) s \<noteq> []"
    using a unfolding num_lit_def NUM_RE_def exec_Bol
    by (auto split: list.splits if_splits option.splits simp del: matches.simps seqs.simps)
  have "(b', r, c) \<in> set (matches ?n ([], s, Map.empty))" unfolding m by (rule list.set_intros)
  from movesD1 [OF moves_lang [OF pl] this] have "length r \<le> length s" by auto
  moreover have "length r \<noteq> length s" using ne by auto
  ultimately show "length r < length s" by simp
qed

lemma word_lit_length: "word_lit w v s = Some (x, r) \<Longrightarrow> w \<noteq> [] \<Longrightarrow> length r < length s"
  by (auto simp: word_lit_def starts_with_iff split: if_splits)

lemmas json_lengths = expect_length jstr_length num_lit_length word_lit_length

lemma expect_skip_length: "expect c (skip s) = Some r \<Longrightarrow> length r < length s"
  using expect_length length_skip [of s] by fastforce

definition shorter :: "(jsstring \<Rightarrow> ('a \<times> jsstring) option) \<Rightarrow> bool" where
  "shorter p \<longleftrightarrow> (\<forall>s v r. p s = Some (v, r) \<longrightarrow> length r < length s)"

lemma shorterD: "shorter p \<Longrightarrow> p s = Some (v, r) \<Longrightarrow> length r < length s"
  by (auto simp: shorter_def)

lemma shorter_skip: "shorter p \<Longrightarrow> p (skip s) = Some (v, r) \<Longrightarrow> length r < length s"
  using length_skip [of s] by (fastforce simp: shorter_def)

lemma shorter_jval:
  assumes "shorter (jelems n)" "shorter (jmembers n)"
  shows "shorter (jval (Suc n))"
proof -
  have "length r < length s" if "jval (Suc n) s = Some (v, r)" for s v r
    using that unfolding jval.simps(2)
    by (auto split: option.splits simp del: js_simps
      dest!: json_lengths expect_skip_length shorter_skip [OF assms(1)] shorter_skip [OF assms(2)])
       (use less_trans in \<open>fastforce simp: word_lit_def starts_with_iff split: if_splits\<close>)+
  then show ?thesis by (simp add: shorter_def)
qed

lemma shorter_jelems:
  assumes "shorter (jval n)" "shorter (jelems n)"
  shows "shorter (jelems (Suc n))"
proof -
  have "length r < length s" if "jelems (Suc n) s = Some (v, r)" for s v r
    using that unfolding jelems.simps(2)
    by (auto split: option.splits
      dest!: shorterD [OF assms(1)] expect_skip_length shorter_skip [OF assms(2)])
  then show ?thesis by (simp add: shorter_def)
qed

lemma shorter_jmembers:
  assumes "shorter (jval n)" "shorter (jmembers n)"
  shows "shorter (jmembers (Suc n))"
proof -
  have "length r < length s" if "jmembers (Suc n) s = Some (v, r)" for s v r
    using that unfolding jmembers.simps(2)
    by (auto split: option.splits
      dest!: expect_length jstr_length shorter_skip [OF assms(1)] expect_skip_length shorter_skip [OF assms(2)])
  then show ?thesis by (simp add: shorter_def)
qed

lemma json_shorter: "shorter (jval n) \<and> shorter (jelems n) \<and> shorter (jmembers n)"
proof (induction n)
  case 0
  show ?case by (simp add: shorter_def)
next
  case (Suc n)
  then show ?case using shorter_jval shorter_jelems shorter_jmembers by blast
qed

lemma json_fuel:
  "2 * length s < n \<Longrightarrow> 2 * length s < m \<Longrightarrow> jval n s = jval m s"
  "2 * length s + 1 < n \<Longrightarrow> 2 * length s + 1 < m \<Longrightarrow> jelems n s = jelems m s"
  "2 * length s < n \<Longrightarrow> 2 * length s < m \<Longrightarrow> jmembers n s = jmembers m s"
proof (induction n arbitrary: m s)
  case (Suc n)
  case 1
  then obtain k where k: "m = Suc k" by (cases m) auto
  have "jmembers n (skip r) = jmembers k (skip r)" if "expect c s = Some r" for c r
    using Suc(3) [of "skip r" k] 1 k expect_length [OF that] length_skip [of r] by simp
  moreover have "jelems n (skip r) = jelems k (skip r)" if "expect c s = Some r" for c r
    using Suc(2) [of "skip r" k] 1 k expect_length [OF that] length_skip [of r] by simp
  ultimately show ?case unfolding k jval.simps(2) by (simp split: option.split)
next
  case (Suc n)
  case 2
  then obtain k where k: "m = Suc k" by (cases m) auto
  have v: "jval n s = jval k s" using Suc(1) [of s k] 2 k by simp
  have "jelems n (skip u) = jelems k (skip u)" if "jval k s = Some (x, r)" "expect c (skip r) = Some u" for x r c u
    using Suc(2) [of "skip u" k] 2 k expect_skip_length [OF that(2)] length_skip [of u]
      shorterD [of "jval k", OF _ that(1)] json_shorter [of k] by simp
  with v show ?case unfolding k jelems.simps(2) by (simp split: option.split)
next
  case (Suc n)
  case 3
  then obtain k where k: "m = Suc k" by (cases m) auto
  have v: "jval n (skip r2) = jval k (skip r2)"
    if "expect c s = Some r" "jstr r = Some (t, r1)" "expect d (skip r1) = Some r2" for c r t r1 d r2
    using Suc(1) [of "skip r2" k] 3 k expect_length [OF that(1)] jstr_length [OF that(2)]
      expect_skip_length [OF that(3)] length_skip [of r2] by simp
  have w: "jmembers n (skip u) = jmembers k (skip u)"
    if "expect c s = Some r" "jstr r = Some (t, r1)" "expect d (skip r1) = Some r2"
      "jval k (skip r2) = Some (x, r3)" "expect e (skip r3) = Some u" for c r t r1 d r2 x r3 e u
    using Suc(3) [of "skip u" k] 3 k expect_length [OF that(1)] jstr_length [OF that(2)]
      expect_skip_length [OF that(3)] expect_skip_length [OF that(5)] length_skip [of u]
      shorter_skip [of "jval k", OF _ that(4)] json_shorter [of k] by simp
  show ?case unfolding k jmembers.simps(2) by (simp split: option.split add: v w)
qed simp_all

section \<open>Round trips\<close>

lemma unhexdig_hexdig: "n < 16 \<Longrightarrow> unhexdig (hexdig n) = Some n"
proof -
  assume "n < 16"
  then consider "n < 10" | "10 \<le> n" "n < 16" by linarith
  then show ?thesis
  proof cases
    case 1
    then have "unat (0x30 + of_nat n :: jschar) = 0x30 + n"
      by (subst unat_plus_simple [THEN iffD1]) (simp_all add: word_le_nat_alt unat_word_ariths unat_of_nat)
    with 1 show ?thesis by (simp add: hexdig_def unhexdig_def Let_def)
  next
    case 2
    then have "unat (0x57 + of_nat n :: jschar) = 0x57 + n"
      by (subst unat_plus_simple [THEN iffD1]) (simp_all add: word_le_nat_alt unat_word_ariths unat_of_nat)
    with 2 show ?thesis by (simp add: hexdig_def unhexdig_def Let_def)
  qed
qed

lemma unhex4_hex4: "hex4 c = [w, x, y, z] \<Longrightarrow> unhex4 w x y z = Some c"
proof -
  assume h: "hex4 c = [w, x, y, z]"
  define n where "n = unat c"
  have lt: "n < 65536" using unsigned_less [of c, where ?'a = nat] by (simp add: n_def)
  have d: "n div 4096 < 16" using lt by simp
  have "n div 4096 = n div 256 div 16" "n div 256 = n div 16 div 16" by (simp_all add: div_mult2_eq [symmetric])
  then have e: "((n div 4096 * 16 + n div 256 mod 16) * 16 + n div 16 mod 16) * 16 + n mod 16 = n"
    by (metis div_mult_mod_eq)
  have "unhexdig w = Some (n div 4096)" "unhexdig x = Some (n div 256 mod 16)"
    "unhexdig y = Some (n div 16 mod 16)" "unhexdig z = Some (n mod 16)"
    using h d unfolding hex4_def Let_def n_def [symmetric] by (auto simp: unhexdig_hexdig)
  then have "unhex4 w x y z = Some (of_nat n)"
    by (simp only: unhex4_def prod.case option.case e)
  then show ?thesis by (simp add: n_def)
qed

lemma backslash_quote [simp]: "backslash \<noteq> quote" "quote \<noteq> backslash"
  by (simp_all add: backslash_def quote_def)

lemma jstr_uesc: "jstr (uesc c @ r) = map_option (\<lambda>(t, u). (c # t, u)) (jstr r)"
proof -
  obtain w x y z where h: "hex4 c = [w, x, y, z]" by (simp add: hex4_def Let_def)
  show ?thesis
    by (subst jstr.simps) (simp add: uesc_def h unhex4_hex4 [OF h])
qed

lemma jstr_plain:
  "c \<noteq> quote \<Longrightarrow> c \<noteq> backslash \<Longrightarrow> \<not> c < 0x20 \<Longrightarrow> jstr (c # r) = map_option (\<lambda>(t, u). (c # t, u)) (jstr r)"
  by (subst jstr.simps) simp

lemma jstr_unesc:
  "unesc1 e = Some x \<Longrightarrow> jstr (backslash # e # r) = map_option (\<lambda>(t, u). (x # t, u)) (jstr r)"
  by (subst jstr.simps) (auto simp: backslash_def quote_def unesc1_def split: if_splits)

lemma jstr_esc1: "jstr (esc1 c @ r) = map_option (\<lambda>(t, u). (c # t, u)) (jstr r)"
  unfolding esc1_def
  by (auto simp: jstr_uesc jstr_plain intro!: jstr_unesc) (simp_all add: unesc1_def backslash_def quote_def)

lemma surrogate_plain: "is_high c \<or> is_low c \<Longrightarrow> c \<noteq> quote \<and> c \<noteq> backslash \<and> \<not> c < 0x20"
  by (auto simp: is_high_def is_low_def quote_def backslash_def word_le_nat_alt word_less_nat_alt)

theorem jstr_esc: "jstr (esc s @ quote # r) = Some (s, r)"
proof (induction s rule: esc.induct)
  case 1
  show ?case by (subst jstr.simps) simp
next
  case (2 c)
  have "jstr (quote # r) = Some ([], r)" by (subst jstr.simps) simp
  then show ?case by (simp add: jstr_uesc jstr_esc1)
next
  case (3 c d s)
  then show ?case using surrogate_plain [of c] surrogate_plain [of d]
    by (simp add: jstr_uesc jstr_esc1 jstr_plain)
qed

text \<open>The parser without its fuel.\<close>

definition jv :: "jsstring \<Rightarrow> (json \<times> jsstring) option" where
  "jv s = jval (2 * length s + 1) s"

definition je :: "jsstring \<Rightarrow> (json list \<times> jsstring) option" where
  "je s = jelems (2 * length s + 2) s"

definition jm :: "jsstring \<Rightarrow> ((jsstring \<times> json) list \<times> jsstring) option" where
  "jm s = jmembers (2 * length s + 1) s"

lemma jm_fuel: "2 * length s < n \<Longrightarrow> jmembers n s = jm s"
  unfolding jm_def by (rule json_fuel) simp_all

lemma je_fuel: "2 * length s + 1 < n \<Longrightarrow> jelems n s = je s"
  unfolding je_def by (rule json_fuel) simp_all

lemma jv_fuel: "2 * length s < n \<Longrightarrow> jval n s = jv s"
  unfolding jv_def by (rule json_fuel) simp_all

lemma JSON_parse_jv: "JSON_parse s = (case jv (skip s) of
    Some (v, r) \<Rightarrow> if skip r = [] then Some v else None | None \<Rightarrow> None)"
  using length_skip [of s] by (simp add: JSON_parse_def jv_fuel)

lemma jv_string: "jv (quote_json t @ r) = Some (JStr t, r)"
  by (simp add: jv_def jval.simps(2) quote_json_def expect_def jstr_esc)

lemma jv_object:
  assumes "s = jc CHR ''{'' # r"
  shows "jv s = (case expect (jc CHR ''}'') (skip r) of Some u \<Rightarrow> Some (JObj [], u)
     | None \<Rightarrow> map_option (\<lambda>(ms, u). (JObj (own ms), u)) (jm (skip r)))"
  using length_skip [of r]
  by (simp add: assms jv_def jval.simps(2) expect_def quote_def jm_fuel split: option.split)

lemma jv_array:
  assumes "s = jc CHR ''['' # r"
  shows "jv s = (case expect (jc CHR '']'') (skip r) of Some u \<Rightarrow> Some (JArr [], u)
     | None \<Rightarrow> map_option (\<lambda>(vs, u). (JArr vs, u)) (je (skip r)))"
  using length_skip [of r]
  by (simp add: assms jv_def jval.simps(2) expect_def quote_def je_fuel split: option.split)

lemma je_unfold: "je s = (case jv s of None \<Rightarrow> None | Some (v, r) \<Rightarrow>
    (case expect (jc CHR '']'') (skip r) of Some u \<Rightarrow> Some ([v], u) | None \<Rightarrow>
    (case expect (jc CHR '','') (skip r) of None \<Rightarrow> None
     | Some u \<Rightarrow> map_option (\<lambda>(vs, w). (v # vs, w)) (je (skip u)))))"
proof -
  let ?n = "2 * length s + 1"
  have v: "jval ?n s = jv s" by (rule jv_fuel) simp
  have "jelems ?n (skip u) = je (skip u)" if "jv s = Some (x, r)" "expect c (skip r) = Some u" for x r c u
    using expect_skip_length [OF that(2)] length_skip [of u] shorterD [of "jval ?n", OF _ that(1) [folded v]]
      json_shorter [of ?n] by (intro je_fuel) simp
  then show ?thesis using jelems.simps(2) [of ?n s] v by (simp add: je_def [of s] split: option.split)
qed

lemma jm_unfold: "jm s = (case expect quote s of None \<Rightarrow> None | Some r \<Rightarrow>
    (case jstr r of None \<Rightarrow> None | Some (k, r1) \<Rightarrow>
    (case expect (jc CHR '':'') (skip r1) of None \<Rightarrow> None | Some r2 \<Rightarrow>
    (case jv (skip r2) of None \<Rightarrow> None | Some (v, r3) \<Rightarrow>
       (case expect (jc CHR ''}'') (skip r3) of Some u \<Rightarrow> Some ([(k, v)], u) | None \<Rightarrow>
       (case expect (jc CHR '','') (skip r3) of None \<Rightarrow> None
        | Some u \<Rightarrow> map_option (\<lambda>(ms, w). ((k, v) # ms, w)) (jm (skip u))))))))"
proof -
  let ?n = "2 * length s"
  have v: "jval ?n (skip r2) = jv (skip r2)"
    if "expect c s = Some r" "jstr r = Some (t, r1)" "expect d (skip r1) = Some r2" for c r t r1 d r2
    using expect_length [OF that(1)] jstr_length [OF that(2)] expect_skip_length [OF that(3)]
      length_skip [of r2] by (intro jv_fuel) simp
  have "jmembers ?n (skip u) = jm (skip u)"
    if "expect c s = Some r" "jstr r = Some (t, r1)" "expect d (skip r1) = Some r2"
      "jv (skip r2) = Some (x, r3)" "expect e (skip r3) = Some u" for c r t r1 d r2 x r3 e u
    using expect_length [OF that(1)] jstr_length [OF that(2)] expect_skip_length [OF that(3)]
      expect_skip_length [OF that(5)] length_skip [of u]
      shorter_skip [of "jval ?n", OF _ that(4) [folded v [OF that(1-3)]]] json_shorter [of ?n]
    by (intro jm_fuel) simp
  with v show ?thesis using jmembers.simps(2) [of ?n s] by (simp add: jm_def [of s] split: option.split)
qed

text \<open>\<open>reads p v\<close>: wherever the text \<open>p\<close> stands, the parser reads the value \<open>v\<close> and stops behind it.\<close>

definition reads :: "jsstring \<Rightarrow> json \<Rightarrow> bool" where
  "reads p v \<longleftrightarrow> p \<noteq> [] \<and> \<not> is_json_ws (hd p) \<and> hd p \<noteq> jc CHR '']'' \<and> (\<forall>r. jv (p @ r) = Some (v, r))"

lemma skip_id [simp]: "\<not> is_json_ws c \<Longrightarrow> skip (c # s) = c # s"
  by (simp add: skip_def)

lemma skip_append: "p \<noteq> [] \<Longrightarrow> \<not> is_json_ws (hd p) \<Longrightarrow> skip (p @ r) = p @ r"
  by (cases p) simp_all

lemma punct [simp]:
  "\<not> is_json_ws quote" "\<not> is_json_ws 44" "\<not> is_json_ws 93" "\<not> is_json_ws 125" "\<not> is_json_ws 58"
  by (simp_all add: is_json_ws_def quote_def)

lemma expect_Cons: "expect c (x # s) = (if x = c then Some s else None)"
  by (simp add: expect_def)

lemma expect_None: "hd s \<noteq> c \<Longrightarrow> expect c s = None"
  by (cases s) (simp_all add: expect_def)

lemma join_hd: "ws \<noteq> [] \<Longrightarrow> hd ws \<noteq> [] \<Longrightarrow> join sep ws \<noteq> [] \<and> hd (join sep ws) = hd (hd ws)"
  by (cases ws; cases "tl ws") auto

lemma je_join:
  assumes "list_all2 reads ps vs" "vs \<noteq> []"
  shows "je (join (js '','') ps @ jc CHR '']'' # r) = Some (vs, r)"
  using assms
proof (induction ps vs rule: list_all2_induct)
  case (Cons p ps v vs)
  have v: "jv (p @ x) = Some (v, x)" for x using Cons.hyps(1) by (simp add: reads_def)
  show ?case
  proof (cases ps)
    case Nil
    then have "vs = []" using Cons.hyps(2) by simp
    with Nil show ?thesis by (subst je_unfold) (simp add: v expect_Cons)
  next
    case ps: (Cons q qs)
    let ?X = "join (js '','') ps @ jc CHR '']'' # r"
    obtain w ws where vs: "vs = w # ws" "reads q w" using ps Cons.hyps(2) by (auto simp: list_all2_Cons1)
    then have "skip ?X = ?X"
      using join_hd [of ps "js '',''"] ps by (intro skip_append) (auto simp: reads_def)
    moreover have "join (js '','') (p # ps) = p @ jc CHR '','' # join (js '','') ps" using ps by simp
    ultimately show ?thesis
      using Cons.IH vs by (subst je_unfold) (simp add: v expect_Cons)
  qed
qed simp

definition member :: "jsstring \<times> jsstring \<Rightarrow> jsstring" where
  "member e = quote_json (fst e) @ js '':'' @ snd e"

lemma member_shape: "member (k, t) @ r = quote # esc k @ quote # jc CHR '':'' # t @ r"
  by (simp add: member_def quote_json_def)

lemma jm_join:
  assumes "list_all2 (\<lambda>e f. fst e = fst f \<and> reads (snd e) (snd f)) es fs" "fs \<noteq> []"
  shows "jm (join (js '','') (map member es) @ jc CHR ''}'' # r) = Some (fs, r)"
  using assms
proof (induction es fs rule: list_all2_induct)
  case (Cons e es f fs)
  obtain k t v where e: "e = (k, t)" "f = (k, v)" "reads t v" using Cons.hyps(1) by (cases e; cases f) auto
  have v: "skip (t @ x) = t @ x" "jv (t @ x) = Some (v, x)" for x
    using e(3) by (auto simp: reads_def intro: skip_append)
  show ?case
  proof (cases es)
    case Nil
    then have "fs = []" using Cons.hyps(2) by simp
    with Nil e show ?thesis by (subst jm_unfold) (simp add: member_shape v jstr_esc expect_Cons)
  next
    case es: (Cons q qs)
    let ?X = "join (js '','') (map member es) @ jc CHR ''}'' # r"
    have "member q \<noteq> []" "hd (member q) = quote" by (simp_all add: member_def quote_json_def)
    then have "skip ?X = ?X"
      using join_hd [of "map member es" "js '',''"] es by (intro skip_append) auto
    moreover have "join (js '','') (map member (e # es)) = member e @ jc CHR '','' # join (js '','') (map member es)"
      using es by simp
    moreover have "fs \<noteq> []" using es Cons.hyps(2) by auto
    ultimately show ?thesis
      using Cons.IH e by (subst jm_unfold) (simp add: member_shape v jstr_esc expect_Cons)
  qed
qed simp

fun wf_json :: "json \<Rightarrow> bool" where
  "wf_json (JNum l) = False"
| "wf_json (JArr vs) = list_all wf_json vs"
| "wf_json (JObj o') = (distinct (map fst o') \<and> list_all (\<lambda>e. wf_json (snd e)) o')"
| "wf_json v = True"

text \<open>The same value with the properties of every object in property order.\<close>

fun in_order :: "json \<Rightarrow> json" where
  "in_order (JArr vs) = JArr (map in_order vs)"
| "in_order (JObj o') = JObj (entries (map (\<lambda>(k, v). (k, in_order v)) o'))"
| "in_order v = v"

lemma reads_string: "reads (quote_json t) (JStr t)"
  by (auto simp: reads_def jv_string) (simp_all add: quote_json_def quote_def is_json_ws_def)

lemma reads_word:
  "reads (js ''null'') JNull" "reads (js ''true'') (JBool True)" "reads (js ''false'') (JBool False)"
  by (simp_all add: reads_def is_json_ws_def jv_def jval.simps(2) expect_Cons quote_def word_lit_def)

lemma reads_array:
  assumes "list_all2 reads ps vs"
  shows "reads (js ''['' @ join (js '','') ps @ js '']'') (JArr vs)"
proof -
  have "jv (jc CHR ''['' # join (js '','') ps @ jc CHR '']'' # r) = Some (JArr vs, r)" for r
  proof (cases ps)
    case Nil
    then show ?thesis using assms by (subst jv_array [OF refl]) (simp add: expect_Cons)
  next
    case (Cons p qs)
    let ?X = "join (js '','') ps @ jc CHR '']'' # r"
    have vs: "vs \<noteq> []" and "reads p (hd vs)" using Cons assms by (auto simp: list_all2_Cons1)
    then have hd: "join (js '','') ps \<noteq> []" "\<not> is_json_ws (hd ?X)" "hd ?X \<noteq> jc CHR '']''"
      using join_hd [of ps "js '',''"] Cons by (auto simp: reads_def)
    then have "skip ?X = ?X" by (intro skip_append) auto
    moreover have "expect (jc CHR '']'') ?X = None"
      using hd(3) by (rule expect_None)
    ultimately show ?thesis
      using je_join [OF assms vs, of r] by (subst jv_array [OF refl]) (simp del: js_simps)
  qed
  then show ?thesis by (simp add: reads_def is_json_ws_def)
qed

lemma reads_object:
  assumes "list_all2 (\<lambda>e f. fst e = fst f \<and> reads (snd e) (snd f)) es fs" "distinct (map fst fs)"
  shows "reads (js ''{'' @ join (js '','') (map member es) @ js ''}'') (JObj fs)"
proof -
  have own: "own fs = fs" using fold_obj_put_new [of fs "[]"] assms(2) by (simp add: own_def)
  have "jv (jc CHR ''{'' # join (js '','') (map member es) @ jc CHR ''}'' # r) = Some (JObj fs, r)" for r
  proof (cases es)
    case Nil
    then show ?thesis using assms by (subst jv_object [OF refl]) (simp add: expect_Cons)
  next
    case (Cons e es')
    let ?X = "join (js '','') (map member es) @ jc CHR ''}'' # r"
    have fs: "fs \<noteq> []" using Cons assms by (auto simp: list_all2_Cons1)
    have "member e \<noteq> []" "hd (member e) = quote" by (simp_all add: member_def quote_json_def)
    then have hd: "join (js '','') (map member es) \<noteq> []" "hd ?X = quote"
      using join_hd [of "map member es" "js '',''"] Cons by auto
    then have "skip ?X = ?X" by (intro skip_append) auto
    moreover have "expect (jc CHR ''}'') ?X = None"
      using hd(2) by (intro expect_None) (simp add: quote_def)
    ultimately show ?thesis
      using jm_join [OF assms(1) fs, of r] own by (subst jv_object [OF refl]) (simp del: js_simps)
  qed
  then show ?thesis by (simp add: reads_def is_json_ws_def)
qed

theorem reads_stringify: "wf_json v \<Longrightarrow> reads (stringify nf v) (in_order v)"
proof (induction v)
  case JNull
  then show ?case using reads_word by simp
next
  case (JBool b)
  then show ?case using reads_word by (cases b) simp_all
next
  case (JStr t)
  then show ?case by (simp add: reads_string)
next
  case (JArr vs)
  then have "list_all2 reads (map (stringify nf) vs) (map in_order vs)"
    by (auto simp: list_all2_map1 list_all2_map2 list_all_iff intro!: list.rel_refl_strong)
  from reads_array [OF this] show ?case by simp
next
  case (JObj o')
  have "reads (stringify nf (snd e)) (in_order (snd e))" if "e \<in> set (entries o')" for e
    using JObj.IH [of e "snd e"] JObj.prems that by (cases e) (auto simp: list_all_iff)
  then have "list_all2 (\<lambda>e f. fst e = fst f \<and> reads (snd e) (snd f))
      (map (\<lambda>(k, v). (k, stringify nf v)) (entries o')) (map (\<lambda>(k, v). (k, in_order v)) (entries o'))"
    by (auto simp: list_all2_map1 list_all2_map2 case_prod_beta intro!: list.rel_refl_strong)
  moreover have "distinct (map fst (map (\<lambda>(k, v). (k, in_order v)) (entries o')))"
    using distinct_entries [of o'] JObj.prems by (simp add: comp_def case_prod_beta)
  ultimately have "reads (js ''{'' @ join (js '','') (map member (map (\<lambda>(k, v). (k, stringify nf v)) (entries o'))) @
      js ''}'') (JObj (map (\<lambda>(k, v). (k, in_order v)) (entries o')))"
    by (rule reads_object)
  then show ?case by (simp add: entries_map member_def comp_def case_prod_beta del: js_simps)
qed simp

theorem JSON_parse_stringify:
  assumes "wf_json v"
  shows "JSON_parse (stringify nf v) = Some (in_order v)"
proof -
  have r: "reads (stringify nf v) (in_order v)" using assms by (rule reads_stringify)
  then have "jv (stringify nf v @ []) = Some (in_order v, [])" by (simp only: reads_def)
  moreover have "skip (stringify nf v) = stringify nf v"
    using r skip_append [of "stringify nf v" "[]"] by (simp add: reads_def)
  moreover have "skip [] = []" by (simp add: skip_def)
  ultimately show ?thesis by (simp add: JSON_parse_jv)
qed

end
