(* ===== verification/Js_Uri.thy ===== *)
theory Js_Uri
  imports Js_Json
begin

text \<open>
  Code points, UTF-8 and the URI functions of ECMAScript: \<open>encodeURIComponent\<close>, \<open>decodeURIComponent\<close>,
  \<open>escape\<close> and \<open>unescape\<close>, and the browser's \<open>btoa\<close> and \<open>atob\<close>; on top of them \<open>shared/utils/base64url.ts\<close>.
  A call that throws is \<open>None\<close>.
\<close>

section \<open>Code points\<close>

definition cp_of_pair :: "jschar \<Rightarrow> jschar \<Rightarrow> nat" where
  "cp_of_pair h l = 0x10000 + (unat h - 0xD800) * 0x400 + (unat l - 0xDC00)"

text \<open>\<open>None\<close> when the string holds a lone surrogate.\<close>

fun code_points :: "jsstring \<Rightarrow> nat list option" where
  "code_points [] = Some []"
| "code_points [c] = (if is_high c \<or> is_low c then None else Some [unat c])"
| "code_points (c # d # s) =
     (if is_high c then
        (if is_low d then map_option ((#) (cp_of_pair c d)) (code_points s) else None)
      else if is_low c then None
      else map_option ((#) (unat c)) (code_points (d # s)))"

definition utf16 :: "nat \<Rightarrow> jsstring" where
  "utf16 cp = (if cp < 0x10000 then [of_nat cp]
     else [of_nat (0xD800 + (cp - 0x10000) div 0x400), of_nat (0xDC00 + (cp - 0x10000) mod 0x400)])"

definition is_cp :: "nat \<Rightarrow> bool" where
  "is_cp n \<longleftrightarrow> n < 0xD800 \<or> (0xE000 \<le> n \<and> n < 0x110000)"

definition utf8 :: "nat \<Rightarrow> nat list" where
  "utf8 n =
     (if n < 0x80 then [n]
      else if n < 0x800 then [0xC0 + n div 64, 0x80 + n mod 64]
      else if n < 0x10000 then [0xE0 + n div 4096, 0x80 + n div 64 mod 64, 0x80 + n mod 64]
      else [0xF0 + n div 262144, 0x80 + n div 4096 mod 64, 0x80 + n div 64 mod 64, 0x80 + n mod 64])"

text \<open>\<open>new TextEncoder().encode(s)\<close>: a lone surrogate is replaced by U+FFFD.\<close>

fun text_code_points :: "jsstring \<Rightarrow> nat list" where
  "text_code_points [] = []"
| "text_code_points [c] = [if is_high c \<or> is_low c then 0xFFFD else unat c]"
| "text_code_points (c # d # s) =
     (if is_high c \<and> is_low d then cp_of_pair c d # text_code_points s
      else (if is_high c \<or> is_low c then 0xFFFD else unat c) # text_code_points (d # s))"

definition text_encode :: "jsstring \<Rightarrow> nat list" where
  "text_encode s = concat (map utf8 (text_code_points s))"

section \<open>Percent encoding\<close>

definition hexU :: "nat \<Rightarrow> jschar" where
  "hexU n = (if n < 10 then 0x30 + of_nat n else 0x37 + of_nat n)"

definition percent :: jschar where "percent = 0x25"

definition pct :: "nat \<Rightarrow> jsstring" where
  "pct b = [percent, hexU (b div 16), hexU (b mod 16)]"

definition uri_unreserved :: "jschar \<Rightarrow> bool" where
  "uri_unreserved c \<longleftrightarrow> in_range CHR ''A'' CHR ''Z'' c \<or> in_range CHR ''a'' CHR ''z'' c \<or> is_digit c \<or>
     c \<in> set (js ''-_.!~*()'') \<or> c = 0x27"

definition enc_cp :: "nat \<Rightarrow> jsstring" where
  "enc_cp n = (if n < 128 \<and> uri_unreserved (of_nat n) then [of_nat n] else concat (map pct (utf8 n)))"

definition encodeURIComponent :: "jsstring \<Rightarrow> jsstring option" where
  "encodeURIComponent s = map_option (\<lambda>cps. concat (map enc_cp cps)) (code_points s)"

text \<open>\<open>%XX\<close> at the start of the text.\<close>

definition read_pct :: "jsstring \<Rightarrow> (nat \<times> jsstring) option" where
  "read_pct s = (case s of
      p # a # b # r \<Rightarrow>
        (if p = percent then
           (case (unhexdig a, unhexdig b) of (Some x, Some y) \<Rightarrow> Some (x * 16 + y, r) | _ \<Rightarrow> None)
         else None)
    | _ \<Rightarrow> None)"

definition read_cont :: "jsstring \<Rightarrow> (nat \<times> jsstring) option" where
  "read_cont s = (case read_pct s of
      Some (b, r) \<Rightarrow> if 0x80 \<le> b \<and> b < 0xC0 then Some (b - 0x80, r) else None | None \<Rightarrow> None)"

text \<open>One encoded code point: its octets must be valid UTF-8, so overlong forms and surrogates throw.\<close>

definition read_cp :: "jsstring \<Rightarrow> (nat \<times> jsstring) option" where
  "read_cp s = (case read_pct s of None \<Rightarrow> None | Some (b, r) \<Rightarrow>
     if b < 0x80 then Some (b, r)
     else if 0xC0 \<le> b \<and> b < 0xE0 then
       (case read_cont r of None \<Rightarrow> None | Some (x, r1) \<Rightarrow>
          (let n = (b - 0xC0) * 64 + x in if 0x80 \<le> n then Some (n, r1) else None))
     else if 0xE0 \<le> b \<and> b < 0xF0 then
       (case read_cont r of None \<Rightarrow> None | Some (x, r1) \<Rightarrow>
       (case read_cont r1 of None \<Rightarrow> None | Some (y, r2) \<Rightarrow>
          (let n = (b - 0xE0) * 4096 + x * 64 + y in if 0x800 \<le> n \<and> is_cp n then Some (n, r2) else None)))
     else if 0xF0 \<le> b \<and> b < 0xF8 then
       (case read_cont r of None \<Rightarrow> None | Some (x, r1) \<Rightarrow>
       (case read_cont r1 of None \<Rightarrow> None | Some (y, r2) \<Rightarrow>
       (case read_cont r2 of None \<Rightarrow> None | Some (z, r3) \<Rightarrow>
          (let n = (b - 0xF0) * 262144 + x * 4096 + y * 64 + z in
           if 0x10000 \<le> n \<and> is_cp n then Some (n, r3) else None))))
     else None)"

lemma read_pct_length: "read_pct s = Some (b, r) \<Longrightarrow> length r < length s"
  by (auto simp: read_pct_def split: list.splits if_splits option.splits)

lemma read_cont_length: "read_cont s = Some (b, r) \<Longrightarrow> length r < length s"
  using read_pct_length by (fastforce simp: read_cont_def split: option.splits if_splits)

lemma read_cp_length: "read_cp s = Some (n, r) \<Longrightarrow> length r < length s"
  unfolding read_cp_def
  by (auto simp: Let_def split: option.splits if_splits dest!: read_pct_length read_cont_length)

function decodeURIComponent :: "jsstring \<Rightarrow> jsstring option" where
  "decodeURIComponent s = (case s of
      [] \<Rightarrow> Some []
    | c # r \<Rightarrow>
        if c \<noteq> percent then map_option ((#) c) (decodeURIComponent r)
        else (case read_cp s of None \<Rightarrow> None | Some (n, r') \<Rightarrow> map_option ((@) (utf16 n)) (decodeURIComponent r')))"
  by pat_completeness auto
termination
  by (relation "measure length") (auto dest: read_cp_length)

declare decodeURIComponent.simps [simp del]

section \<open>Base64\<close>

definition escape_plain :: "jschar \<Rightarrow> bool" where
  "escape_plain c \<longleftrightarrow> in_range CHR ''A'' CHR ''Z'' c \<or> in_range CHR ''a'' CHR ''z'' c \<or> is_digit c \<or>
     c \<in> set (js ''@*_+-./'')"

definition escape :: "jsstring \<Rightarrow> jsstring" where
  "escape s = concat (map (\<lambda>c. if escape_plain c then [c] else if unat c < 256 then pct (unat c)
     else percent # jc CHR ''u'' # map (\<lambda>x. if 0x61 \<le> x then x - 0x20 else x) (hex4 c)) s)"

function unescape :: "jsstring \<Rightarrow> jsstring" where
  "unescape s = (case s of
      [] \<Rightarrow> []
    | c # r \<Rightarrow>
        (if c = percent \<and> length r \<ge> 5 \<and> hd r = jc CHR ''u'' \<and> unhex4 (r ! 1) (r ! 2) (r ! 3) (r ! 4) \<noteq> None
         then the (unhex4 (r ! 1) (r ! 2) (r ! 3) (r ! 4)) # unescape (drop 5 r)
         else (case read_pct s of
             Some (b, r') \<Rightarrow> of_nat b # unescape r'
           | None \<Rightarrow> c # unescape r)))"
  by pat_completeness auto
termination
  by (relation "measure length") (auto dest: read_pct_length)

declare unescape.simps [simp del]

definition b64c :: "nat \<Rightarrow> jschar" where
  "b64c n = (if n < 26 then 0x41 + of_nat n else if n < 52 then 0x47 + of_nat n
     else if n < 62 then of_nat (n - 4) else if n = 62 then jc CHR ''+'' else jc CHR ''/'')"

definition unb64c :: "jschar \<Rightarrow> nat option" where
  "unb64c c = (let n = unat c in
     if 0x41 \<le> n \<and> n \<le> 0x5A then Some (n - 0x41)
     else if 0x61 \<le> n \<and> n \<le> 0x7A then Some (n - 0x47)
     else if 0x30 \<le> n \<and> n \<le> 0x39 then Some (n + 4)
     else if c = jc CHR ''+'' then Some 62 else if c = jc CHR ''/'' then Some 63 else None)"

abbreviation equals_sign :: jschar where "equals_sign \<equiv> jc CHR ''=''"

fun b64enc :: "nat list \<Rightarrow> jsstring" where
  "b64enc [] = []"
| "b64enc [a] = [b64c (a div 4), b64c (a mod 4 * 16), equals_sign, equals_sign]"
| "b64enc [a, b] = [b64c (a div 4), b64c (a mod 4 * 16 + b div 16), b64c (b mod 16 * 4), equals_sign]"
| "b64enc (a # b # c # r) =
     [b64c (a div 4), b64c (a mod 4 * 16 + b div 16), b64c (b mod 16 * 4 + c div 64), b64c (c mod 64)] @ b64enc r"

definition btoa :: "jsstring \<Rightarrow> jsstring option" where
  "btoa s = (if list_all (\<lambda>c. unat c < 256) s then Some (b64enc (map unat s)) else None)"

fun b64dec :: "nat list \<Rightarrow> nat list option" where
  "b64dec [] = Some []"
| "b64dec [w] = None"
| "b64dec [w, x] = Some [w * 4 + x div 16]"
| "b64dec [w, x, y] = Some [w * 4 + x div 16, x mod 16 * 16 + y div 4]"
| "b64dec (w # x # y # z # r) =
     map_option (\<lambda>t. (w * 4 + x div 16) # (x mod 16 * 16 + y div 4) # (y mod 4 * 64 + z) # t) (b64dec r)"

fun all_some :: "'a option list \<Rightarrow> 'a list option" where
  "all_some [] = Some []"
| "all_some (None # xs) = None"
| "all_some (Some x # xs) = map_option ((#) x) (all_some xs)"

definition strip_padding :: "jsstring \<Rightarrow> jsstring" where
  "strip_padding s =
     (if length s mod 4 = 0 then
        (if ends_with s [equals_sign, equals_sign] then take (length s - 2) s
         else if ends_with s [equals_sign] then take (length s - 1) s else s)
      else s)"

text \<open>The forgiving-base64 decoder of the browser: ASCII white space is dropped first.\<close>

definition atob :: "jsstring \<Rightarrow> jsstring option" where
  "atob s =
     (let t = strip_padding (filter (\<lambda>c. c \<notin> {0x09, 0x0A, 0x0C, 0x0D, 0x20}) s) in
      (case all_some (map unb64c t) of
         None \<Rightarrow> None
       | Some ns \<Rightarrow> map_option (map of_nat) (b64dec ns)))"

definition replace_char :: "jschar \<Rightarrow> jschar \<Rightarrow> jsstring \<Rightarrow> jsstring" where
  "replace_char x y s = map (\<lambda>c. if c = x then y else c) s"

definition toBase64Url :: "jsstring \<Rightarrow> jsstring option" where
  "toBase64Url txt =
     (case encodeURIComponent txt of None \<Rightarrow> None | Some e \<Rightarrow>
     (case btoa (unescape e) of None \<Rightarrow> None | Some b64 \<Rightarrow>
        Some (rev (dropWhile (\<lambda>c. c = equals_sign)
          (rev (replace_char (jc CHR ''/'') (jc CHR ''_'') (replace_char (jc CHR ''+'') (jc CHR ''-'') b64)))))))"

definition fromBase64Url :: "jsstring \<Rightarrow> jsstring option" where
  "fromBase64Url encoded =
     (let padded = replace_char (jc CHR ''_'') (jc CHR ''/'') (replace_char (jc CHR ''-'') (jc CHR ''+'') encoded);
          b64 = padded @ replicate ((4 - length padded mod 4) mod 4) equals_sign in
      (case atob b64 of None \<Rightarrow> None | Some s \<Rightarrow> decodeURIComponent (escape s)))"

section \<open>Facts\<close>

lemma unat_of_nat_16: "n < 65536 \<Longrightarrow> unat (of_nat n :: jschar) = n"
  by (simp add: unat_of_nat)

lemma unhexdig_hexU: "n < 16 \<Longrightarrow> unhexdig (hexU n) = Some n"
proof -
  assume "n < 16"
  then have "hexU n = of_nat (if n < 10 then 0x30 + n else 0x37 + n)" by (simp add: hexU_def)
  moreover have "unat (of_nat (if n < 10 then 0x30 + n else 0x37 + n) :: jschar) = (if n < 10 then 0x30 + n else 0x37 + n)"
    using \<open>n < 16\<close> by (intro unat_of_nat_16) simp
  ultimately show ?thesis using \<open>n < 16\<close> by (simp add: unhexdig_def Let_def split: if_splits)
qed

lemma read_pct_pct: "b < 256 \<Longrightarrow> read_pct (pct b @ r) = Some (b, r)"
  by (simp add: pct_def read_pct_def unhexdig_hexU)

lemma read_cont_pct: "x < 64 \<Longrightarrow> read_cont (pct (0x80 + x) @ r) = Some (x, r)"
  by (simp add: read_cont_def read_pct_pct)

lemma digits64:
  "n div 4096 * 4096 + n div 64 mod 64 * 64 + n mod 64 = (n :: nat)"
  "n div 262144 * 262144 + n div 4096 mod 64 * 4096 + n div 64 mod 64 * 64 + n mod 64 = (n :: nat)"
proof -
  have d: "n div 4096 = n div 64 div 64" "n div 262144 = n div 64 div 64 div 64"
    by (simp_all add: div_mult2_eq [symmetric])
  have "(n div 64 div 64 * 64 + n div 64 mod 64) * 64 + n mod 64 = n"
    "((n div 64 div 64 div 64 * 64 + n div 64 div 64 mod 64) * 64 + n div 64 mod 64) * 64 + n mod 64 = n"
    by (simp_all only: div_mult_mod_eq)
  moreover have "(a * 64 + b) * 64 + c = m \<Longrightarrow> a * 4096 + b * 64 + c = m"
    "((a * 64 + b) * 64 + c) * 64 + e = m \<Longrightarrow> a * 262144 + b * 4096 + c * 64 + e = m" for a b c e m :: nat
    by simp_all
  ultimately show "n div 4096 * 4096 + n div 64 mod 64 * 64 + n mod 64 = n"
    "n div 262144 * 262144 + n div 4096 mod 64 * 4096 + n div 64 mod 64 * 64 + n mod 64 = n"
    unfolding d by blast+
qed

lemma read_cp_utf8:
  assumes "is_cp n"
  shows "read_cp (concat (map pct (utf8 n)) @ r) = Some (n, r)"
proof -
  consider "n < 0x80" | "0x80 \<le> n" "n < 0x800" | "0x800 \<le> n" "n < 0x10000" | "0x10000 \<le> n" "n < 0x110000"
    using assms unfolding is_cp_def by linarith
  then show ?thesis
  proof cases
    case 1
    then show ?thesis by (simp add: utf8_def read_cp_def read_pct_pct)
  next
    case 2
    have "0xC0 + n div 64 < 0xE0" using 2 by linarith
    with 2 show ?thesis
      by (simp add: utf8_def read_cp_def read_pct_pct read_cont_pct Let_def)
  next
    case 3
    have b: "n div 4096 < 16" using 3 by linarith
    have "n div 4096 * 4096 + n div 64 mod 64 * 64 + n mod 64 = n"
      by (rule digits64)
    with 3 b assms show ?thesis
      by (simp add: utf8_def read_cp_def read_pct_pct read_cont_pct Let_def)
  next
    case 4
    have b: "n div 262144 < 8" using 4 by linarith
    have "n div 262144 * 262144 + n div 4096 mod 64 * 4096 + n div 64 mod 64 * 64 + n mod 64 = n"
      by (rule digits64)
    with 4 b assms show ?thesis
      by (simp add: utf8_def read_cp_def read_pct_pct read_cont_pct Let_def)
  qed
qed

lemma surrogate_unat:
  "is_high c \<longleftrightarrow> 0xD800 \<le> unat c \<and> unat c \<le> 0xDBFF" "is_low c \<longleftrightarrow> 0xDC00 \<le> unat c \<and> unat c \<le> 0xDFFF"
  by (simp_all add: is_high_def is_low_def word_le_nat_alt)

lemma of_nat_unat_16: "(of_nat (unat (c :: jschar)) :: jschar) = c"
  by simp

lemma utf16_pair:
  assumes "is_high c" "is_low d"
  shows "utf16 (cp_of_pair c d) = [c, d]" "is_cp (cp_of_pair c d)"
proof -
  obtain h where h: "unat c = 0xD800 + h" "h < 0x400" using assms(1) unfolding surrogate_unat by (intro that [of "unat c - 0xD800"]) auto
  obtain l where l: "unat d = 0xDC00 + l" "l < 0x400" using assms(2) unfolding surrogate_unat by (intro that [of "unat d - 0xDC00"]) auto
  have cp: "cp_of_pair c d = 0x10000 + h * 0x400 + l" by (simp add: cp_of_pair_def h l)
  show "is_cp (cp_of_pair c d)" using h(2) l(2) by (simp add: cp is_cp_def)
  have "(cp_of_pair c d - 0x10000) div 0x400 = h" "(cp_of_pair c d - 0x10000) mod 0x400 = l" "\<not> cp_of_pair c d < 0x10000"
    using l(2) by (simp_all add: cp)
  then have "utf16 (cp_of_pair c d) = [of_nat (unat c), of_nat (unat d)]" by (simp add: utf16_def h(1) l(1))
  then show "utf16 (cp_of_pair c d) = [c, d]" by simp
qed

lemma utf16_single: "\<not> is_high c \<Longrightarrow> \<not> is_low c \<Longrightarrow> utf16 (unat c) = [c] \<and> is_cp (unat c)"
  using unsigned_less [of c, where ?'a = nat] by (auto simp: utf16_def is_cp_def surrogate_unat)

lemma code_points_sound: "code_points s = Some cps \<Longrightarrow> list_all is_cp cps \<and> concat (map utf16 cps) = s"
proof (induction s arbitrary: cps rule: code_points.induct)
  case (2 c)
  then show ?case using utf16_single [of c] by (auto split: if_splits)
next
  case (3 c d s)
  then show ?case using utf16_single [of c] utf16_pair [of c d] by (auto split: if_splits)
qed simp

text \<open>A printer that writes some ASCII characters as they are and percent-encodes the rest.\<close>

definition enc_with :: "(jschar \<Rightarrow> bool) \<Rightarrow> nat \<Rightarrow> jsstring" where
  "enc_with P n = (if n < 128 \<and> P (of_nat n) then [of_nat n] else concat (map pct (utf8 n)))"

lemma utf8_ne: "\<exists>b bs. utf8 n = b # bs"
  by (simp add: utf8_def)

lemma decode_plain: "c \<noteq> percent \<Longrightarrow> decodeURIComponent (c # r) = map_option ((#) c) (decodeURIComponent r)"
  by (subst decodeURIComponent.simps) simp

lemma decode_pct:
  "read_cp (percent # t) = Some (n, r) \<Longrightarrow>
    decodeURIComponent (percent # t) = map_option ((@) (utf16 n)) (decodeURIComponent r)"
  by (subst decodeURIComponent.simps) simp

lemma decode_enc_with:
  assumes "is_cp n" "\<not> P percent"
  shows "decodeURIComponent (enc_with P n @ r) = map_option ((@) (utf16 n)) (decodeURIComponent r)"
proof (cases "n < 128 \<and> P (of_nat n)")
  case True
  then have "of_nat n \<noteq> percent" using assms(2) by metis
  moreover have "utf16 n = [of_nat n]" using True by (simp add: utf16_def)
  moreover have "(@) [of_nat n] = (#) (of_nat n :: jschar)" by (rule ext) simp
  ultimately show ?thesis using True by (simp add: enc_with_def decode_plain)
next
  case False
  obtain b bs where "utf8 n = b # bs" using utf8_ne by blast
  then obtain t where "concat (map pct (utf8 n)) @ r = percent # t" by (simp add: pct_def)
  moreover have "enc_with P n = concat (map pct (utf8 n))" using False by (simp only: enc_with_def if_False)
  ultimately show ?thesis using decode_pct read_cp_utf8 [OF assms(1), of r] by simp
qed

lemma decode_enc_list:
  assumes "list_all is_cp cps" "\<not> P percent"
  shows "decodeURIComponent (concat (map (enc_with P) cps)) = Some (concat (map utf16 cps))"
  using assms(1)
proof (induction cps)
  case Nil
  show ?case by (subst decodeURIComponent.simps) simp
next
  case (Cons n cps)
  then show ?case using decode_enc_with [of n P "concat (map (enc_with P) cps)"] assms(2) by simp
qed

lemma enc_cp_with: "enc_cp = enc_with uri_unreserved"
  by (rule ext) (simp add: enc_cp_def enc_with_def)

lemma percent_reserved: "\<not> uri_unreserved percent" "\<not> escape_plain percent"
  by (simp_all add: uri_unreserved_def escape_plain_def percent_def in_range_def is_digit_def)

lemma decode_encodeURIComponent:
  assumes "encodeURIComponent s = Some e"
  shows "decodeURIComponent e = Some s"
proof -
  obtain cps where cps: "code_points s = Some cps" "e = concat (map (enc_with uri_unreserved) cps)"
    using assms by (auto simp: encodeURIComponent_def enc_cp_with)
  with code_points_sound [OF cps(1)] decode_enc_list [of cps uri_unreserved] percent_reserved show ?thesis by simp
qed

lemma hexU_unreserved: "n < 16 \<Longrightarrow> uri_unreserved (hexU n)"
proof -
  assume "n < 16"
  then have "hexU n = of_nat (if n < 10 then 0x30 + n else 0x37 + n)" by (simp add: hexU_def)
  moreover have "unat (of_nat (if n < 10 then 0x30 + n else 0x37 + n) :: jschar) = (if n < 10 then 0x30 + n else 0x37 + n)"
    using \<open>n < 16\<close> by (intro unat_of_nat_16) simp
  ultimately show ?thesis using \<open>n < 16\<close>
    by (simp add: uri_unreserved_def in_range_def is_digit_def word_le_nat_alt split: if_splits)
qed

lemma utf8_bytes: "is_cp n \<Longrightarrow> b \<in> set (utf8 n) \<Longrightarrow> b < 256"
  unfolding utf8_def is_cp_def by (auto split: if_splits)

lemma encode_chars:
  assumes "encodeURIComponent s = Some e" "c \<in> set e"
  shows "uri_unreserved c \<or> c = percent"
proof -
  obtain cps where cps: "code_points s = Some cps" "e = concat (map enc_cp cps)"
    using assms by (auto simp: encodeURIComponent_def)
  then obtain n where n: "n \<in> set cps" "c \<in> set (enc_cp n)" using assms(2) by auto
  have cp: "is_cp n" using code_points_sound [OF cps(1)] n(1) by (simp add: list_all_iff)
  show ?thesis
  proof (cases "n < 128 \<and> uri_unreserved (of_nat n)")
    case True
    with n(2) show ?thesis by (simp add: enc_cp_def)
  next
    case False
    then obtain b where b: "b \<in> set (utf8 n)" "c \<in> set (pct b)" using n(2) by (auto simp: enc_cp_def)
    then have "b div 16 < 16" "b mod 16 < 16" using utf8_bytes [OF cp b(1)] by auto
    with b(2) hexU_unreserved show ?thesis by (auto simp: pct_def)
  qed
qed

lemma unreserved_ascii: "uri_unreserved c \<Longrightarrow> unat c < 128"
  by (auto simp: uri_unreserved_def in_range_def is_digit_def word_le_nat_alt)

lemma code_points_ascii: "list_all (\<lambda>c. unat c < 128) s \<Longrightarrow> code_points s = Some (map unat s)"
  by (induction s rule: code_points.induct) (auto simp: surrogate_unat)

lemma encode_unreserved: "list_all uri_unreserved s \<Longrightarrow> encodeURIComponent s = Some s"
proof -
  assume u: "list_all uri_unreserved s"
  then have "list_all (\<lambda>c. unat c < 128) s" using unreserved_ascii by (auto simp: list_all_iff)
  moreover have "concat (map enc_cp (map unat s)) = s" using u
    by (induction s) (simp_all add: enc_cp_def unreserved_ascii)
  ultimately show ?thesis by (simp add: encodeURIComponent_def code_points_ascii)
qed

section \<open>Base64 round trip\<close>

lemma unb64c_b64c: "n < 64 \<Longrightarrow> unb64c (b64c n) = Some n"
proof -
  assume n: "n < 64"
  consider "n < 26" | "26 \<le> n" "n < 52" | "52 \<le> n" "n < 62" | "n = 62" | "n = 63" using n by linarith
  then show ?thesis
  proof cases
    case 1
    then have "b64c n = of_nat (0x41 + n)" by (simp add: b64c_def)
    with 1 unat_of_nat_16 [of "0x41 + n"] show ?thesis by (simp add: unb64c_def Let_def del: of_nat_add)
  next
    case 2
    then have "b64c n = of_nat (0x47 + n)" by (simp add: b64c_def)
    with 2 unat_of_nat_16 [of "0x47 + n"] show ?thesis by (simp add: unb64c_def Let_def del: of_nat_add)
  next
    case 3
    obtain m where m: "n = m + 4" "48 \<le> m" "m < 58" using 3 by (intro that [of "n - 4"]) auto
    then have "b64c n = of_nat m" by (simp add: b64c_def)
    with m unat_of_nat_16 [of m] show ?thesis by (simp add: unb64c_def Let_def)
  qed (simp_all add: b64c_def unb64c_def Let_def)
qed

text \<open>The characters of the encoded text without the padding, as numbers.\<close>

fun b64nums :: "nat list \<Rightarrow> nat list" where
  "b64nums [] = []"
| "b64nums [a] = [a div 4, a mod 4 * 16]"
| "b64nums [a, b] = [a div 4, a mod 4 * 16 + b div 16, b mod 16 * 4]"
| "b64nums (a # b # c # r) = [a div 4, a mod 4 * 16 + b div 16, b mod 16 * 4 + c div 64, c mod 64] @ b64nums r"

definition b64pad :: "nat list \<Rightarrow> nat" where
  "b64pad bs = (3 - length bs mod 3) mod 3"

lemma b64pad_simps [simp]:
  "b64pad [] = 0" "b64pad [a] = 2" "b64pad [a, b] = 1" "b64pad (a # b # c # r) = b64pad r"
proof -
  have "length (a # b # c # r) = 3 + length r" by simp
  then show "b64pad (a # b # c # r) = b64pad r" by (simp only: b64pad_def mod_add_self1)
qed (simp_all add: b64pad_def)

lemma b64enc_nums: "b64enc bs = map b64c (b64nums bs) @ replicate (b64pad bs) equals_sign"
  by (induction bs rule: b64enc.induct) (simp_all add: numeral_2_eq_2)

lemma b64nums_bound: "list_all (\<lambda>b. b < 256) bs \<Longrightarrow> list_all (\<lambda>n. n < 64) (b64nums bs)"
  by (induction bs rule: b64nums.induct) auto

lemma b64dec_nums: "list_all (\<lambda>b. b < 256) bs \<Longrightarrow> b64dec (b64nums bs) = Some bs"
proof (induction bs rule: b64nums.induct)
  case (4 a b c r)
  have "(b mod 16 * 4 + c div 64) div 4 = b mod 16" "(b mod 16 * 4 + c div 64) mod 4 = c div 64"
    using 4 by auto
  moreover have "(a mod 4 * 16 + b div 16) div 16 = a mod 4" "(a mod 4 * 16 + b div 16) mod 16 = b div 16"
    using 4 by auto
  ultimately show ?case using 4 by simp
next
  case (3 a b)
  have "(a mod 4 * 16 + b div 16) div 16 = a mod 4" "(a mod 4 * 16 + b div 16) mod 16 = b div 16"
    using 3 by auto
  then show ?case by simp
qed simp_all

lemma length_b64nums: "(4 - length (b64nums bs) mod 4) mod 4 = b64pad bs"
proof (induction bs rule: b64nums.induct)
  case (4 a b c r)
  have "length (b64nums (a # b # c # r)) = 4 + length (b64nums r)" by simp
  then show ?case using 4 by (simp only: mod_add_self1 b64pad_simps)
qed simp_all

lemma hexU_not_u: "n < 16 \<Longrightarrow> hexU n \<noteq> jc CHR ''u''"
  using unhexdig_hexU [of n] by (auto simp: unhexdig_def Let_def)

lemma unescape_Nil [simp]: "unescape [] = []"
  by (simp add: unescape.simps)

lemma unescape_pct: "b < 256 \<Longrightarrow> unescape (pct b @ r) = of_nat b # unescape r"
proof -
  assume b: "b < 256"
  then have "hexU (b div 16) \<noteq> jc CHR ''u''" by (intro hexU_not_u) simp
  with read_pct_pct [OF b, of r] show ?thesis by (subst unescape.simps) (simp add: pct_def)
qed

lemma unescape_plain: "c \<noteq> percent \<Longrightarrow> unescape (c # r) = c # unescape r"
  by (subst unescape.simps) (simp add: read_pct_def split: list.split)

lemma unescape_pcts: "list_all (\<lambda>b. b < 256) bs \<Longrightarrow> unescape (concat (map pct bs) @ r) = map of_nat bs @ unescape r"
  by (induction bs) (simp_all add: unescape_pct)

lemma utf8_ascii: "n < 128 \<Longrightarrow> utf8 n = [n]"
  by (simp add: utf8_def)

lemma unescape_enc_with:
  assumes "is_cp n" "\<not> P percent"
  shows "unescape (enc_with P n @ r) = map of_nat (utf8 n) @ unescape r"
proof (cases "n < 128 \<and> P (of_nat n)")
  case True
  then have "of_nat n \<noteq> percent" using assms(2) by metis
  with True show ?thesis by (simp add: enc_with_def unescape_plain utf8_ascii)
next
  case False
  have "list_all (\<lambda>b. b < 256) (utf8 n)" using utf8_bytes [OF assms(1)] by (simp add: list_all_iff)
  moreover have "enc_with P n = concat (map pct (utf8 n))" using False by (simp only: enc_with_def if_False)
  ultimately show ?thesis by (simp add: unescape_pcts)
qed

lemma unescape_enc_list:
  "list_all is_cp cps \<Longrightarrow> \<not> P percent \<Longrightarrow> unescape (concat (map (enc_with P) cps)) = map of_nat (concat (map utf8 cps))"
  by (induction cps) (simp_all add: unescape_enc_with)

lemma utf8_high: "is_cp n \<Longrightarrow> 128 \<le> n \<Longrightarrow> b \<in> set (utf8 n) \<Longrightarrow> 128 \<le> b"
  unfolding utf8_def by (auto split: if_splits)

lemma escape_plain_ascii: "escape_plain c \<Longrightarrow> unat c < 128"
  by (auto simp: escape_plain_def in_range_def is_digit_def word_le_nat_alt)

lemma escape_bytes:
  "list_all (\<lambda>b. b < 256) bs \<Longrightarrow>
    escape (map of_nat bs) = concat (map (\<lambda>b. if b < 128 \<and> escape_plain (of_nat b) then [of_nat b] else pct b) bs)"
proof (induction bs)
  case (Cons b bs)
  have "unat (of_nat b :: jschar) = b" using Cons.prems by (intro unat_of_nat_16) simp
  moreover have "escape_plain (of_nat b) \<Longrightarrow> b < 128" using escape_plain_ascii calculation by metis
  ultimately show ?case using Cons by (auto simp: escape_def)
qed (simp add: escape_def)

lemma escape_utf8:
  assumes "is_cp n"
  shows "escape (map of_nat (utf8 n)) = enc_with escape_plain n"
proof (cases "n < 128")
  case True
  then show ?thesis using escape_bytes [of "[n]"] by (simp add: utf8_ascii enc_with_def)
next
  case False
  have b: "list_all (\<lambda>b. b < 256) (utf8 n)" using utf8_bytes [OF assms] by (simp add: list_all_iff)
  have "concat (map (\<lambda>b. if b < 128 \<and> escape_plain (of_nat b) then [of_nat b] else pct b) (utf8 n)) =
      concat (map pct (utf8 n))"
    using utf8_high [OF assms] False by (intro arg_cong [of _ _ concat] map_cong) (force simp: not_less)+
  with escape_bytes [OF b] False show ?thesis by (simp add: enc_with_def)
qed

lemma escape_append: "escape (a @ b) = escape a @ escape b"
  by (simp add: escape_def)

lemma escape_utf8_list:
  "list_all is_cp cps \<Longrightarrow> escape (map of_nat (concat (map utf8 cps))) = concat (map (enc_with escape_plain) cps)"
  by (induction cps) (simp_all add: escape_utf8 escape_append, simp add: escape_def)

lemma strip_equals: "equals_sign \<notin> set xs \<Longrightarrow> rev (dropWhile (\<lambda>c. c = equals_sign) (rev (xs @ replicate k equals_sign))) = xs"
proof -
  assume "equals_sign \<notin> set xs"
  then have "dropWhile (\<lambda>c. c = equals_sign) (rev xs) = rev xs"
    by (cases "xs = []") (auto simp: dropWhile_eq_self_iff hd_rev dest: last_in_set)
  moreover have "dropWhile (\<lambda>c. c = equals_sign) (replicate k equals_sign @ ys) = dropWhile (\<lambda>c. c = equals_sign) ys" for ys
    by (induction k) auto
  ultimately show ?thesis by simp
qed

lemma b64c_alphabet:
  assumes "n < 64"
  shows "b64c n \<noteq> equals_sign" "b64c n \<noteq> jc CHR ''-''" "b64c n \<noteq> jc CHR ''_''" "b64c n \<notin> {0x09, 0x0A, 0x0C, 0x0D, 0x20}"
  using unb64c_b64c [OF assms] by (auto simp: unb64c_def Let_def)

lemma ends_with_iff: "ends_with s p \<longleftrightarrow> (\<exists>r. s = r @ p)"
proof
  assume "ends_with s p"
  then have "s = take (length s - length p) s @ p"
    using append_take_drop_id [of "length s - length p" s] by (simp add: ends_with_def)
  then show "\<exists>r. s = r @ p" by blast
qed (auto simp: ends_with_def)

lemma strip_padding_b64:
  assumes "equals_sign \<notin> set xs" "k = (4 - length xs mod 4) mod 4" "k \<le> 2"
  shows "strip_padding (xs @ replicate k equals_sign) = xs"
proof -
  have len: "(length xs + k) mod 4 = 0"
  proof -
    have "(length xs + k) mod 4 = (length xs mod 4 + k) mod 4" by (simp add: mod_add_left_eq)
    moreover have "length xs mod 4 = 0 \<or> length xs mod 4 = 1 \<or> length xs mod 4 = 2 \<or> length xs mod 4 = 3" by auto
    ultimately show ?thesis using assms(2) by auto
  qed
  consider "k = 0" | "k = 1" | "k = 2" using assms(3) by linarith
  then show ?thesis
  proof cases
    case 1
    with len assms(1) show ?thesis by (auto simp: strip_padding_def ends_with_iff)
  next
    case 2
    have "\<not> ends_with (xs @ [equals_sign]) [equals_sign, equals_sign]"
      using assms(1) by (auto simp: ends_with_iff append_eq_append_conv2 Cons_eq_append_conv)
    with 2 len show ?thesis by (auto simp: strip_padding_def ends_with_iff)
  next
    case 3
    with len show ?thesis by (auto simp: strip_padding_def ends_with_iff numeral_2_eq_2)
  qed
qed

lemma all_some_map: "(\<And>x. x \<in> set xs \<Longrightarrow> f (g x) = Some x) \<Longrightarrow> all_some (map f (map g xs)) = Some xs"
  by (induction xs) auto

lemma atob_b64enc:
  assumes "list_all (\<lambda>b. b < 256) bs"
  shows "atob (b64enc bs) = Some (map of_nat bs)"
proof -
  let ?xs = "map b64c (b64nums bs)"
  have n: "n < 64" if "n \<in> set (b64nums bs)" for n using b64nums_bound [OF assms] that by (simp add: list_all_iff)
  have eq: "equals_sign \<notin> set ?xs" using b64c_alphabet(1) n by fastforce
  have ws: "filter (\<lambda>c. c \<notin> {0x09, 0x0A, 0x0C, 0x0D, 0x20}) (b64enc bs) = b64enc bs"
    unfolding b64enc_nums filter_append using b64c_alphabet(4) n
    by (intro arg_cong2 [of _ _ _ _ "(@)"] filter_True) auto
  have "b64pad bs \<le> 2" by (simp add: b64pad_def)
  then have "strip_padding (b64enc bs) = ?xs"
    unfolding b64enc_nums using eq length_b64nums by (intro strip_padding_b64) simp_all
  moreover have "all_some (map unb64c ?xs) = Some (b64nums bs)" using n unb64c_b64c by (intro all_some_map) simp
  ultimately show ?thesis using b64dec_nums [OF assms] unfolding atob_def Let_def ws by (simp del: map_map)
qed


lemma toBase64Url_defined: "code_points txt = Some cps \<Longrightarrow> \<exists>e. toBase64Url txt = Some e"
proof -
  assume cps: "code_points txt = Some cps"
  then have cp: "list_all is_cp cps" using code_points_sound by blast
  have "unescape (concat (map enc_cp cps)) = map of_nat (concat (map utf8 cps))"
    unfolding enc_cp_with using cp percent_reserved(1) by (rule unescape_enc_list)
  moreover have "unat (of_nat b :: jschar) < 256" if "b \<in> set (concat (map utf8 cps))" for b
    using that utf8_bytes cp unat_of_nat_16 [of b] by (fastforce simp: list_all_iff)
  ultimately show ?thesis using cps by (auto simp: toBase64Url_def encodeURIComponent_def btoa_def list_all_iff)
qed


end
