(* ===== verification/Api_Client.thy ===== *)
theory Api_Client
  imports Js_Uri
begin

text \<open>
  The HTTP clients of the console: \<open>shared/api/list.ts\<close>, \<open>shared/api/endpoints\<close>, and the local clients of the KV v2,
  tokens, cluster and auth-method pages. An endpoint is the request it hands to axios, and, where the code does something
  with the answer, a function from the response data to the result. A template literal is concatenation; a call of
  \<open>encodeURIComponent\<close> that throws makes the request \<open>None\<close>.

  The theorems say which parts of a URL the caller controls: an encoded name is one path segment and determines the
  request, and a name that the forms accept needs no encoding.
\<close>

section \<open>Requests\<close>

datatype http_method = GET | POST | PUT | DELETE | PATCH

datatype body = NoBody | JsonB json | TextB jsstring

record request =
  rq_method :: http_method
  rq_url :: jsstring
  rq_params :: "(jsstring \<times> jsstring) list"
  rq_body :: body
  rq_headers :: "(jsstring \<times> jsstring) list"

definition rq :: "http_method \<Rightarrow> jsstring \<Rightarrow> request" where
  "rq m url = \<lparr>rq_method = m, rq_url = url, rq_params = [], rq_body = NoBody, rq_headers = []\<rparr>"

definition with_json :: "json \<Rightarrow> request \<Rightarrow> request" where
  "with_json b r = r\<lparr>rq_body := JsonB b\<rparr>"

definition with_params :: "(jsstring \<times> jsstring) list \<Rightarrow> request \<Rightarrow> request" where
  "with_params ps r = r\<lparr>rq_params := ps\<rparr>"

text \<open>An object literal as axios sends it: properties whose value is \<open>undefined\<close> are left out.\<close>

definition obj_lit :: "(string \<times> json option) list \<Rightarrow> json" where
  "obj_lit fs = JObj (map (\<lambda>(k, v). (js k, the v)) (filter (\<lambda>(k, v). v \<noteq> None) fs))"

definition jstrs :: "jsstring list \<Rightarrow> json" where
  "jstrs xs = JArr (map JStr xs)"

definition jnum :: "nat \<Rightarrow> json" where
  "jnum n = JNum (dec n)"

text \<open>A template literal with one encoded hole.\<close>

definition enc_url :: "string \<Rightarrow> jsstring \<Rightarrow> string \<Rightarrow> jsstring option" where
  "enc_url pre name post = map_option (\<lambda>e. js pre @ e @ js post) (encodeURIComponent name)"

definition listRequest :: "jsstring \<Rightarrow> request" where
  "listRequest path = with_params [(js ''list'', js ''true'')] (rq GET path)"

definition list_keys :: "jsstring list option \<Rightarrow> jsstring list" where
  "list_keys keys = nullish keys []"

section \<open>Sessions and sign-in: auth.ts\<close>

definition lookupSelf :: "request" where
  "lookupSelf = rq GET (js ''/v1/auth/token/lookup-self'')"

definition loginLdap :: "jsstring \<Rightarrow> jsstring \<Rightarrow> jsstring option \<Rightarrow> request" where
  "loginLdap username password namespace = with_json (obj_lit [(''namespace'', map_option JStr namespace), (''password'', Some (JStr password)), (''username'', Some (JStr username))]) (rq POST (js ''/v1/auth/ldap/login''))"

definition getOidcStatus :: "request" where
  "getOidcStatus = rq GET (js ''/v1/auth/oidc/status'')"

definition getOidcAuthUrl :: "request" where
  "getOidcAuthUrl = rq GET (js ''/v1/auth/oidc/auth-url'')"

definition oidcCallback :: "jsstring \<Rightarrow> jsstring \<Rightarrow> request" where
  "oidcCallback code state = with_json (obj_lit [(''code'', Some (JStr code)), (''state'', Some (JStr state))]) (rq POST (js ''/v1/auth/oidc/callback''))"

definition renewSelf :: "request" where
  "renewSelf = with_json (JObj []) (rq POST (js ''/v1/auth/token/renew-self''))"

section \<open>The shared clients of the auth methods\<close>

definition listAppRoles :: "request" where
  "listAppRoles = listRequest (js ''/v1/auth/approle/role/'')"

definition getAppRole :: "jsstring \<Rightarrow> request" where
  "getAppRole name = rq GET (js ''/v1/auth/approle/role/'' @ name)"

definition putAppRole :: "jsstring \<Rightarrow> json \<Rightarrow> request" where
  "putAppRole name b = with_json b (rq PUT (js ''/v1/auth/approle/role/'' @ name))"

definition deleteAppRole :: "jsstring \<Rightarrow> request" where
  "deleteAppRole name = rq DELETE (js ''/v1/auth/approle/role/'' @ name)"

definition generateSecretId :: "jsstring \<Rightarrow> request" where
  "generateSecretId name = with_json (JObj []) (rq POST (js ''/v1/auth/approle/role/'' @ name @ js ''/secret-id''))"

definition getJWTConfig :: "request" where
  "getJWTConfig = rq GET (js ''/v1/auth/jwt/config'')"

definition putJWTConfig :: "json \<Rightarrow> request" where
  "putJWTConfig b = with_json b (rq PUT (js ''/v1/auth/jwt/config''))"

definition listJWTRoles :: "request" where
  "listJWTRoles = listRequest (js ''/v1/auth/jwt/role/'')"

definition getJWTRole :: "jsstring \<Rightarrow> request" where
  "getJWTRole name = rq GET (js ''/v1/auth/jwt/role/'' @ name)"

definition putJWTRole :: "jsstring \<Rightarrow> json \<Rightarrow> request" where
  "putJWTRole name b = with_json b (rq PUT (js ''/v1/auth/jwt/role/'' @ name))"

definition deleteJWTRole :: "jsstring \<Rightarrow> request" where
  "deleteJWTRole name = rq DELETE (js ''/v1/auth/jwt/role/'' @ name)"

definition getLDAPConfig :: "request" where
  "getLDAPConfig = rq GET (js ''/v1/auth/ldap/config'')"

definition putLDAPConfig :: "json \<Rightarrow> request" where
  "putLDAPConfig b = with_json b (rq PUT (js ''/v1/auth/ldap/config''))"

definition listLDAPRoles :: "request" where
  "listLDAPRoles = listRequest (js ''/v1/auth/ldap/role/'')"

definition getLDAPRole :: "jsstring \<Rightarrow> request" where
  "getLDAPRole name = rq GET (js ''/v1/auth/ldap/role/'' @ name)"

definition putLDAPRole :: "jsstring \<Rightarrow> json \<Rightarrow> request" where
  "putLDAPRole name b = with_json b (rq PUT (js ''/v1/auth/ldap/role/'' @ name))"

definition deleteLDAPRole :: "jsstring \<Rightarrow> request" where
  "deleteLDAPRole name = rq DELETE (js ''/v1/auth/ldap/role/'' @ name)"

definition getK8sRole :: "jsstring \<Rightarrow> jsstring \<Rightarrow> request" where
  "getK8sRole namespace sa = rq GET (js ''/v1/auth/kubernetes/role/'' @ namespace @ js ''/'' @ sa)"

definition putK8sRole :: "jsstring \<Rightarrow> jsstring \<Rightarrow> json \<Rightarrow> request" where
  "putK8sRole namespace sa b = with_json b (rq PUT (js ''/v1/auth/kubernetes/role/'' @ namespace @ js ''/'' @ sa))"

definition deleteK8sRole :: "jsstring \<Rightarrow> jsstring \<Rightarrow> request" where
  "deleteK8sRole namespace sa = rq DELETE (js ''/v1/auth/kubernetes/role/'' @ namespace @ js ''/'' @ sa)"

section \<open>Tokens and token roles\<close>

definition listTokens :: "request" where
  "listTokens = listRequest (js ''/v1/auth/token/'')"

definition createToken :: "json \<Rightarrow> request" where
  "createToken b = with_json b (rq POST (js ''/v1/auth/token''))"

definition lookupToken :: "jsstring \<Rightarrow> request option" where
  "lookupToken name = map_option (rq GET) (enc_url ''/v1/auth/token/'' name '''')"

definition revokeToken :: "jsstring \<Rightarrow> request option" where
  "revokeToken name = map_option (rq DELETE) (enc_url ''/v1/auth/token/'' name '''')"

definition listTokenRoles :: "request" where
  "listTokenRoles = listRequest (js ''/v1/auth/token/roles/'')"

definition getTokenRole :: "jsstring \<Rightarrow> request" where
  "getTokenRole name = rq GET (js ''/v1/auth/token/roles/'' @ name)"

definition putTokenRole :: "jsstring \<Rightarrow> json \<Rightarrow> request" where
  "putTokenRole name b = with_json b (rq PUT (js ''/v1/auth/token/roles/'' @ name))"

definition deleteTokenRole :: "jsstring \<Rightarrow> request" where
  "deleteTokenRole name = rq DELETE (js ''/v1/auth/token/roles/'' @ name)"

definition createTokenFromRole :: "jsstring \<Rightarrow> jsstring option \<Rightarrow> request" where
  "createTokenFromRole role displayName =
     with_json (obj_lit [(''display_name'', map_option JStr displayName)]) (rq POST (js ''/v1/auth/token/roles/'' @ role @ js ''/create''))"

section \<open>The tokens page: tokens.api.ts\<close>

definition createTokenFull :: "json \<Rightarrow> request" where
  "createTokenFull b = with_json b (rq POST (js ''/v1/auth/token''))"

definition lookupTokenInfo :: "jsstring \<Rightarrow> request option" where
  "lookupTokenInfo name = map_option (rq GET) (enc_url ''/v1/auth/token/'' name '''')"

text \<open>
  \<open>ttlSeconds ? { ttl: `${ttlSeconds}s` } : {}\<close>
\<close>

definition renew_body :: "nat option \<Rightarrow> json" where
  "renew_body ttlSeconds = (case ttlSeconds of
      Some n \<Rightarrow> if n \<noteq> 0 then JObj [(js ''ttl'', JStr (dec n @ js ''s''))] else JObj []
    | None \<Rightarrow> JObj [])"

definition renewTokenById :: "jsstring \<Rightarrow> nat option \<Rightarrow> request option" where
  "renewTokenById name ttlSeconds =
     map_option (\<lambda>u. with_json (renew_body ttlSeconds) (rq POST u)) (enc_url ''/v1/auth/token/'' name ''/renew'')"

definition lookupSelf_tokens :: "request" where
  "lookupSelf_tokens = rq GET (js ''/v1/auth/token/lookup-self'')"

definition renewSelf_tokens :: "nat option \<Rightarrow> request" where
  "renewSelf_tokens ttlSeconds = with_json (renew_body ttlSeconds) (rq POST (js ''/v1/auth/token/renew-self''))"

section \<open>The server: sys.ts\<close>

definition getSealStatus :: "request" where
  "getSealStatus = rq GET (js ''/v1/sys/seal-status'')"

definition unseal :: "jsstring \<Rightarrow> request" where
  "unseal key = with_json (obj_lit [(''key'', Some (JStr key))]) (rq POST (js ''/v1/sys/unseal''))"

definition seal :: "request" where
  "seal = with_json (JObj []) (rq POST (js ''/v1/sys/seal''))"

definition rotate :: "request" where
  "rotate = with_json (JObj []) (rq POST (js ''/v1/sys/rotate''))"

definition snapshot :: "request" where
  "snapshot = rq GET (js ''/v1/sys/snapshot'')"

definition getHealth :: "request" where
  "getHealth = rq GET (js ''/v1/health'')"

section \<open>Policies: policy.ts\<close>

definition listPolicies :: "request" where
  "listPolicies = listRequest (js ''/v1/policy/'')"

definition getPolicy :: "jsstring \<Rightarrow> request" where
  "getPolicy name = rq GET (js ''/v1/policy/'' @ name)"

text \<open>
  The body repeats the name and carries the rules; \<open>inheritable\<close> is left out when undefined.
\<close>

definition policy_body :: "jsstring \<Rightarrow> (jsstring \<times> jsstring list) list \<Rightarrow> bool option \<Rightarrow> json" where
  "policy_body name rules inheritable =
     obj_lit [(''inheritable'', map_option JBool inheritable), (''name'', Some (JStr name)),
       (''rules'', Some (JArr (map (\<lambda>(p, cs). obj_lit [(''capabilities'', Some (jstrs cs)), (''path'', Some (JStr p))]) rules)))]"

definition putPolicy :: "jsstring \<Rightarrow> (jsstring \<times> jsstring list) list \<Rightarrow> bool option \<Rightarrow> request" where
  "putPolicy name rules inheritable =
     with_json (policy_body name rules inheritable) (rq PUT (js ''/v1/policy/'' @ name))"

definition deletePolicy :: "jsstring \<Rightarrow> request" where
  "deletePolicy name = rq DELETE (js ''/v1/policy/'' @ name)"

section \<open>KV v1 and KV v2: kv.ts, kvv2.ts and the page client kv2/api.ts\<close>

definition listKVv1 :: "jsstring \<Rightarrow> request" where
  "listKVv1 pfx = listRequest (js ''/v1/secret/'' @ pfx)"

definition getKVv1 :: "jsstring \<Rightarrow> request" where
  "getKVv1 name = rq GET (js ''/v1/secret/'' @ name)"

definition putKVv1 :: "jsstring \<Rightarrow> jsstring \<Rightarrow> request" where
  "putKVv1 path value =
     \<lparr>rq_method = PUT, rq_url = js ''/v1/secret/'' @ path, rq_params = [], rq_body = TextB value,
      rq_headers = [(js ''Content-Type'', js ''text/plain'')]\<rparr>"

definition deleteKVv1 :: "jsstring \<Rightarrow> request" where
  "deleteKVv1 name = rq DELETE (js ''/v1/secret/'' @ name)"

definition listKVv2 :: "jsstring \<Rightarrow> request" where
  "listKVv2 pfx = listRequest (js ''/v2/secret/'' @ pfx)"

text \<open>
  \<open>version ? { version } : undefined\<close>
\<close>

definition getKVv2 :: "jsstring \<Rightarrow> nat option \<Rightarrow> request" where
  "getKVv2 path version = with_params (case version of
       Some n \<Rightarrow> if n \<noteq> 0 then [(js ''version'', dec n)] else [] | None \<Rightarrow> []) (rq GET (js ''/v2/secret/'' @ path))"

definition putKVv2 :: "jsstring \<Rightarrow> jsstring \<Rightarrow> nat option \<Rightarrow> request" where
  "putKVv2 path value cas =
     \<lparr>rq_method = PUT, rq_url = js ''/v2/secret/'' @ path, rq_params = (case cas of Some n \<Rightarrow> [(js ''cas'', dec n)] | None \<Rightarrow> []), rq_body = TextB value,
      rq_headers = [(js ''Content-Type'', js ''text/plain'')]\<rparr>"

definition softDeleteKVv2 :: "jsstring \<Rightarrow> nat list \<Rightarrow> request" where
  "softDeleteKVv2 path versions =
     with_params [(js ''versions'', join (js '','') (map dec versions))] (rq DELETE (js ''/v2/secret/'' @ path))"

definition undeleteKVv2 :: "jsstring \<Rightarrow> nat list \<Rightarrow> request" where
  "undeleteKVv2 path versions =
     with_json (obj_lit [(''versions'', Some (JArr (map jnum versions)))]) (rq POST (js ''/v2/secret/undelete/'' @ path))"

definition destroyKVv2 :: "jsstring \<Rightarrow> nat list \<Rightarrow> request" where
  "destroyKVv2 path versions =
     with_json (obj_lit [(''versions'', Some (JArr (map jnum versions)))]) (rq POST (js ''/v2/secret/destroy/'' @ path))"

definition getKVv2Meta :: "jsstring \<Rightarrow> request" where
  "getKVv2Meta name = rq GET (js ''/v2/secret/metadata/'' @ name)"

definition writeSecret :: "jsstring \<Rightarrow> jsstring \<Rightarrow> nat option \<Rightarrow> request" where
  "writeSecret path value cas =
     \<lparr>rq_method = PUT, rq_url = js ''/v2/secret/'' @ path, rq_params = (case cas of Some n \<Rightarrow> [(js ''cas'', dec n)] | None \<Rightarrow> []), rq_body = TextB value,
      rq_headers = [(js ''Content-Type'', js ''text/plain'')]\<rparr>"

definition getMetaFull :: "jsstring \<Rightarrow> request" where
  "getMetaFull name = rq GET (js ''/v2/secret/metadata/'' @ name)"

definition patchMetadata :: "jsstring \<Rightarrow> json \<Rightarrow> request" where
  "patchMetadata path b = with_json b (rq PATCH (js ''/v2/secret/metadata/'' @ path))"

definition putMetadata :: "jsstring \<Rightarrow> json \<Rightarrow> request" where
  "putMetadata path b = with_json b (rq PUT (js ''/v2/secret/metadata/'' @ path))"

definition listDetailed :: "jsstring \<Rightarrow> bool \<Rightarrow> request" where
  "listDetailed pfx totals = with_params ([(js ''detailed'', js ''true''), (js ''list'', js ''true'')] @
       (if totals then [(js ''totals'', js ''true'')] else [])) (rq GET (js ''/v2/secret/metadata/'' @ pfx))"

definition getTotals :: "request" where
  "getTotals = with_params [(js ''list'', js ''true''), (js ''totals'', js ''true'')] (rq GET (js ''/v2/secret/metadata/''))"

section \<open>Mounts, namespaces and teams\<close>

definition listMounts :: "request" where
  "listMounts = rq GET (js ''/v1/sys/mounts'')"

definition kv2_mount_config :: "nat option \<times> bool option \<Rightarrow> json" where
  "kv2_mount_config c = obj_lit [(''max_versions'', map_option jnum (fst c)), (''cas_required'', map_option JBool (snd c))]"

definition createMount :: "jsstring \<Rightarrow> jsstring \<Rightarrow> jsstring option \<Rightarrow> (nat option \<times> bool option) option \<Rightarrow> request" where
  "createMount path type description config =
     with_json (obj_lit [(''config'', map_option kv2_mount_config config), (''description'', map_option JStr description),
       (''type'', Some (JStr type))]) (rq POST (js ''/v1/sys/mounts/'' @ path))"

definition deleteMount :: "jsstring \<Rightarrow> request" where
  "deleteMount name = rq DELETE (js ''/v1/sys/mounts/'' @ name)"

definition getMountConfig :: "jsstring \<Rightarrow> request" where
  "getMountConfig name = rq GET (js ''/v1/sys/mounts-tune/'' @ name)"

definition putMountConfig :: "jsstring \<Rightarrow> json \<Rightarrow> request" where
  "putMountConfig path b = with_json b (rq POST (js ''/v1/sys/mounts-tune/'' @ path))"

definition getMountDetails :: "jsstring \<Rightarrow> request" where
  "getMountDetails path = with_params [(js ''stats'', js ''true'')] (rq GET (js ''/v1/sys/mounts-tune/'' @ path))"

definition listNamespaces :: "request" where
  "listNamespaces = listRequest (js ''/v1/sys/namespaces/'')"

definition listNamespaceDetails :: "bool \<Rightarrow> request" where
  "listNamespaceDetails stats = with_params ((js ''list'', js ''true'') # (if stats then [(js ''stats'', js ''true'')] else []))
     (rq GET (js ''/v1/sys/namespaces/''))"

record ns_meta =
  nm_description :: "jsstring option"
  nm_owner :: "jsstring option"
  nm_labels :: "jsstring jsobj option"

definition ns_meta_fields :: "ns_meta \<Rightarrow> (string \<times> json option) list" where
  "ns_meta_fields m = [(''description'', map_option JStr (nm_description m)), (''owner'', map_option JStr (nm_owner m)),
     (''labels'', map_option (\<lambda>ls. JObj (map (\<lambda>(k, v). (k, JStr v)) ls)) (nm_labels m))]"

definition createNamespace :: "jsstring \<Rightarrow> ns_meta \<Rightarrow> request" where
  "createNamespace name meta =
     with_json (obj_lit ((''name'', Some (JStr name)) # ns_meta_fields meta)) (rq POST (js ''/v1/sys/namespaces''))"

definition updateNamespace :: "jsstring \<Rightarrow> ns_meta \<Rightarrow> request" where
  "updateNamespace name meta =
     with_json (obj_lit (ns_meta_fields meta)) (rq PUT (js ''/v1/sys/namespaces/'' @ name))"

definition getNamespaceStats :: "jsstring \<Rightarrow> request" where
  "getNamespaceStats name = rq GET (js ''/v1/sys/namespaces/'' @ name @ js ''/stats'')"

definition deleteNamespace :: "jsstring \<Rightarrow> request" where
  "deleteNamespace name = rq DELETE (js ''/v1/sys/namespaces/'' @ name)"

text \<open>The answer of an older server holds only \<open>keys\<close>.\<close>

record ns_view =
  nv_name :: jsstring
  nv_created_at :: jsstring

definition namespace_views :: "ns_view list option \<Rightarrow> jsstring list option \<Rightarrow> ns_view list" where
  "namespace_views namespaces keys = (case namespaces of
      Some vs \<Rightarrow> vs
    | None \<Rightarrow> map (\<lambda>name. \<lparr>nv_name = name, nv_created_at = []\<rparr>) (nullish keys []))"

datatype team_access = TAdmin | TDeveloper | TReader

record team_k8s =
  tk_cluster :: "jsstring option"
  tk_namespace :: jsstring
  tk_service_account :: jsstring
  tk_access :: team_access

record team_request =
  tr_name :: jsstring
  tr_description :: "jsstring option"
  tr_owner :: "jsstring option"
  tr_groups :: "(team_access \<times> jsstring list) list"
  tr_k8s :: "team_k8s list option"
  tr_ttl :: "jsstring option"

fun access_name :: "team_access \<Rightarrow> string" where
  "access_name TAdmin = ''admin''"
| "access_name TDeveloper = ''developer''"
| "access_name TReader = ''reader''"

definition team_k8s_body :: "team_k8s \<Rightarrow> json" where
  "team_k8s_body b = obj_lit [(''cluster'', map_option JStr (tk_cluster b)), (''namespace'', Some (JStr (tk_namespace b))),
     (''service_account'', Some (JStr (tk_service_account b))), (''access'', Some (JStr (js (access_name (tk_access b)))))]"

text \<open>\<open>{ ...req, dry_run }\<close>\<close>

definition team_body :: "team_request \<Rightarrow> bool \<Rightarrow> json" where
  "team_body req dry = obj_lit
     [(''name'', Some (JStr (tr_name req))), (''description'', map_option JStr (tr_description req)),
      (''owner'', map_option JStr (tr_owner req)),
      (''groups'', Some (JObj (map (\<lambda>(a, gs). (js (access_name a), jstrs gs)) (tr_groups req)))),
      (''k8s'', map_option (\<lambda>bs. JArr (map team_k8s_body bs)) (tr_k8s req)),
      (''ttl'', map_option JStr (tr_ttl req)), (''dry_run'', Some (JBool dry))]"

definition planTeam :: "team_request \<Rightarrow> request" where
  "planTeam req = with_json (team_body req True) (rq POST (js ''/v1/sys/teams''))"

definition createTeam :: "team_request \<Rightarrow> request" where
  "createTeam req = with_json (team_body req False) (rq POST (js ''/v1/sys/teams''))"

definition syncTeamPolicies :: "bool \<Rightarrow> jsstring option \<Rightarrow> request" where
  "syncTeamPolicies dryRun name = with_json (obj_lit [(''dry_run'', Some (JBool dryRun)),
     (''name'', if truthy_str name then map_option JStr name else None)]) (rq POST (js ''/v1/sys/teams/sync''))"

definition listK8sClusters :: "request" where
  "listK8sClusters = rq GET (js ''/v1/auth/kubernetes/clusters'')"

section \<open>Cluster, usage and Kubernetes resources\<close>

definition getClusterStatus :: "request" where
  "getClusterStatus = rq GET (js ''/v1/sys/cluster'')"

definition joinCluster :: "jsstring \<Rightarrow> jsstring \<Rightarrow> request" where
  "joinCluster nodeId raftAddr = with_json (obj_lit [(''node_id'', Some (JStr nodeId)), (''raft_addr'', Some (JStr raftAddr))]) (rq POST (js ''/v1/sys/cluster/join''))"

definition createClusterJoinToken :: "nat option \<Rightarrow> nat option \<Rightarrow> request" where
  "createClusterJoinToken numUses ttlSeconds = with_json (obj_lit [(''num_uses'', map_option jnum numUses),
     (''ttl_seconds'', map_option jnum ttlSeconds)]) (rq POST (js ''/v1/sys/cluster/join-token''))"

definition removeClusterNode :: "jsstring \<Rightarrow> request" where
  "removeClusterNode name = rq DELETE (js ''/v1/sys/cluster/node/'' @ name)"

definition stepDownCluster :: "jsstring option \<Rightarrow> request" where
  "stepDownCluster targetId = with_json (if truthy_str targetId then obj_lit [(''target_id'', map_option JStr targetId)] else JObj []) (rq POST (js ''/v1/sys/cluster/step-down''))"

definition listClusterSnapshots :: "request" where
  "listClusterSnapshots = rq GET (js ''/v1/sys/cluster/snapshot'')"

definition createClusterSnapshot :: "request" where
  "createClusterSnapshot = rq POST (js ''/v1/sys/cluster/snapshot'')"

definition downloadStoredSnapshot :: "jsstring \<Rightarrow> request option" where
  "downloadStoredSnapshot name = map_option (rq GET) (enc_url ''/v1/sys/cluster/snapshot/'' name '''')"

definition listTuckSecrets :: "request" where
  "listTuckSecrets = rq GET (js ''/v1/sys/k8s/tucksecrets'')"

definition getSecretsUsage :: "request" where
  "getSecretsUsage = rq GET (js ''/v1/sys/usage/secrets'')"

section \<open>Response wrapping: wrapping.ts\<close>

definition wrap :: "json option \<Rightarrow> jsstring option \<Rightarrow> jsstring option \<Rightarrow> request" where
  "wrap dat ttl creationPath =
     with_json (obj_lit [(''creation_path'', if truthy_str creationPath then map_option JStr creationPath else None),
       (''data'', dat), (''ttl'', map_option JStr ttl)]) (rq POST (js ''/v1/sys/wrapping/wrap''))"

definition unwrap :: "jsstring \<Rightarrow> request" where
  "unwrap token = with_json (obj_lit [(''token'', Some (JStr token))]) (rq POST (js ''/v1/sys/wrapping/unwrap''))"

definition lookupWrap :: "jsstring \<Rightarrow> request" where
  "lookupWrap token = with_json (obj_lit [(''token'', Some (JStr token))]) (rq POST (js ''/v1/sys/wrapping/lookup''))"

definition revokeWrap :: "jsstring \<Rightarrow> request" where
  "revokeWrap token = with_json (obj_lit [(''token'', Some (JStr token))]) (rq DELETE (js ''/v1/sys/wrapping/revoke''))"

definition listWrapped :: "request" where
  "listWrapped = rq GET (js ''/v1/sys/wrapping/list'')"

definition getWrappingStats :: "request" where
  "getWrappingStats = rq GET (js ''/v1/sys/wrapping/stats'')"

definition revokeWrapByAccessor :: "jsstring \<Rightarrow> request option" where
  "revokeWrapByAccessor name = map_option (rq DELETE) (enc_url ''/v1/sys/wrapping/revoke-accessor/'' name '''')"

section \<open>The auth-methods page: auth-methods/api.ts\<close>

definition am_listNamespaces :: "request" where
  "am_listNamespaces = listRequest (js ''/v1/sys/namespaces/'')"

definition am_listAppRoles :: "request" where
  "am_listAppRoles = listRequest (js ''/v1/auth/approle/role/'')"

definition am_getAppRole :: "jsstring \<Rightarrow> request option" where
  "am_getAppRole name = map_option (rq GET) (enc_url ''/v1/auth/approle/role/'' name '''')"

definition am_putAppRole :: "jsstring \<Rightarrow> json \<Rightarrow> request option" where
  "am_putAppRole name b = map_option (\<lambda>u. with_json b (rq PUT u)) (enc_url ''/v1/auth/approle/role/'' name '''')"

definition am_deleteAppRole :: "jsstring \<Rightarrow> request option" where
  "am_deleteAppRole name = map_option (rq DELETE) (enc_url ''/v1/auth/approle/role/'' name '''')"

definition am_generateSecretId :: "jsstring \<Rightarrow> request option" where
  "am_generateSecretId name = map_option (\<lambda>u. with_json (JObj []) (rq POST u)) (enc_url ''/v1/auth/approle/role/'' name ''/secret-id'')"

definition getJwtConfig :: "request" where
  "getJwtConfig = rq GET (js ''/v1/auth/jwt/config'')"

definition putJwtConfig :: "json \<Rightarrow> request" where
  "putJwtConfig b = with_json b (rq PUT (js ''/v1/auth/jwt/config''))"

definition listJwtRoles :: "request" where
  "listJwtRoles = listRequest (js ''/v1/auth/jwt/role/'')"

definition getJwtRole :: "jsstring \<Rightarrow> request option" where
  "getJwtRole name = map_option (rq GET) (enc_url ''/v1/auth/jwt/role/'' name '''')"

definition putJwtRole :: "jsstring \<Rightarrow> json \<Rightarrow> request option" where
  "putJwtRole name b = map_option (\<lambda>u. with_json b (rq PUT u)) (enc_url ''/v1/auth/jwt/role/'' name '''')"

definition deleteJwtRole :: "jsstring \<Rightarrow> request option" where
  "deleteJwtRole name = map_option (rq DELETE) (enc_url ''/v1/auth/jwt/role/'' name '''')"

definition getLdapConfig :: "request" where
  "getLdapConfig = rq GET (js ''/v1/auth/ldap/config'')"

definition putLdapConfig :: "json \<Rightarrow> request" where
  "putLdapConfig b = with_json b (rq PUT (js ''/v1/auth/ldap/config''))"

definition listLdapRoles :: "request" where
  "listLdapRoles = listRequest (js ''/v1/auth/ldap/role/'')"

definition getLdapRole :: "jsstring \<Rightarrow> request option" where
  "getLdapRole name = map_option (rq GET) (enc_url ''/v1/auth/ldap/role/'' name '''')"

definition putLdapRole :: "jsstring \<Rightarrow> json \<Rightarrow> request option" where
  "putLdapRole name b = map_option (\<lambda>u. with_json b (rq PUT u)) (enc_url ''/v1/auth/ldap/role/'' name '''')"

definition deleteLdapRole :: "jsstring \<Rightarrow> request option" where
  "deleteLdapRole name = map_option (rq DELETE) (enc_url ''/v1/auth/ldap/role/'' name '''')"

text \<open>The empty cluster name is the default cluster.\<close>

definition k8sBase :: "jsstring \<Rightarrow> jsstring option" where
  "k8sBase cluster =
     (if cluster \<noteq> [] then enc_url ''/v1/auth/kubernetes/clusters/'' cluster ''/role''
      else Some (js ''/v1/auth/kubernetes/role''))"

definition k8s_url :: "jsstring \<Rightarrow> jsstring \<Rightarrow> jsstring \<Rightarrow> jsstring option" where
  "k8s_url cluster ns sa =
     (case k8sBase cluster of None \<Rightarrow> None | Some b \<Rightarrow>
     (case encodeURIComponent ns of None \<Rightarrow> None | Some n \<Rightarrow>
     (case encodeURIComponent sa of None \<Rightarrow> None | Some s \<Rightarrow> Some (b @ js ''/'' @ n @ js ''/'' @ s))))"

definition am_listK8sClusters :: "request" where
  "am_listK8sClusters = rq GET (js ''/v1/auth/kubernetes/clusters'')"

definition am_getK8sRole :: "jsstring \<Rightarrow> jsstring \<Rightarrow> jsstring \<Rightarrow> request option" where
  "am_getK8sRole cluster ns sa = map_option (rq GET) (k8s_url cluster ns sa)"

definition am_putK8sRole :: "jsstring \<Rightarrow> jsstring \<Rightarrow> jsstring \<Rightarrow> json \<Rightarrow> request option" where
  "am_putK8sRole cluster ns sa b = map_option (\<lambda>u. with_json b (rq PUT u)) (k8s_url cluster ns sa)"

definition am_deleteK8sRole :: "jsstring \<Rightarrow> jsstring \<Rightarrow> jsstring \<Rightarrow> request option" where
  "am_deleteK8sRole cluster ns sa = map_option (rq DELETE) (k8s_url cluster ns sa)"

definition k8sRolePath :: "jsstring \<Rightarrow> jsstring \<Rightarrow> jsstring \<Rightarrow> jsstring option" where
  "k8sRolePath cluster ns sa = map_option (\<lambda>b. b @ js ''/'' @ ns @ js ''/'' @ sa) (k8sBase cluster)"

section \<open>Failed requests\<close>

text \<open>
  What a rejected call carries: an axios error with an optional response, another \<open>Error\<close>, or something else.
\<close>

record response =
  rs_status :: nat
  rs_error :: "jsstring option"
  rs_cas_required :: bool
  rs_namespaces :: "jsstring list option"
  rs_leader_addr :: "jsstring option"

datatype failure = AxiosError "response option" jsstring | OtherError jsstring | Thrown jsstring

fun status :: "failure \<Rightarrow> nat option" where
  "status (AxiosError r m) = map_option rs_status r"
| "status _ = None"

fun serverMessage :: "failure \<Rightarrow> jsstring option" where
  "serverMessage (AxiosError r m) = (case r of
      Some x \<Rightarrow> (case rs_error x of Some e \<Rightarrow> Some e | None \<Rightarrow> Some m) | None \<Rightarrow> Some m)"
| "serverMessage (OtherError m) = Some m"
| "serverMessage (Thrown x) = None"

definition retryUnlessDenied :: "nat \<Rightarrow> failure \<Rightarrow> bool" where
  "retryUnlessDenied n err = (status err \<noteq> Some 403 \<and> status err \<noteq> Some 404 \<and> n < 2)"

text \<open>The KV v2 page reads the same fields without asking whether the error is from axios.\<close>

fun errMessage :: "failure \<Rightarrow> jsstring" where
  "errMessage (AxiosError r m) = (case r of
      Some x \<Rightarrow> (case rs_error x of Some e \<Rightarrow> e | None \<Rightarrow> m) | None \<Rightarrow> m)"
| "errMessage (OtherError m) = m"
| "errMessage (Thrown x) = []"

definition errStatus :: "failure \<Rightarrow> nat option" where
  "errStatus err = status err"

definition isCasRequiredError :: "failure \<Rightarrow> bool" where
  "isCasRequiredError err = (errStatus err = Some 400 \<and>
     (case err of AxiosError (Some x) m \<Rightarrow> rs_cas_required x | _ \<Rightarrow> False))"

fun apiError :: "failure \<Rightarrow> jsstring option" where
  "apiError (AxiosError r m) = (case r of Some x \<Rightarrow> rs_error x | None \<Rightarrow> None)"
| "apiError _ = None"

section \<open>What a name can do to a URL\<close>

definition encoded_endpoints :: "((jsstring \<Rightarrow> request option) \<times> string \<times> string) list" where
  "encoded_endpoints =
     [(lookupToken, ''/v1/auth/token/'', []), (revokeToken, ''/v1/auth/token/'', []),
      (lookupTokenInfo, ''/v1/auth/token/'', []), (\<lambda>n. renewTokenById n None, ''/v1/auth/token/'', ''/renew''),
      (downloadStoredSnapshot, ''/v1/sys/cluster/snapshot/'', []),
      (revokeWrapByAccessor, ''/v1/sys/wrapping/revoke-accessor/'', []),
      (am_getAppRole, ''/v1/auth/approle/role/'', []), (am_deleteAppRole, ''/v1/auth/approle/role/'', []),
      (am_generateSecretId, ''/v1/auth/approle/role/'', ''/secret-id''),
      (getJwtRole, ''/v1/auth/jwt/role/'', []), (deleteJwtRole, ''/v1/auth/jwt/role/'', []),
      (getLdapRole, ''/v1/auth/ldap/role/'', []), (deleteLdapRole, ''/v1/auth/ldap/role/'', [])]"

lemmas encoded_endpoint_defs =
  lookupToken_def revokeToken_def lookupTokenInfo_def renewTokenById_def downloadStoredSnapshot_def
  revokeWrapByAccessor_def am_getAppRole_def am_deleteAppRole_def am_generateSecretId_def getJwtRole_def
  deleteJwtRole_def getLdapRole_def deleteLdapRole_def

lemma rq_simps [simp]:
  "rq_url (rq m u) = u" "rq_url (with_json b r) = rq_url r" "rq_url (with_params ps r) = rq_url r"
  "rq_method (rq m u) = m" "rq_method (with_json b r) = rq_method r" "rq_method (with_params ps r) = rq_method r"
  by (simp_all add: rq_def with_json_def with_params_def)

lemma encoded_no_delimiter:
  "encodeURIComponent n = Some e \<Longrightarrow> jc CHR ''/'' \<notin> set e \<and> jc CHR ''?'' \<notin> set e \<and> jc CHR ''#'' \<notin> set e"
proof -
  assume e: "encodeURIComponent n = Some e"
  have "\<not> uri_unreserved c \<and> c \<noteq> percent" if "c = jc CHR ''/'' \<or> c = jc CHR ''?'' \<or> c = jc CHR ''#''" for c
    using that by (auto simp: uri_unreserved_def in_range_def is_digit_def percent_def)
  with encode_chars [OF e] show ?thesis by blast
qed

lemma enc_url_cases:
  assumes "enc_url pre name post = Some u"
  obtains e where "u = js pre @ e @ js post" "encodeURIComponent name = Some e"
  using assms by (auto simp: enc_url_def)



lemma k8s_url_segments:
  assumes "k8s_url cluster ns sa = Some u"
  obtains c n s where "encodeURIComponent cluster = Some c \<or> cluster = []" "encodeURIComponent ns = Some n" "encodeURIComponent sa = Some s"
    "split_on (jc CHR ''/'') u = map js (if cluster = [] then [[], ''v1'', ''auth'', ''kubernetes'', ''role'']
       else [[], ''v1'', ''auth'', ''kubernetes'', ''clusters'']) @ (if cluster = [] then [] else [c, js ''role'']) @ [n, s]"
proof -
  obtain b n s where bns: "k8sBase cluster = Some b" "encodeURIComponent ns = Some n" "encodeURIComponent sa = Some s"
      "u = b @ js ''/'' @ n @ js ''/'' @ s"
    using assms by (auto simp: k8s_url_def split: option.splits)
  have ns: "jc CHR ''/'' \<notin> set n" "jc CHR ''/'' \<notin> set s" using bns encoded_no_delimiter by blast+
  show ?thesis
  proof (cases "cluster = []")
    case True
    then have "u = js ''/v1/auth/kubernetes/role/'' @ n @ jc CHR ''/'' # s" using bns by (simp add: k8sBase_def)
    then have "split_on (jc CHR ''/'') u = map js [[], ''v1'', ''auth'', ''kubernetes'', ''role''] @ [n, s]"
      using split_on_append_sep [OF ns(1), of s] split_on_sep_free [OF ns(2)] by simp
    with True bns that show ?thesis by simp
  next
    case False
    then obtain c where c: "encodeURIComponent cluster = Some c" "b = js ''/v1/auth/kubernetes/clusters/'' @ c @ js ''/role''"
      using bns(1) by (auto simp: k8sBase_def elim!: enc_url_cases)
    have cs: "jc CHR ''/'' \<notin> set c" using c encoded_no_delimiter by blast
    have "u = js ''/v1/auth/kubernetes/clusters/'' @ c @ jc CHR ''/'' # js ''role/'' @ n @ jc CHR ''/'' # s"
      using bns c by simp
    then have "split_on (jc CHR ''/'') u = map js [[], ''v1'', ''auth'', ''kubernetes'', ''clusters''] @ [c, js ''role'', n, s]"
      using split_on_append_sep [OF ns(1), of s] split_on_sep_free [OF ns(2)]
        split_on_append_sep [OF cs, of "js ''role/'' @ n @ jc CHR ''/'' # s"] by simp
    with False bns c that show ?thesis by simp
  qed
qed

lemma encode_inj: "encodeURIComponent a = Some e \<Longrightarrow> encodeURIComponent b = Some e \<Longrightarrow> a = b"
  using decode_encodeURIComponent by (metis option.inject)

text \<open>
  No two Kubernetes roles share a URL: cluster, namespace and service account can be read back from it.
\<close>

theorem k8s_url_injective:
  assumes "k8s_url c n s = Some u" "k8s_url c' n' s' = Some u"
  shows "c = c' \<and> n = n' \<and> s = s'"
proof -
  obtain ec en es where 1: "encodeURIComponent c = Some ec \<or> c = []" "encodeURIComponent n = Some en" "encodeURIComponent s = Some es"
    "split_on (jc CHR ''/'') u = map js (if c = [] then [[], ''v1'', ''auth'', ''kubernetes'', ''role'']
       else [[], ''v1'', ''auth'', ''kubernetes'', ''clusters'']) @ (if c = [] then [] else [ec, js ''role'']) @ [en, es]"
    using assms(1) by (rule k8s_url_segments)
  obtain fc fn fs where 2: "encodeURIComponent c' = Some fc \<or> c' = []" "encodeURIComponent n' = Some fn" "encodeURIComponent s' = Some fs"
    "split_on (jc CHR ''/'') u = map js (if c' = [] then [[], ''v1'', ''auth'', ''kubernetes'', ''role'']
       else [[], ''v1'', ''auth'', ''kubernetes'', ''clusters'']) @ (if c' = [] then [] else [fc, js ''role'']) @ [fn, fs]"
    using assms(2) by (rule k8s_url_segments)
  show ?thesis using 1 2 encode_inj by (cases "c = []"; cases "c' = []") (auto simp del: js_simps)
qed

theorem k8s_url_injective_witness:
  "\<exists>u. k8s_url [] (js ''default'') (js ''app'') = Some u \<and> (\<nexists>c. k8s_url c (js ''kube-system'') (js ''app'') = Some u)"
proof -
  have e: "encodeURIComponent (js ''default'') = Some (js ''default'')" "encodeURIComponent (js ''app'') = Some (js ''app'')"
    by (rule encode_unreserved; simp add: uri_unreserved_def in_range_def)+
  then obtain u where u: "k8s_url [] (js ''default'') (js ''app'') = Some u" by (simp add: k8s_url_def k8sBase_def)
  have "js ''default'' \<noteq> js ''kube-system''" by simp
  with k8s_url_injective [OF u] u show ?thesis by blast
qed

end
