(* ===== verification/Policy_Editor.thy ===== *)
theory Policy_Editor
  imports Policy_Text Js_Json Api_Client
begin

text \<open>
  The policies page: drafts (\<open>policies.page.tsx\<close>), the list filter, the new-policy dialog, and the editor with its
  matrix, samples and syntax highlighter (\<open>policy-editor.tsx\<close> and the last part of \<open>policy-text.ts\<close>).

  The drafts are plain objects, so reading one under a name also finds what an object inherits from \<open>Object.prototype\<close>;
  \<open>draft_get\<close> keeps the three outcomes apart.
\<close>

section \<open>Canonical form\<close>

definition canonical :: "(jsstring \<times> jsstring list) list \<Rightarrow> bool \<Rightarrow> jsstring" where
  "canonical rules inheritable = stringify (\<lambda>x. x)
     (JArr [JBool inheritable, JArr (map (\<lambda>(p, caps). JArr [JStr p, JArr (map JStr (ordered_caps caps))]) rules)])"

record policy =
  po_name :: jsstring
  po_rules :: "policy_rule list option"
  po_inheritable :: "bool option"

definition serverCanon :: "policy \<Rightarrow> jsstring" where
  "serverCanon p = canonical (map (\<lambda>r. (nullish (rule_path r) [], nullish (rule_capabilities r) []))
     (nullish (po_rules p) [])) (nullish (po_inheritable p) False)"

definition parsed_pairs :: "parsed_rule list \<Rightarrow> (jsstring \<times> jsstring list) list" where
  "parsed_pairs rs = map (\<lambda>r. (pr_path r, pr_caps r)) rs"

section \<open>Drafts\<close>

record draft =
  df_inh :: bool
  df_text :: jsstring

text \<open>Reading a property of a plain object: an own one, one of \<open>Object.prototype\<close>, or nothing.\<close>

datatype looked_up = Missing | Found draft | FromPrototype

definition draft_get :: "draft jsobj \<Rightarrow> jsstring \<Rightarrow> looked_up" where
  "draft_get ds k = (case map_of ds k of Some d \<Rightarrow> Found d | None \<Rightarrow> if k \<in> set proto_keys then FromPrototype else Missing)"

text \<open>\<open>({ [name]: _gone, ...rest }) => rest\<close>\<close>

definition draft_drop :: "jsstring \<Rightarrow> draft jsobj \<Rightarrow> draft jsobj" where
  "draft_drop k ds = filter (\<lambda>e. fst e \<noteq> k) ds"

text \<open>
  \<open>pp_server\<close> is the list the server last sent, \<open>pp_cache\<close> the bodies in the query cache and \<open>pp_failed\<close> the names
  whose body could not be loaded.
\<close>

record policies_page =
  pp_new :: "draft jsobj"
  pp_drafts :: "draft jsobj"
  pp_selected :: "jsstring option"
  pp_server :: "jsstring list"
  pp_cache :: "jsstring \<Rightarrow> policy option"
  pp_failed :: "jsstring list"

text \<open>\<open>usePolicyDetails\<close> asks for the names of the list only.\<close>

definition details_data :: "policies_page \<Rightarrow> jsstring \<Rightarrow> policy option" where
  "details_data s name = (if name \<in> set (pp_server s) then pp_cache s name else None)"

definition details_isError :: "policies_page \<Rightarrow> jsstring \<Rightarrow> bool" where
  "details_isError s name \<longleftrightarrow> name \<in> set (pp_server s) \<and> name \<in> set (pp_failed s)"

definition allNames :: "policies_page \<Rightarrow> jsstring list" where
  "allNames s = map fst (entries (pp_new s)) @ pp_server s"

definition first_name :: "jsstring list \<Rightarrow> jsstring option" where
  "first_name ns = (case ns of [] \<Rightarrow> None | n # _ \<Rightarrow> Some n)"

definition selected_name :: "policies_page \<Rightarrow> jsstring option" where
  "selected_name s = (case pp_selected s of
      Some n \<Rightarrow> if n \<noteq> [] \<and> n \<in> set (allNames s) then Some n else first_name (allNames s)
    | None \<Rightarrow> first_name (allNames s))"

definition server_draft :: "policy \<Rightarrow> draft" where
  "server_draft d = \<lparr>df_inh = nullish (po_inheritable d) False, df_text = rulesToText (po_rules d)\<rparr>"

definition current :: "policies_page \<Rightarrow> jsstring \<Rightarrow> looked_up" where
  "current s name = (case draft_get (pp_new s) name of
      Missing \<Rightarrow> (case draft_get (pp_drafts s) name of
          Missing \<Rightarrow> (case details_data s name of Some d \<Rightarrow> Found (server_draft d) | None \<Rightarrow> Missing)
        | x \<Rightarrow> x)
    | x \<Rightarrow> x)"

text \<open>
  \<open>cur ? parsePolicy(cur.text) : null\<close>: what is found on the prototype has no \<open>text\<close>, and \<open>undefined.split\<close>
  throws, which \<open>Inl\<close> stands for.
\<close>

definition parse_current :: "looked_up \<Rightarrow> unit + parsed option" where
  "parse_current l = (case l of Missing \<Rightarrow> Inr None | Found d \<Rightarrow> Inr (Some (parsePolicy (df_text d))) | FromPrototype \<Rightarrow> Inl ())"

record policy_row =
  rw_dirty :: bool
  rw_failed :: bool
  rw_isNew :: bool
  rw_name :: jsstring
  rw_parsed :: "parsed option"

definition is_dirty :: "policies_page \<Rightarrow> jsstring \<Rightarrow> parsed option \<Rightarrow> bool" where
  "is_dirty s name parsed =
     (case (draft_get (pp_new s) name, draft_get (pp_drafts s) name, details_data s name, parsed) of
        (Missing, Found d, Some data, Some p) \<Rightarrow> canonical (parsed_pairs (p_rules p)) (df_inh d) \<noteq> serverCanon data
      | _ \<Rightarrow> False)"

definition row_of :: "policies_page \<Rightarrow> jsstring \<Rightarrow> unit + policy_row" where
  "row_of s name = (case parse_current (current s name) of
      Inl e \<Rightarrow> Inl e
    | Inr parsed \<Rightarrow> let isNew = (draft_get (pp_new s) name \<noteq> Missing) in
        Inr \<lparr>rw_dirty = is_dirty s name parsed, rw_failed = (\<not> isNew \<and> details_isError s name), rw_isNew = isNew,
          rw_name = name, rw_parsed = parsed\<rparr>)"

text \<open>The rows of the page; one that throws makes the render throw.\<close>

fun rows_render :: "policies_page \<Rightarrow> jsstring list \<Rightarrow> unit + policy_row list" where
  "rows_render s [] = Inr []"
| "rows_render s (n # ns) = (case row_of s n of Inl e \<Rightarrow> Inl e
     | Inr r \<Rightarrow> (case rows_render s ns of Inl e \<Rightarrow> Inl e | Inr rs \<Rightarrow> Inr (r # rs)))"

definition policy_totals :: "policy_row list \<Rightarrow> nat \<times> nat" where
  "policy_totals rs = (let rules = concat (map (\<lambda>r. case rw_parsed r of Some p \<Rightarrow> p_rules p | None \<Rightarrow> []) rs)
     in (length (filter (\<lambda>x. js ''deny'' \<in> set (pr_caps x)) rules), length rules))"

text \<open>
  The handlers run on a page that rendered, so \<open>current\<close> never found a prototype property in them; that branch leaves
  the state alone.
\<close>

definition patchDraft :: "jsstring \<Rightarrow> (draft \<Rightarrow> draft) \<Rightarrow> policies_page \<Rightarrow> policies_page" where
  "patchDraft name patch s = (case current s name of
      Found base \<Rightarrow>
        (if draft_get (pp_new s) name \<noteq> Missing then s\<lparr>pp_new := obj_put name (patch base) (pp_new s)\<rparr>
         else s\<lparr>pp_drafts := obj_put name (patch base) (pp_drafts s)\<rparr>)
    | _ \<Rightarrow> s)"

text \<open>\<open>save\<close>: the policy that is sent, when there is one to send, and its request; then what its success does.\<close>

definition save_policy :: "jsstring \<Rightarrow> policies_page \<Rightarrow> policy option" where
  "save_policy name s = (case current s name of
      Found cur \<Rightarrow> (let parsed = parsePolicy (df_text cur) in
        if 0 < p_errors parsed then None
        else Some \<lparr>po_name = name, po_rules = Some (saved_rules (p_rules parsed)), po_inheritable = Some (df_inh cur)\<rparr>)
    | _ \<Rightarrow> None)"

definition save_onSuccess :: "policy \<Rightarrow> policies_page \<Rightarrow> policies_page" where
  "save_onSuccess p s = s\<lparr>pp_cache := (pp_cache s)(po_name p \<mapsto> p), pp_new := draft_drop (po_name p) (pp_new s),
     pp_drafts := draft_drop (po_name p) (pp_drafts s)\<rparr>"

text \<open>The list query answers, at first and after each \<open>invalidateQueries\<close>.\<close>

definition list_loaded :: "jsstring list \<Rightarrow> policies_page \<Rightarrow> policies_page" where
  "list_loaded names s = s\<lparr>pp_server := names\<rparr>"

definition reset_draft :: "jsstring \<Rightarrow> policies_page \<Rightarrow> policies_page" where
  "reset_draft name s =
     (if draft_get (pp_new s) name \<noteq> Missing then s\<lparr>pp_new := draft_drop name (pp_new s)\<rparr>
      else s\<lparr>pp_drafts := draft_drop name (pp_drafts s)\<rparr>)"

text \<open>\<open>remove\<close> after \<open>deletePolicy\<close> answered; a failure changes nothing and is rethrown.\<close>

definition remove_policy :: "bool \<Rightarrow> jsstring \<Rightarrow> policies_page \<Rightarrow> policies_page" where
  "remove_policy ok name s = (if ok
     then s\<lparr>pp_cache := (pp_cache s)(name := None), pp_drafts := draft_drop name (pp_drafts s)\<rparr> else s)"

definition create_draft :: "bool \<Rightarrow> jsstring \<Rightarrow> template_id option \<Rightarrow> policies_page \<Rightarrow> policies_page" where
  "create_draft inheritable name tpl s =
     s\<lparr>pp_new := fold (\<lambda>(k, v). obj_put k v) (entries (pp_new s))
         [(name, \<lparr>df_inh = inheritable,
            df_text = (case tpl of Some t \<Rightarrow> fmtRule (template_path t) (template_caps t) | None \<Rightarrow> [])\<rparr>)],
       pp_selected := Some name\<rparr>"

datatype new_policy_error = PEmpty | PReserved jsstring | PFormat | PExists jsstring

definition new_policy_error :: "jsstring list \<Rightarrow> jsstring \<Rightarrow> new_policy_error option" where
  "new_policy_error existing name =
     (let v = trim name in
      if v = [] then Some PEmpty
      else if v \<in> set RESERVED_NAMES then Some (PReserved v)
      else if \<not> test NAME_RE v then Some PFormat
      else if v \<in> set existing then Some (PExists v) else None)"

datatype list_filter = FAll | FDeny | FChanged | FErrors

definition visible_rows :: "jsstring \<Rightarrow> list_filter \<Rightarrow> policy_row list \<Rightarrow> policy_row list" where
  "visible_rows q f rs =
     (let needle = lower (trim q) in
      filter (\<lambda>r. (needle = [] \<or> includes_str (lower (rw_name r)) needle) \<and>
        (case f of
           FDeny \<Rightarrow> (case rw_parsed r of Some p \<Rightarrow> list_ex (\<lambda>x. js ''deny'' \<in> set (pr_caps x)) (p_rules p) | None \<Rightarrow> False)
         | FChanged \<Rightarrow> rw_dirty r \<or> rw_isNew r
         | FErrors \<Rightarrow> (case rw_parsed r of Some p \<Rightarrow> 0 < p_errors p | None \<Rightarrow> False)
         | FAll \<Rightarrow> True)) rs)"

text \<open>\<open>useTokenUsage\<close>: the tokens among the first hundred whose lookup succeeds and names the policy.\<close>

definition TOKEN_SCAN_LIMIT :: nat where "TOKEN_SCAN_LIMIT = 100"

record token_info =
  ti_policies :: "jsstring list option"
  ti_display_name :: "jsstring option"

definition token_usage :: "jsstring \<Rightarrow> jsstring list \<Rightarrow> (jsstring \<Rightarrow> token_info option) \<Rightarrow> jsstring list \<times> nat \<times> nat" where
  "token_usage name ids lookup =
     (let slice = take TOKEN_SCAN_LIMIT ids;
          bound = concat (map (\<lambda>i. case lookup i of
              Some t \<Rightarrow> if name \<in> set (nullish (ti_policies t) [])
                then [or_str (ti_display_name t) (take 8 i @ ellipsis)] else []
            | None \<Rightarrow> []) slice)
      in (bound, length slice, length ids))"

section \<open>The editor\<close>

definition new_line :: jschar where "new_line = jc CHR ''\<newline>''"

definition text_lines :: "jsstring \<Rightarrow> jsstring list" where
  "text_lines src = split_on new_line src"

definition of_lines :: "jsstring list \<Rightarrow> jsstring" where
  "of_lines ls = join [new_line] ls"

definition toggled_caps :: "jsstring \<Rightarrow> jsstring list \<Rightarrow> jsstring list" where
  "toggled_caps c caps =
     (if c \<in> set caps then remove1 c caps
      else if c = js ''deny'' then [js ''deny''] else caps @ [c])"

definition toggleCap :: "jsstring \<Rightarrow> parsed_rule \<Rightarrow> jsstring \<Rightarrow> jsstring" where
  "toggleCap src r c = of_lines ((text_lines src)[pr_line r := fmtRule (pr_path r) (toggled_caps c (pr_caps r))])"

definition removeRule :: "jsstring \<Rightarrow> parsed_rule \<Rightarrow> jsstring" where
  "removeRule src r = of_lines (take (pr_line r) (text_lines src) @ drop (Suc (pr_line r)) (text_lines src))"

definition setRulePath :: "jsstring \<Rightarrow> parsed_rule \<Rightarrow> jsstring \<Rightarrow> jsstring" where
  "setRulePath src r v = of_lines ((text_lines src)
     [pr_line r := fmtRule (filter (\<lambda>c. c \<noteq> jc CHR ''\"'' \<and> c \<noteq> new_line) v) (pr_caps r)])"

text \<open>The new text and the line it flashes.\<close>

definition appendLine :: "jsstring \<Rightarrow> jsstring \<Rightarrow> jsstring \<times> nat" where
  "appendLine src line =
     (let base = trim_end src; next = (if base \<noteq> [] then base @ [new_line] else []) @ line
      in (next, length (text_lines next) - 1))"

definition addTemplate :: "jsstring \<Rightarrow> template_id \<Rightarrow> jsstring \<times> nat" where
  "addTemplate src t = appendLine src (fmtRule (template_path t) (template_caps t))"

text \<open>The samples of the tester: at most six, each key \<open>path|cap\<close> once.\<close>

fun samples_from :: "jsstring list \<Rightarrow> (jsstring \<times> jsstring) list \<Rightarrow> parsed_rule list \<Rightarrow> (jsstring \<times> jsstring) list" where
  "samples_from seen out [] = out"
| "samples_from seen out (r # rs) =
     (if pr_path r = [] \<or> hd (pr_path r) = jc CHR ''/'' then samples_from seen out rs
      else let path = samplePath (pr_path r);
               cap = nullish (find (\<lambda>c. c \<noteq> js ''deny'') (pr_caps r)) (js ''read'');
               key = path @ js ''|'' @ cap in
        if key \<in> set seen then samples_from seen out rs
        else if 6 \<le> length (out @ [(cap, path)]) then out @ [(cap, path)]
        else samples_from (key # seen) (out @ [(cap, path)]) rs)"

definition samples :: "parsed_rule list \<Rightarrow> (jsstring \<times> jsstring) list" where
  "samples rs = samples_from [] [] rs"

text \<open>What the tester asks: what the user typed, or else the first sample.\<close>

record tester =
  te_path :: "jsstring option"
  te_cap :: "jsstring option"

definition tester_path :: "tester \<Rightarrow> parsed_rule list \<Rightarrow> jsstring" where
  "tester_path t rs = trim (nullish (te_path t) (case samples rs of [] \<Rightarrow> [] | s # _ \<Rightarrow> snd s))"

definition tester_cap :: "tester \<Rightarrow> parsed_rule list \<Rightarrow> jsstring" where
  "tester_cap t rs = nullish (te_cap t) (case samples rs of [] \<Rightarrow> js ''read'' | s # _ \<Rightarrow> fst s)"

definition tester_ev :: "tester \<Rightarrow> parsed_rule list \<Rightarrow> evaluation option" where
  "tester_ev t rs = (if tester_path t rs = [] then None else Some (evaluate rs (tester_path t rs) (tester_cap t rs)))"

definition userPath :: "jsstring \<Rightarrow> parsed_rule list \<Rightarrow> tester \<Rightarrow> tester" where
  "userPath v rs t = t\<lparr>te_cap := Some (tester_cap t rs), te_path := Some v\<rparr>"

definition userCap :: "jsstring \<Rightarrow> parsed_rule list \<Rightarrow> tester \<Rightarrow> tester" where
  "userCap c rs t = t\<lparr>te_path := Some (nullish (te_path t) (tester_path t rs)), te_cap := Some c\<rparr>"

definition userSample :: "jsstring \<Rightarrow> jsstring \<Rightarrow> tester \<Rightarrow> tester" where
  "userSample p c t = t\<lparr>te_path := Some p, te_cap := Some c\<rparr>"

text \<open>The worst severity of a line, and the order of the diagnostics: errors first, then by line.\<close>

definition line_sev :: "diag list \<Rightarrow> nat \<Rightarrow> sev option" where
  "line_sev ds i = fold (\<lambda>d m. if d_line d = i \<and> m \<noteq> Some SevE then Some (d_sev d) else m) ds None"

definition diag_cmp :: "diag \<Rightarrow> diag \<Rightarrow> int" where
  "diag_cmp a b = (if d_sev a = d_sev b then int (d_line a) - int (d_line b) else if d_sev a = SevE then -1 else 1)"

definition sortedDiags :: "diag list \<Rightarrow> diag list" where
  "sortedDiags ds = sort_by diag_cmp ds"

definition hiddenErrLines :: "parsed \<Rightarrow> nat" where
  "hiddenErrLines p = length (remdups (map d_line (filter (\<lambda>d. d_sev d = SevE \<and> d_line d \<notin> pr_line ` set (p_rules p)) (p_diags p))))"

text \<open>The caret after the first \<open>n\<close> code units, and the selection of a line.\<close>

definition caret_of :: "jsstring \<Rightarrow> nat \<Rightarrow> nat \<times> nat" where
  "caret_of src n = (let before = text_lines (take n src) in (length before - 1, length (last before) + 1))"

text \<open>\<open>gotoLine\<close>: the selected range; reading a line past the end throws.\<close>

definition gotoLine :: "jsstring \<Rightarrow> nat \<Rightarrow> (nat \<times> nat) option" where
  "gotoLine src i =
     (let ls = text_lines src; pos = sum_list (map (\<lambda>l. length l + 1) (take i ls)) in
      if length ls < i then None else Some (pos, pos + (if i < length ls then length (ls ! i) else 0)))"

text \<open>The segments of the tested path, and which of them the deciding rule covers.\<close>

definition tester_segs :: "jsstring \<Rightarrow> jsstring list" where
  "tester_segs path = (let trimmed = trim path in if trimmed = [] then [] else split_on (jc CHR ''/'') trimmed)"

definition list_index :: "'a \<Rightarrow> 'a list \<Rightarrow> nat option" where
  "list_index x xs = (let n = length (takeWhile (\<lambda>y. y \<noteq> x) xs) in if n < length xs then Some n else None)"

definition seg_covered :: "evaluation option \<Rightarrow> nat \<Rightarrow> jsstring \<Rightarrow> bool" where
  "seg_covered ev i seg = (case ev of None \<Rightarrow> False | Some e \<Rightarrow> (case ev_rule e of None \<Rightarrow> False | Some r \<Rightarrow>
     (let rulePath = split_on (jc CHR ''/'') (pr_path r) in
      (case list_index (js ''**'') rulePath of Some st \<Rightarrow> st \<le> i | None \<Rightarrow> False) \<or>
      (i < length rulePath \<and> (rulePath ! i = js ''*'' \<or> rulePath ! i = seg \<or> globMatch (rulePath ! i) seg)))))"

text \<open>The name the delete dialog asks for, when the tokens that use the policy are not known to be none.\<close>

definition confirmName :: "jsstring option \<Rightarrow> jsstring list option \<Rightarrow> jsstring option" where
  "confirmName deleting bound = (case deleting of None \<Rightarrow> None
     | Some d \<Rightarrow> if d \<noteq> [] \<and> (bound = None \<or> 0 < length (nullish bound [])) then Some d else None)"

section \<open>Syntax highlighting\<close>

datatype seg_kind = SegC | SegCap | SegCapBad | SegCapDeny | SegK | SegKw2 | SegP | SegS | SegText

datatype part_kind = Badp | PartG

record seg =
  sg_kind :: seg_kind
  sg_text :: jsstring
  sg_parts :: "(part_kind option \<times> jsstring) list option"

text \<open>\<open>/(#.*$)|("[^"]*"?)|\b(path|capabilities)\b|([{}[\]=,])/g\<close>\<close>

definition TOK :: re where
  "TOK = Alt (Grp 1 (Seq (Lit (js ''#'')) (Seq (Star (Cls (\<lambda>c. \<not> is_line_terminator c))) Eol)))
    (Alt (Grp 2 (Seq (Lit (js ''\"'')) (Seq (Star (Cls not_quote)) (Opt (Lit (js ''\"''))))))
    (Alt (Seq WordB (Seq (Grp 3 (Alt (Lit (js ''path'')) (Lit (js ''capabilities'')))) WordB))
      (Grp 4 (Cls (one_of ''{}[]=,'')))))"

text \<open>\<open>str.split(/(\*+|\+)/)\<close> without the empty pieces: runs of stars, single plus signs, and the text between.\<close>

function glob_pieces :: "jsstring \<Rightarrow> jsstring list" where
  "glob_pieces [] = []"
| "glob_pieces (c # s) =
     (if c = jc CHR ''*'' then (c # takeWhile (\<lambda>d. d = jc CHR ''*'') s) # glob_pieces (dropWhile (\<lambda>d. d = jc CHR ''*'') s)
      else if c = jc CHR ''+'' then [c] # glob_pieces s
      else (c # takeWhile (\<lambda>d. d \<noteq> jc CHR ''*'' \<and> d \<noteq> jc CHR ''+'') s) #
        glob_pieces (dropWhile (\<lambda>d. d \<noteq> jc CHR ''*'' \<and> d \<noteq> jc CHR ''+'') s))"
  by pat_completeness auto

termination
  by (relation "measure length") (auto simp: le_imp_less_Suc length_dropWhile_le)

definition part_of :: "jsstring \<Rightarrow> part_kind option \<times> jsstring" where
  "part_of piece = (if piece \<noteq> [] \<and> hd piece = jc CHR ''*'' then Some PartG
     else if piece = js ''+'' then Some Badp else None, piece)"

definition strip_quotes :: "jsstring \<Rightarrow> jsstring" where
  "strip_quotes s =
     (let a = (if starts_with s (js ''\"'') then tl s else s)
      in if a \<noteq> [] \<and> last a = jc CHR ''\"'' then butlast a else a)"

definition str_seg :: "bool \<Rightarrow> jsstring \<Rightarrow> seg" where
  "str_seg inCaps str =
     (if inCaps then
        (let inner = strip_quotes str in
         \<lparr>sg_kind = (if inner \<in> set CAPS then (if inner = js ''deny'' then SegCapDeny else SegCap) else SegCapBad),
          sg_text = str, sg_parts = None\<rparr>)
      else \<lparr>sg_kind = SegS, sg_text = str, sg_parts = Some (map part_of (glob_pieces str))\<rparr>)"

text \<open>The segments of one token and the flag \<open>inCaps\<close> after it.\<close>

definition tok_seg :: "bool \<Rightarrow> jsstring \<Rightarrow> captures \<Rightarrow> seg list \<times> bool" where
  "tok_seg inCaps whole c =
     (if truthy_str (c 1) then ([\<lparr>sg_kind = SegC, sg_text = whole, sg_parts = None\<rparr>], inCaps)
      else if truthy_str (c 3) then
        ([\<lparr>sg_kind = (if c 3 = Some (js ''path'') then SegK else SegKw2), sg_text = the (c 3), sg_parts = None\<rparr>],
         inCaps \<or> c 3 = Some (js ''capabilities''))
      else if truthy_str (c 4) then
        ([\<lparr>sg_kind = SegP, sg_text = the (c 4), sg_parts = None\<rparr>], inCaps \<and> c 4 \<noteq> Some (js '']''))
      else if truthy_str (c 2) then ([str_seg inCaps (the (c 2))], inCaps)
      else ([], inCaps))"

definition text_seg :: "jsstring \<Rightarrow> seg list" where
  "text_seg s = (if s = [] then [] else [\<lparr>sg_kind = SegText, sg_text = s, sg_parts = None\<rparr>])"

lemma TOK_parts:
  "re_groups (Seq (Lit (js ''#'')) (Seq (Star (Cls P)) Eol)) = []" "consumes (Seq (Lit (js ''#'')) r)"
  "re_groups (Seq (Lit (js ''\"'')) (Seq (Star (Cls P)) (Opt (Lit (js ''\"''))))) = []" "consumes (Seq (Lit (js ''\"'')) r)"
  "re_groups (Alt (Lit (js ''path'')) (Lit (js ''capabilities''))) = []" "consumes (Alt (Lit (js ''path'')) (Lit (js ''capabilities'')))"
  by (simp_all add: Opt_def) (intro consumes_Seq consumes_Alt; simp)+

text \<open>Every token is a non-empty text and is the value of exactly one of the four groups.\<close>

lemma TOK_matches:
  assumes "(rev w @ b, a, c) \<in> set (matches TOK (b, w @ a, Map.empty))"
  shows "w \<noteq> [] \<and> (\<exists>n\<in>{1, 2, 3, 4}. c = [n \<mapsto> w])"
proof -
  let ?m = "(b, w @ a, Map.empty)" and ?m' = "(rev w @ b, a, c)"
  let ?r1 = "Seq (Lit (js ''#'')) (Seq (Star (Cls (\<lambda>c. \<not> is_line_terminator c))) Eol)"
  let ?r2 = "Seq (Lit (js ''\"'')) (Seq (Star (Cls not_quote)) (Opt (Lit (js ''\"''))))"
  let ?r3 = "Alt (Lit (js ''path'')) (Lit (js ''capabilities''))"
  consider "?m' \<in> set (matches (Grp 1 ?r1) ?m)" | "?m' \<in> set (matches (Grp 2 ?r2) ?m)"
    | "?m' \<in> set (matches (Seq WordB (Seq (Grp 3 ?r3) WordB)) ?m)" | "?m' \<in> set (matches (Grp 4 (Cls (one_of ''{}[]=,''))) ?m)"
    using assms unfolding TOK_def matches.simps(4) set_append Un_iff by blast
  then show ?thesis
  proof cases
    case 1 from Grp_matches [OF this TOK_parts(1,2)] show ?thesis by blast
  next
    case 2 from Grp_matches [OF this TOK_parts(3,4)] show ?thesis by blast
  next
    case 3
    then have "?m' \<in> set (matches (Grp 3 ?r3) ?m)"
      unfolding matches.simps(3,9) set_concat set_map by (auto simp del: matches.simps split: if_splits)
    from Grp_matches [OF this TOK_parts(5,6)] show ?thesis by blast
  next
    case 4 from Grp_matches [OF this] show ?thesis by simp
  qed
qed

lemma exec_TOK:
  assumes "exec_at TOK b a = Some (b', w, a', c)"
  obtains skipped n where "a = skipped @ w @ a'" "b' = rev skipped @ b" "w \<noteq> []" "n \<in> {1, 2, 3, 4}" "c = [n \<mapsto> w]"
  using exec_at_result [OF assms] TOK_matches by metis

text \<open>
  The loop of \<open>highlightLine\<close>: \<open>b\<close> is the text before \<open>last\<close> (reversed) and \<open>a\<close> the text from it on. A loop that
  does not end would give \<open>None\<close>: \<open>exec\<close> sets \<open>lastIndex\<close> to the end of the match, so an empty match would come again
  at the same place.
\<close>

partial_function (option) highlight_from :: "bool \<Rightarrow> jsstring \<Rightarrow> jsstring \<Rightarrow> seg list option" where
  "highlight_from inCaps b a = (case exec_at TOK b a of
      None \<Rightarrow> Some (text_seg a)
    | Some (b', w, a', c) \<Rightarrow>
        Option.bind (highlight_from (snd (tok_seg inCaps w c)) (rev w @ b') a')
          (\<lambda>rest. Some (text_seg (rev (take (length b' - length b) b')) @ fst (tok_seg inCaps w c) @ rest)))"

definition highlightLine :: "jsstring \<Rightarrow> seg list option" where
  "highlightLine raw = highlight_from False [] raw"

lemma tok_seg_text:
  assumes "w \<noteq> []" "n \<in> {1, 2, 3, 4}"
  shows "concat (map sg_text (fst (tok_seg i w [n \<mapsto> w]))) = w"
  using assms by (auto simp: tok_seg_def str_seg_def Let_def)

lemma text_seg_text [simp]: "concat (map sg_text (text_seg s)) = s"
  by (simp add: text_seg_def)

lemma concat_glob_pieces [simp]: "concat (glob_pieces s) = s"
  by (induction s rule: glob_pieces.induct) simp_all

definition good_seg :: "seg \<Rightarrow> bool" where
  "good_seg s \<longleftrightarrow> sg_text s \<noteq> [] \<and> (case sg_parts s of None \<Rightarrow> True | Some ps \<Rightarrow> concat (map snd ps) = sg_text s)"

lemma snd_part_of [simp]: "snd (part_of p) = p"
  by (simp add: part_of_def)

lemma good_segs:
  "list_all good_seg (text_seg s)"
  "w \<noteq> [] \<Longrightarrow> n \<in> {1, 2, 3, 4} \<Longrightarrow> list_all good_seg (fst (tok_seg i w [n \<mapsto> w]))"
  by (auto simp: text_seg_def tok_seg_def str_seg_def good_seg_def Let_def comp_def)

lemma highlight_from_returns:
  "\<exists>segs. highlight_from i b a = Some segs \<and> concat (map sg_text segs) = a \<and> list_all good_seg segs"
proof (induction "length a" arbitrary: i b a rule: less_induct)
  case less
  show ?case
  proof (cases "exec_at TOK b a")
    case None
    then show ?thesis by (simp add: highlight_from.simps good_segs)
  next
    case (Some m)
    obtain b' w a' c where m: "m = (b', w, a', c)" by (cases m)
    with Some have e: "exec_at TOK b a = Some (b', w, a', c)" by simp
    then obtain sk n where t: "a = sk @ w @ a'" "b' = rev sk @ b" "w \<noteq> []" "n \<in> {1, 2, 3, 4}" "c = [n \<mapsto> w]"
      by (rule exec_TOK)
    then have "length a' < length a" by simp
    then obtain rest where rest: "highlight_from (snd (tok_seg i w c)) (rev w @ b') a' = Some rest"
      "concat (map sg_text rest) = a'" "list_all good_seg rest" using less by blast
    have "rev (take (length b' - length b) b') = sk" using t(2) by simp
    then have h: "highlight_from i b a = Some (text_seg sk @ fst (tok_seg i w c) @ rest)"
      unfolding highlight_from.simps [of i b a] e using rest(1) by simp
    have "concat (map sg_text (fst (tok_seg i w c))) = w" "list_all good_seg (fst (tok_seg i w c))"
      using tok_seg_text [OF t(3,4)] good_segs(2) [OF t(3,4)] t(5) by simp_all
    then show ?thesis using h rest(2,3) t(1) by (simp add: good_segs)
  qed
qed

text \<open>
  C27: the highlighter returns on every line and shows the line as it is. Its loop always ends; the texts of the segments
  put together are the line, so the coloured layer lies exactly under the text area; no segment is empty, and the parts
  of a string segment put together are the text of the segment.
\<close>

theorem highlightLine_returns:
  "\<exists>segs. highlightLine raw = Some segs \<and> concat (map sg_text segs) = raw \<and>
     list_all (\<lambda>s. sg_text s \<noteq> [] \<and> (case sg_parts s of None \<Rightarrow> True | Some ps \<Rightarrow> concat (map snd ps) = sg_text s)) segs"
  using highlight_from_returns [of False "[]" raw] by (simp add: highlightLine_def good_seg_def [abs_def])

section \<open>Edits of the matrix\<close>

text \<open>The rules a line gives do not depend on the lines before it.\<close>

definition line_rules :: "nat \<Rightarrow> jsstring \<Rightarrow> parsed_rule list" where
  "line_rules i l = ps_rules (parse_line i l \<lparr>ps_rules = [], ps_diags = [], ps_seen = []\<rparr>)"

lemma ps_rules_parse_line: "ps_rules (parse_line i l s) = ps_rules s @ line_rules i l"
  by (simp add: line_rules_def parse_line_def parse_rule_def add_diags_def Let_def split: option.splits prod.splits)

lemma ps_rules_parse_lines:
  "ps_rules (parse_lines i ls s) = ps_rules s @ concat (map (\<lambda>k. line_rules (i + k) (ls ! k)) [0..<length ls])"
proof (induction ls arbitrary: i s)
  case (Cons l ls)
  have "map (\<lambda>k. line_rules (i + k) ((l # ls) ! k)) [0..<length (l # ls)] =
      line_rules i l # map (\<lambda>k. line_rules (Suc i + k) (ls ! k)) [0..<length ls]"
    by (simp add: upt_conv_Cons map_Suc_upt [symmetric] comp_def del: upt_Suc map_Suc_upt)
  then show ?case by (simp only: parse_lines.simps Cons.IH ps_rules_parse_line concat.simps append_assoc)
qed simp

lemma p_rules_lines:
  assumes "ls \<noteq> []" "\<And>l. l \<in> set ls \<Longrightarrow> new_line \<notin> set l"
  shows "p_rules (parsePolicy (of_lines ls)) = concat (map (\<lambda>k. line_rules k (ls ! k)) [0..<length ls])"
  using ps_rules_parse_lines [of 0 ls] split_on_join [OF assms]
  by (simp add: parsePolicy_def of_lines_def new_line_def Let_def)

lemma text_lines_props:
  "text_lines src \<noteq> []" "l \<in> set (text_lines src) \<Longrightarrow> new_line \<notin> set l" "of_lines (text_lines src) = src"
  using split_on_no_sep by (auto simp: text_lines_def of_lines_def)

lemma line_rules_cases: "line_rules i l = [] \<or> (\<exists>r. line_rules i l = [r] \<and> rule_shape i l r)"
proof -
  obtain rs ds where "line_rules i l = rs" "line_result i l rs ds"
    by (rule parse_line_result [of i l "\<lparr>ps_rules = [], ps_diags = [], ps_seen = []\<rparr>"]) (simp add: line_rules_def)
  then show ?thesis by (auto simp: line_result_def split: if_splits)
qed

lemma p_rules_text: "p_rules (parsePolicy src) = concat (map (\<lambda>k. line_rules k (text_lines src ! k)) [0..<length (text_lines src)])"
  using p_rules_lines [OF text_lines_props(1,2), of src] unfolding text_lines_props(3) .

lemma line_of_rule:
  assumes "r \<in> set (p_rules (parsePolicy src))"
  shows "pr_line r < length (text_lines src) \<and> line_rules (pr_line r) (text_lines src ! pr_line r) = [r]"
proof -
  let ?ls = "text_lines src"
  obtain k where k: "k < length ?ls" "r \<in> set (line_rules k (?ls ! k))"
    using assms unfolding p_rules_text by auto
  then have "line_rules k (?ls ! k) = [r] \<and> pr_line r = k"
    using line_rules_cases [of k "?ls ! k"] by (auto simp: rule_shape_def)
  with k(1) show ?thesis by simp
qed

text \<open>Putting the printed form of a rule on its line changes that rule and no other.\<close>

lemma replace_rule:
  assumes r: "r \<in> set (p_rules (parsePolicy src))" and p: "one_line p"
  shows "p_rules (parsePolicy (of_lines ((text_lines src)[pr_line r := fmtRule p caps]))) =
    map (\<lambda>x. if pr_line x = pr_line r then x\<lparr>pr_path := p, pr_caps := ordered_caps caps\<rparr> else x) (p_rules (parsePolicy src))"
    (is "_ = map ?f _")
proof -
  let ?ls = "text_lines src" and ?k = "pr_line r"
  let ?ls' = "?ls[?k := fmtRule p caps]"
  have k: "?k < length ?ls" "line_rules ?k (?ls ! ?k) = [r]" using line_of_rule [OF r] by blast+
  have "new_line \<notin> set (fmtRule p caps)" using newline_fmtRule p by (simp add: one_line_def new_line_def)
  then have nl: "new_line \<notin> set l" if "l \<in> set ?ls'" for l
    using that set_update_subset_insert [of ?ls ?k] text_lines_props(2) [of l src] by blast
  have new: "line_rules ?k (fmtRule p caps) = [r\<lparr>pr_path := p, pr_caps := ordered_caps caps\<rparr>]"
    using line_rules_cases [of ?k "?ls ! ?k"] k(2) p
    by (cases r) (auto simp: line_rules_def parse_line_fmtRule one_line_def rule_shape_def)
  have "line_rules i (?ls' ! i) = map ?f (line_rules i (?ls ! i))" if "i < length ?ls" for i
  proof (cases "i = ?k")
    case True
    then show ?thesis using k new by simp
  next
    case False
    then show ?thesis using line_rules_cases [of i "?ls ! i"] by (auto simp: rule_shape_def)
  qed
  then have "map (\<lambda>i. line_rules i (?ls' ! i)) [0..<length ?ls'] = map (map ?f) (map (\<lambda>i. line_rules i (?ls ! i)) [0..<length ?ls])"
    by simp
  moreover have "p_rules (parsePolicy (of_lines ?ls')) = concat (map (\<lambda>i. line_rules i (?ls' ! i)) [0..<length ?ls'])"
    by (rule p_rules_lines [OF _ nl]) (simp_all add: text_lines_props)
  moreover have "p_rules (parsePolicy src) = concat (map (\<lambda>i. line_rules i (?ls ! i)) [0..<length ?ls])"
    by (rule p_rules_text)
  ultimately show ?thesis by (simp only: map_concat)
qed

lemma parsed_caps_distinct: "r \<in> set (p_rules (parsePolicy src)) \<Longrightarrow> distinct (pr_caps r)"
  using line_of_rule [of r src] line_rules_cases [of "pr_line r" "text_lines src ! pr_line r"]
  by (auto simp: rule_shape_def)

text \<open>The capabilities of a row after a click on one of its cells.\<close>

definition clicked :: "jsstring \<Rightarrow> jsstring set \<Rightarrow> jsstring set" where
  "clicked c S = (if c \<in> S then S - {c} else if c = js ''deny'' then {js ''deny''} else insert c S)"

lemma set_toggled_caps: "distinct caps \<Longrightarrow> set (toggled_caps c caps) = clicked c (set caps)"
  by (auto simp: toggled_caps_def clicked_def)




lemma constructor_accepted: "new_policy_error [] (js ''constructor'') = None"
proof -
  have "test NAME_RE (js ''constructor'')"
    unfolding NAME_RE_def
    by (subst test_anchored) (auto simp: re_lang in_range_def is_digit_def one_of_def simp del: lang.simps)
  moreover have "trim (js ''constructor'') = js ''constructor''"
    by (simp add: trim_def trim_start_def trim_end_def is_ws_def)
  ultimately show ?thesis by (simp add: new_policy_error_def RESERVED_NAMES_def Let_def)
qed

section \<open>Unsaved changes\<close>

definition canonical_json :: "(jsstring \<times> jsstring list) list \<Rightarrow> bool \<Rightarrow> json" where
  "canonical_json rules inheritable =
     JArr [JBool inheritable, JArr (map (\<lambda>(p, caps). JArr [JStr p, JArr (map JStr (ordered_caps caps))]) rules)]"

lemma canonical_reads: "reads (canonical rules inheritable) (canonical_json rules inheritable)"
proof -
  have "wf_json (canonical_json rules inheritable)" "in_order (canonical_json rules inheritable) = canonical_json rules inheritable"
    by (auto simp: canonical_json_def list_all_iff comp_def)
  then show ?thesis using reads_stringify by (metis canonical_def canonical_json_def)
qed

lemma JStr_map_eq: "map JStr xs = map JStr ys \<longleftrightarrow> xs = ys"
  by (rule inj_map_eq_map) (simp add: inj_def)

lemma canonical_json_rules:
  "map (\<lambda>(p, caps). JArr [JStr p, JArr (map JStr (ordered_caps caps))]) rs =
   map (\<lambda>(p, caps). JArr [JStr p, JArr (map JStr (ordered_caps caps))]) rs' \<longleftrightarrow>
   map (\<lambda>(p, caps). (p, ordered_caps caps)) rs = map (\<lambda>(p, caps). (p, ordered_caps caps)) rs'"
proof (induction rs arbitrary: rs')
  case (Cons r rs)
  then show ?case by (cases rs'; cases r) (auto simp: JStr_map_eq)
qed simp

lemma canonical_eq_iff:
  "canonical rs i = canonical rs' i' \<longleftrightarrow>
   i = i' \<and> map (\<lambda>(p, caps). (p, ordered_caps caps)) rs = map (\<lambda>(p, caps). (p, ordered_caps caps)) rs'"
proof
  assume "canonical rs i = canonical rs' i'"
  then have "canonical_json rs i = canonical_json rs' i'"
    using canonical_reads [of rs i] canonical_reads [of rs' i'] unfolding reads_def by (metis option.inject prod.inject)
  then show "i = i' \<and> map (\<lambda>(p, caps). (p, ordered_caps caps)) rs = map (\<lambda>(p, caps). (p, ordered_caps caps)) rs'"
    by (simp add: canonical_json_def canonical_json_rules)
next
  assume "i = i' \<and> map (\<lambda>(p, caps). (p, ordered_caps caps)) rs = map (\<lambda>(p, caps). (p, ordered_caps caps)) rs'"
  then show "canonical rs i = canonical rs' i'"
    using canonical_json_rules [of rs rs'] by (simp add: canonical_def)
qed

text \<open>
  C29: a stored policy with a draft is marked as changed exactly when what saving would store differs from what is
  stored: another value of the inheritable switch, or another list of paths and capability sets (the order of the
  capabilities within a rule, comments and layout do not count).
\<close>

theorem dirty_iff_changed:
  assumes "draft_get (pp_new s) name = Missing" "draft_get (pp_drafts s) name = Found d" "details_data s name = Some p"
    "row_of s name = Inr row"
  shows "rw_dirty row \<longleftrightarrow> df_inh d \<noteq> nullish (po_inheritable p) False \<or>
    map (\<lambda>r. (pr_path r, ordered_caps (pr_caps r))) (p_rules (parsePolicy (df_text d))) \<noteq>
    map (\<lambda>r. (fst (rule_pair r), ordered_caps (snd (rule_pair r)))) (nullish (po_rules p) [])"
proof -
  have cur: "current s name = Found d" using assms(1,2) by (simp add: current_def)
  have "rw_dirty row \<longleftrightarrow> canonical (parsed_pairs (p_rules (parsePolicy (df_text d)))) (df_inh d) \<noteq> serverCanon p"
    using assms cur by (auto simp: row_of_def parse_current_def is_dirty_def Let_def)
  then show ?thesis
    by (simp add: serverCanon_def canonical_eq_iff parsed_pairs_def rule_pair_def comp_def)
qed

definition demo_policy :: policy where
  "demo_policy = \<lparr>po_name = js ''dev'', po_rules = Some [], po_inheritable = None\<rparr>"

definition demo_page :: policies_page where
  "demo_page = \<lparr>pp_new = [], pp_drafts = [(js ''dev'', \<lparr>df_inh = True, df_text = []\<rparr>)], pp_selected = None,
     pp_server = [js ''dev''], pp_cache = [js ''dev'' \<mapsto> demo_policy], pp_failed = []\<rparr>"

theorem dirty_iff_changed_witness: "\<exists>row. row_of demo_page (js ''dev'') = Inr row \<and> rw_dirty row"
proof -
  have look: "draft_get (pp_new demo_page) (js ''dev'') = Missing"
    "draft_get (pp_drafts demo_page) (js ''dev'') = Found \<lparr>df_inh = True, df_text = []\<rparr>"
    "details_data demo_page (js ''dev'') = Some demo_policy"
    by (simp_all add: draft_get_def demo_page_def details_data_def proto_keys_def)
  then obtain row where "row_of demo_page (js ''dev'') = Inr row"
    by (simp add: row_of_def current_def parse_current_def Let_def)
  with dirty_iff_changed [OF look this] show ?thesis by (simp add: demo_policy_def nullish_def)
qed

text \<open>
  C30: one stored policy whose name is that of a property every object inherits (\<open>constructor\<close> is accepted by the
  name rule of the console) makes the whole page fail to render, whatever the drafts of other policies are: the name
  is looked up in the drafts without asking whether it is an own property, and the inherited function has no text.
\<close>

theorem inherited_name_breaks_page:
  assumes "js ''constructor'' \<in> set (pp_server s)" "js ''constructor'' \<notin> fst ` set (pp_new s)"
  shows "new_policy_error [] (js ''constructor'') = None \<and> rows_render s (allNames s) = Inl ()"
proof -
  have "map_of (pp_new s) (js ''constructor'') = None" using assms(2) by (simp add: map_of_eq_None_iff)
  then have "draft_get (pp_new s) (js ''constructor'') = FromPrototype" by (simp add: draft_get_def proto_keys_def)
  then have bad: "row_of s (js ''constructor'') = Inl ()" by (simp add: row_of_def current_def parse_current_def)
  have "rows_render s ns = Inl ()" if "js ''constructor'' \<in> set ns" for ns
    using that bad by (induction ns) (auto split: sum.splits)
  moreover have "js ''constructor'' \<in> set (allNames s)" using assms(1) by (simp add: allNames_def)
  ultimately show ?thesis using constructor_accepted by blast
qed

definition demo_page2 :: policies_page where
  "demo_page2 = demo_page\<lparr>pp_server := [js ''dev'', js ''constructor'']\<rparr>"

theorem inherited_name_breaks_page_witness: "rows_render demo_page2 (allNames demo_page2) = Inl ()"
proof -
  have "js ''constructor'' \<in> set (pp_server demo_page2)" "js ''constructor'' \<notin> fst ` set (pp_new demo_page2)"
    by (simp_all add: demo_page2_def demo_page_def)
  then show ?thesis using inherited_name_breaks_page by blast
qed

end
