(* ===== verification/Js_Number.thy ===== *)
theory Js_Number
  imports Js_Regex "HOL-Library.Log_Nat" Complex_Main
begin

text \<open>
  Numbers of ECMAScript: IEEE 754 doubles with rounding to nearest, ties to even. A finite value is the rational it
  stands for (the sources never tell -0 from 0), and \<open>fl\<close> is the double nearest to a rational. Every arithmetic
  operation is the exact one followed by \<open>fl\<close>. \<open>fl_int\<close> is the fact the components use: integers up to 2^53 are exact,
  so the whole-number arithmetic of the sources is the arithmetic of the integers there.
\<close>

section \<open>Doubles\<close>

datatype num = Fin rat | PInf | NInf | NaN

definition ilog2 :: "rat \<Rightarrow> int" where
  "ilog2 x = (case quotient_of x of (n, d) \<Rightarrow> let k = bitlen n - bitlen d in if 2 powi k \<le> x then k else k - 1)"

definition round_even :: "rat \<Rightarrow> int" where
  "round_even x = (let f = \<lfloor>x\<rfloor>; r = x - of_int f in
     if r < 1 / 2 then f else if 1 / 2 < r then f + 1 else if even f then f else f + 1)"

definition ulp_exp :: "rat \<Rightarrow> int" where
  "ulp_exp x = max (ilog2 \<bar>x\<bar> - 52) (-1074)"

definition fl :: "rat \<Rightarrow> num" where
  "fl x = (if x = 0 then Fin 0
     else let e = ulp_exp x; y = of_int (round_even (x / 2 powi e)) * 2 powi e in
       if 2 ^ 1024 \<le> y then PInf else if y \<le> - (2 ^ 1024) then NInf else Fin y)"

text \<open>Products and sums with an infinite operand that the sources can meet; anything else with one is \<open>NaN\<close> here only
  where the standard says so.\<close>

fun num_neg :: "num \<Rightarrow> num" where
  "num_neg (Fin x) = Fin (- x)"
| "num_neg PInf = NInf"
| "num_neg NInf = PInf"
| "num_neg NaN = NaN"

fun num_add :: "num \<Rightarrow> num \<Rightarrow> num" where
  "num_add (Fin x) (Fin y) = fl (x + y)"
| "num_add NaN _ = NaN"
| "num_add _ NaN = NaN"
| "num_add PInf NInf = NaN"
| "num_add NInf PInf = NaN"
| "num_add PInf _ = PInf"
| "num_add _ PInf = PInf"
| "num_add NInf _ = NInf"
| "num_add _ NInf = NInf"

definition num_sub :: "num \<Rightarrow> num \<Rightarrow> num" where
  "num_sub x y = num_add x (num_neg y)"

definition inf_sign :: "bool \<Rightarrow> num" where
  "inf_sign pos = (if pos then PInf else NInf)"

fun num_mul :: "num \<Rightarrow> num \<Rightarrow> num" where
  "num_mul (Fin x) (Fin y) = fl (x * y)"
| "num_mul NaN _ = NaN"
| "num_mul _ NaN = NaN"
| "num_mul PInf (Fin y) = (if y = 0 then NaN else inf_sign (0 < y))"
| "num_mul NInf (Fin y) = (if y = 0 then NaN else inf_sign (y < 0))"
| "num_mul (Fin x) PInf = (if x = 0 then NaN else inf_sign (0 < x))"
| "num_mul (Fin x) NInf = (if x = 0 then NaN else inf_sign (x < 0))"
| "num_mul PInf PInf = PInf"
| "num_mul NInf NInf = PInf"
| "num_mul _ _ = NInf"

text \<open>Division by a positive constant, which is the only one the sources use.\<close>

fun num_div :: "num \<Rightarrow> rat \<Rightarrow> num" where
  "num_div (Fin x) d = fl (x / d)"
| "num_div y d = y"

fun num_le :: "num \<Rightarrow> num \<Rightarrow> bool" where
  "num_le NaN _ = False"
| "num_le _ NaN = False"
| "num_le (Fin x) (Fin y) = (x \<le> y)"
| "num_le NInf _ = True"
| "num_le _ PInf = True"
| "num_le _ _ = False"

definition num_truthy :: "num \<Rightarrow> bool" where
  "num_truthy x \<longleftrightarrow> x \<noteq> NaN \<and> x \<noteq> Fin 0"

definition num_or :: "num \<Rightarrow> num \<Rightarrow> num" where
  "num_or x y = (if num_truthy x then x else y)"

fun is_integer :: "num \<Rightarrow> bool" where
  "is_integer (Fin x) = (x \<in> \<int>)"
| "is_integer _ = False"

text \<open>\<open>Math.floor\<close>, \<open>Math.ceil\<close> and \<open>Math.round\<close> (halves go up) are exact.\<close>

fun num_floor :: "num \<Rightarrow> num" where
  "num_floor (Fin x) = Fin (of_int \<lfloor>x\<rfloor>)"
| "num_floor x = x"

fun num_ceil :: "num \<Rightarrow> num" where
  "num_ceil (Fin x) = Fin (of_int \<lceil>x\<rceil>)"
| "num_ceil x = x"

fun num_round :: "num \<Rightarrow> num" where
  "num_round (Fin x) = Fin (of_int \<lfloor>x + 1 / 2\<rfloor>)"
| "num_round x = x"

section \<open>Decimal text\<close>

text \<open>\<open>toFixed(1)\<close> of a value that is not negative: the nearest multiple of a tenth, halves up.\<close>

definition to_fixed1 :: "rat \<Rightarrow> jsstring" where
  "to_fixed1 x = (let n = nat \<lfloor>10 * x + 1 / 2\<rfloor> in dec (n div 10) @ js ''.'' @ dec (n mod 10))"

text \<open>The value of \<open>ddd\<close> or \<open>ddd.ddd\<close>, and \<open>Number\<close> or \<open>parseFloat\<close> of it.\<close>

definition dec_value :: "jsstring \<Rightarrow> rat" where
  "dec_value s = (let i = takeWhile is_digit s; f = drop 1 (dropWhile is_digit s) in
     of_nat (undec i) + of_nat (undec f) / 10 ^ length f)"

definition number_of_dec :: "jsstring \<Rightarrow> num" where
  "number_of_dec s = fl (dec_value s)"

section \<open>Integers are exact\<close>

lemma quotient_of_of_int: "quotient_of (of_int n) = (n, 1)"
  using quotient_of_int [of n] by (simp add: Rat.of_int_def)

lemma ilog2_int:
  assumes "0 < n"
  shows "ilog2 (of_int n) = bitlen n - 1"
proof -
  have "2 ^ nat (bitlen n - 1) \<le> n" using bitlen_bounds [OF assms] by simp
  then have "(2::rat) ^ nat (bitlen n - 1) \<le> of_int n" by (metis of_int_le_iff of_int_numeral of_int_power)
  moreover have "0 \<le> bitlen n - 1" using assms by (simp add: bitlen_def floorlog_def)
  ultimately have "2 powi (bitlen n - 1) \<le> (of_int n :: rat)" by (simp add: power_int_def)
  moreover have "bitlen 1 = 1" by (simp add: bitlen_def floorlog_def)
  ultimately show ?thesis by (simp add: ilog2_def quotient_of_of_int Let_def)
qed

lemma bitlen_le_53:
  assumes "0 < n" "n < 2 ^ 53"
  shows "bitlen n \<le> 53"
proof (rule ccontr)
  assume "\<not> bitlen n \<le> 53"
  then have "53 \<le> nat (bitlen n - 1)" by simp
  then have "(2::int) ^ 53 \<le> 2 ^ nat (bitlen n - 1)" by (intro power_increasing) simp_all
  then show False using bitlen_bounds [OF assms(1)] assms(2) by simp
qed

lemma round_even_int [simp]: "round_even (of_int n) = n"
  by (simp add: round_even_def)

lemma fl_int_pos:
  assumes "0 < n" "n < 2 ^ 53" "s = 1 \<or> s = -1"
  shows "fl (of_int (s * n)) = Fin (of_int (s * n))"
proof -
  define e where "e = ulp_exp (of_int (s * n))"
  have "\<bar>of_int (s * n) :: rat\<bar> = of_int n" using assms by auto
  then have "e = max (bitlen n - 1 - 52) (-1074)" unfolding e_def ulp_exp_def using ilog2_int [OF assms(1)] by simp
  then have "e \<le> 0" using bitlen_le_53 [OF assms(1,2)] by simp
  then obtain k where k: "e = - int k" by (metis nonpos_int_cases)
  have p: "(2::rat) powi e * 2 ^ k = 1" by (simp add: k power_int_minus)
  have "(of_int (s * n) :: rat) / 2 powi e = of_int (s * n * 2 ^ k)" by (simp add: k power_int_minus field_simps)
  then have "of_int (round_even (of_int (s * n) / 2 powi e)) * 2 powi e = (of_int (s * n) :: rat)"
    using p by (simp only: round_even_int) (simp add: mult.assoc mult.commute [of _ "2 powi e"])
  moreover have "\<bar>of_int (s * n) :: rat\<bar> < 2 ^ 1024"
  proof -
    have "n < 2 ^ 1024" using assms(2) power_strict_increasing [of 53 1024 "2::int"] by simp
    then show ?thesis using \<open>\<bar>of_int (s * n) :: rat\<bar> = of_int n\<close> by (metis of_int_less_iff of_int_numeral of_int_power)
  qed
  moreover have "(of_int (s * n) :: rat) \<noteq> 0" using assms by auto
  ultimately show ?thesis unfolding fl_def e_def [symmetric] Let_def by (simp add: abs_less_iff not_le)
qed

theorem fl_int: "\<bar>n\<bar> < 2 ^ 53 \<Longrightarrow> fl (of_int n) = Fin (of_int n)"
proof -
  assume n: "\<bar>n\<bar> < 2 ^ 53"
  consider "n = 0" | "0 < n" | "n < 0" by linarith
  then show ?thesis
  proof cases
    case 1 then show ?thesis by (simp add: fl_def)
  next
    case 2 then show ?thesis using fl_int_pos [of n 1] n by simp
  next
    case 3 then show ?thesis using fl_int_pos [of "- n" "-1"] n by simp
  qed
qed

section \<open>Printed integers\<close>

lemma unat_digit: "n < 10 \<Longrightarrow> unat (0x30 + of_nat n :: jschar) = 0x30 + n"
  by (simp add: unat_word_ariths unat_of_nat take_bit_eq_mod)

lemma digit_char: "n < 10 \<Longrightarrow> is_digit (0x30 + of_nat n)"
  using unat_digit [of n] by (simp add: is_digit_def word_le_nat_alt)

lemma dec_digits: "dec n \<noteq> [] \<and> (\<forall>c\<in>set (dec n). is_digit c)"
proof (induction n rule: dec.induct)
  case (1 n)
  have "dec n = (if n < 10 then [0x30 + of_nat n] else dec (n div 10) @ [0x30 + of_nat (n mod 10)])" by (rule dec.simps)
  then show ?case using 1 digit_char [of n] digit_char [of "n mod 10"] by (auto split: if_splits)
qed

lemma undec_snoc: "undec (s @ [c]) = 10 * undec s + (unat c - 0x30)"
  by (simp add: undec_def)

lemma undec_dec [simp]: "undec (dec n) = n"
proof (induction n rule: dec.induct)
  case (1 n)
  show ?case
  proof (cases "n < 10")
    case True
    then show ?thesis using unat_digit [of n] by (subst dec.simps) (simp add: undec_def)
  next
    case False
    then show ?thesis using 1 unat_digit [of "n mod 10"] by (subst dec.simps) (simp add: undec_snoc)
  qed
qed

lemma dec_value_digits: "\<forall>c\<in>set s. is_digit c \<Longrightarrow> dec_value s = of_nat (undec s)"
proof -
  assume s: "\<forall>c\<in>set s. is_digit c"
  then have split: "takeWhile is_digit s = s" "dropWhile is_digit s = []" by simp_all
  show ?thesis unfolding dec_value_def split by (simp add: undec_def)
qed

lemma number_of_dec_nat: "n < 2 ^ 53 \<Longrightarrow> number_of_dec (dec n) = Fin (of_nat n)"
  using fl_int [of "int n"] dec_digits [of n] by (simp add: number_of_dec_def dec_value_digits)

section \<open>Number of a text\<close>

text \<open>\<open>StringToNumber\<close>: blanks around it are ignored, the empty text is 0, and text that is not a literal is \<open>NaN\<close>.\<close>

definition DECIMAL_RE :: re where
  "DECIMAL_RE = anchored (seqs
     [Grp 1 (Opt (Cls (one_of ''+-''))),
      Grp 2 (Alt (Seq (Plus (Cls is_digit)) (Seq (Opt (Lit (js ''.''))) (Star (Cls is_digit)))) (Seq (Lit (js ''.'')) (Plus (Cls is_digit)))),
      Opt (Seq (Cls (one_of ''eE'')) (Seq (Grp 3 (Opt (Cls (one_of ''+-'')))) (Grp 4 (Plus (Cls is_digit)))))])"

definition hex_digit :: "jschar \<Rightarrow> nat option" where
  "hex_digit c = (if is_digit c then Some (unat c - 0x30) else if in_range CHR ''a'' CHR ''f'' c then Some (unat c - 87)
     else if in_range CHR ''A'' CHR ''F'' c then Some (unat c - 55) else None)"

definition radix_value :: "nat \<Rightarrow> jsstring \<Rightarrow> nat option" where
  "radix_value b s = (if s = [] then None else foldl (\<lambda>acc c. case (acc, hex_digit c) of
     (Some n, Some d) \<Rightarrow> if d < b then Some (b * n + d) else None | _ \<Rightarrow> None) (Some 0) s)"

definition sign_of :: "jsstring \<Rightarrow> rat" where
  "sign_of s = (if s = js ''-'' then -1 else 1)"

definition str_number :: "jsstring \<Rightarrow> num" where
  "str_number v =
     (let s = trim v; pre = lower (take 2 s); rest = drop 2 s;
          radix = (\<lambda>b. case radix_value b rest of Some n \<Rightarrow> fl (of_nat n) | None \<Rightarrow> NaN) in
      if s = [] then Fin 0
      else if pre = js ''0x'' then radix 16 else if pre = js ''0o'' then radix 8 else if pre = js ''0b'' then radix 2
      else if s = js ''Infinity'' \<or> s = js ''+Infinity'' then PInf
      else if s = js ''-Infinity'' then NInf
      else (case exec DECIMAL_RE s of
          None \<Rightarrow> NaN
        | Some (_, _, _, c) \<Rightarrow>
            let e = (case c 4 of Some d \<Rightarrow> sign_of (nullish (c 3) []) * of_nat (undec d) | None \<Rightarrow> 0)
            in fl (sign_of (nullish (c 1) []) * dec_value (nullish (c 2) []) * 10 powi \<lfloor>e\<rfloor>)))"

end
