(* ===== verification/Durations.thy ===== *)
theory Durations
  imports Js_Number
begin

text \<open>
  How the console reads and prints lengths of time: the readers and printers of \<open>token-roles/lib.ts\<close>,
  \<open>auth-methods/lib.ts\<close>, \<open>mounts/lib.ts\<close>, \<open>tokens.utils.ts\<close>, \<open>wrapping/lib.ts\<close>, \<open>status/lib.ts\<close>, the TTL field and
  the countdowns. Numbers that come out of arithmetic on text or on nanoseconds are doubles (\<open>num\<close>); whole seconds and
  milliseconds are integers, which doubles represent exactly in the range of dates. Translated texts are the key and
  the parameters that are handed to the translator.
\<close>

section \<open>Repeated matching\<close>

text \<open>
  \<open>matchAll\<close>, or \<open>exec\<close> in a loop, with a global pattern: the matches from left to right with their captures. The
  patterns of this theory never match the empty text (\<open>DUR_consumes\<close>), which is the case the guard is for.
\<close>

function exec_all :: "re \<Rightarrow> jsstring \<Rightarrow> jsstring \<Rightarrow> (jsstring \<times> captures) list" where
  "exec_all r b a = (case exec_at r b a of
      None \<Rightarrow> []
    | Some (b', w, a', c) \<Rightarrow> (w, c) # (if length a' < length a then exec_all r (rev w @ b') a' else []))"
  by pat_completeness auto

termination
  by (relation "measure (\<lambda>(r, b, a). length a)") auto

declare exec_all.simps [simp del]

definition cap :: "captures \<Rightarrow> nat \<Rightarrow> jsstring" where
  "cap c n = (case c n of Some s \<Rightarrow> s | None \<Rightarrow> [])"

text \<open>\<open>(\d+(?:\.\d+)?)(u1|u2|...)\<close>\<close>

definition amount_re :: re where
  "amount_re = Seq (Plus (Cls is_digit)) (Opt (Seq (Lit (js ''.'')) (Plus (Cls is_digit))))"

fun alts :: "jsstring list \<Rightarrow> re" where
  "alts [] = Cls (\<lambda>_. False)"
| "alts [u] = Lit u"
| "alts (u # us) = Alt (Lit u) (alts us)"

definition dur_re :: "jsstring list \<Rightarrow> re" where
  "dur_re us = Seq (Grp 1 amount_re) (Grp 2 (alts us))"

section \<open>token-roles/lib.ts\<close>

definition nsToSec :: "num option \<Rightarrow> num" where
  "nsToSec ns = (case ns of None \<Rightarrow> Fin 0 | Some x \<Rightarrow> if num_truthy x then num_round (num_div x (10 ^ 9)) else Fin 0)"

definition DUR_RE :: re where
  "DUR_RE = anchored (seqs [Grp 1 (Plus (Cls is_digit)), Star (Cls is_ws), Opt (Grp 2 (Cls (one_of ''smhd'')))])"

definition unit_secs :: "jsstring \<Rightarrow> rat" where
  "unit_secs u = (if u = js ''d'' then 86400 else if u = js ''h'' then 3600 else if u = js ''m'' then 60 else 1)"

text \<open>\<open>None\<close> is null; text that is not a duration gives \<open>NaN\<close>.\<close>

definition parseDur :: "jsstring \<Rightarrow> num option" where
  "parseDur v =
     (let s = lower (trim v) in
      if s = [] then None
      else (case exec DUR_RE s of
          None \<Rightarrow> Some NaN
        | Some (_, _, _, c) \<Rightarrow> Some (num_mul (number_of_dec (cap c 1)) (Fin (unit_secs (nullish (c 2) (js ''s'')))))))"

definition fmtShort :: "int \<Rightarrow> jsstring" where
  "fmtShort s =
     (if s = 0 then []
      else if s mod 86400 = 0 then dec_int (s div 86400) @ js ''d''
      else if s mod 3600 = 0 then dec_int (s div 3600) @ js ''h''
      else if s mod 60 = 0 then dec_int (s div 60) @ js ''m''
      else dec_int s @ js ''s'')"

definition toGoDuration :: "int \<Rightarrow> jsstring option" where
  "toGoDuration s =
     (if s = 0 then None
      else if s mod 3600 = 0 then Some (dec_int (s div 3600) @ js ''h'')
      else if s mod 60 = 0 then Some (dec_int (s div 60) @ js ''m'')
      else Some (dec_int s @ js ''s''))"

text \<open>\<open>tr\<close> gives the translated unit; \<open>None\<close> stands for null, undefined and NaN.\<close>

definition fmtDur :: "(string \<Rightarrow> jsstring) \<Rightarrow> int option \<Rightarrow> jsstring" where
  "fmtDur tr v = (case v of None \<Rightarrow> em_dash | Some s \<Rightarrow>
     if s = 0 then js ''0''
     else if s mod 86400 = 0 then dec_int (s div 86400) @ js '' '' @ tr ''u.d''
     else if s mod 3600 = 0 then dec_int (s div 3600) @ js '' '' @ tr ''u.h''
     else if s mod 60 = 0 then dec_int (s div 60) @ js '' '' @ tr ''u.m''
     else dec_int s @ js '' '' @ tr ''u.s'')"

section \<open>auth-methods/lib.ts\<close>

definition nsToSeconds :: "num option \<Rightarrow> num" where
  "nsToSeconds ns = (case ns of None \<Rightarrow> Fin 0
     | Some x \<Rightarrow> if num_truthy x \<and> num_le (Fin 0) x then num_round (num_div x (10 ^ 9)) else Fin 0)"

definition GO_UNITS :: "jsstring list" where
  "GO_UNITS = [js ''ms'', js ''h'', js ''m'', js ''s'']"

definition go_part :: "jsstring \<times> captures \<Rightarrow> num" where
  "go_part m = (let n = number_of_dec (cap (snd m) 1); u = cap (snd m) 2 in
     if u = js ''h'' then num_mul n (Fin 3600) else if u = js ''m'' then num_mul n (Fin 60)
     else if u = js ''s'' then n else num_div n 1000)"

definition parseGoDuration :: "jsstring option \<Rightarrow> num option" where
  "parseGoDuration v = (case v of None \<Rightarrow> Some (Fin 0) | Some s \<Rightarrow>
     if s = [] then Some (Fin 0)
     else let ms = exec_all (dur_re GO_UNITS) [] s;
              used = sum_list (map (\<lambda>m. length (fst m)) ms);
              total = foldl (\<lambda>t m. num_add t (go_part m)) (Fin 0) ms
          in if used = length s then Some (num_round total) else None)"

definition fmtTtl_auth :: "int \<Rightarrow> jsstring" where
  "fmtTtl_auth sec =
     (if sec \<le> 0 then []
      else let d = sec div 86400; h = sec mod 86400 div 3600; m = sec mod 3600 div 60; s = sec mod 60;
               parts = (if d \<noteq> 0 then [dec_int d @ js ''d''] else []) @ (if h \<noteq> 0 then [dec_int h @ js ''h''] else []) @
                 (if m \<noteq> 0 then [dec_int m @ js ''m''] else []);
               all = parts @ (if s \<noteq> 0 \<and> length parts < 2 then [dec_int s @ js ''s''] else [])
           in join (js '' '') (take 2 all))"

definition toDur :: "int \<Rightarrow> jsstring option" where
  "toDur sec = (if 0 < sec then Some (dec_int sec @ js ''s'') else None)"

section \<open>mounts/lib.ts and tokens.utils.ts\<close>

definition fmtTtl :: "int \<Rightarrow> jsstring" where
  "fmtTtl s =
     (if s = 0 then em_dash
      else if s mod 86400 = 0 \<and> 86400 * 2 \<le> s then dec_int (s div 86400) @ js ''d''
      else if s mod 3600 = 0 then dec_int (s div 3600) @ js ''h''
      else if s mod 60 = 0 then dec_int (s div 60) @ js ''m''
      else dec_int s @ js ''s'')"

definition pad2 :: "int \<Rightarrow> jsstring" where
  "pad2 n = pad_start 2 (jc CHR ''0'') (dec_int n)"

text \<open>Seconds left with their fraction, in milliseconds; \<open>None\<close> is \<open>Infinity\<close>.\<close>

definition left_ms :: "int option \<Rightarrow> int \<Rightarrow> int option" where
  "left_ms expiresAt now = map_option (\<lambda>e. max 0 (e - now)) expiresAt"

definition fmtLeft_tokens :: "int option \<Rightarrow> jsstring \<Rightarrow> jsstring \<Rightarrow> jsstring \<Rightarrow> jsstring" where
  "fmtLeft_tokens ms d h m = (case ms of None \<Rightarrow> infinity_sign | Some x \<Rightarrow>
     (let s = max 0 (x div 1000); days = s div 86400; hours = s mod 86400 div 3600; mins = s mod 3600 div 60 in
      if 0 < days then dec_int days @ d @ js '' '' @ pad2 hours @ h
      else if 0 < hours then dec_int hours @ h @ js '' '' @ pad2 mins @ m
      else pad2 mins @ js '':'' @ pad2 (s mod 60)))"

definition fmtTotal :: "int \<Rightarrow> jsstring \<Rightarrow> jsstring \<Rightarrow> jsstring \<Rightarrow> jsstring" where
  "fmtTotal s d h m =
     (if s = 0 then infinity_sign
      else if 86400 \<le> s then dec_int (round_div s 86400) @ d
      else if 3600 \<le> s then dec_int (round_div s 3600) @ h else dec_int (round_div s 60) @ m)"

definition agoText :: "int \<Rightarrow> int \<Rightarrow> string \<times> int" where
  "agoText ms now =
     (let s = max 0 ((now - ms) div 1000) in
      if s < 60 then (''time.justNow'', 0)
      else if s < 3600 then (''time.minAgo'', s div 60)
      else if s < 86400 then (''time.hAgo'', s div 3600)
      else (''time.dAgo'', s div 86400))"

section \<open>wrapping/lib.ts\<close>

definition ceil_secs :: "int \<Rightarrow> int" where
  "ceil_secs ms = (ms + 999) div 1000"

definition clock :: "int \<Rightarrow> jsstring" where
  "clock ms =
     (let s = max 0 (ceil_secs ms); h = s div 3600; m = s mod 3600 div 60; r = s mod 60
      in (if h \<noteq> 0 then dec_int h @ js '':'' else []) @ pad2 m @ js '':'' @ pad2 r)"

definition splitLeft :: "int \<Rightarrow> int \<times> int \<times> int" where
  "splitLeft ms = (let s = ceil_secs (max 0 ms) in (s div 3600, s mod 3600 div 60, s mod 60))"

definition fmtLeft_wrapping :: "int \<Rightarrow> string \<times> (string \<times> int) list" where
  "fmtLeft_wrapping ms = (case splitLeft ms of (h, m, s) \<Rightarrow>
     if h \<noteq> 0 then (''left.h'', [(''h'', h), (''m'', m)])
     else if m \<noteq> 0 then (''left.m'', [(''m'', m), (''s'', s)]) else (''left.s'', [(''s'', s)]))"

definition TTL_UNITS :: "jsstring list" where
  "TTL_UNITS = [js ''ns'', js ''us'', [0xB5] @ js ''s'', js ''ms'', js ''s'', js ''m'', js ''h'']"

definition UNIT_SEC :: "jsstring \<Rightarrow> num" where
  "UNIT_SEC u = (if u = js ''h'' then Fin 3600 else if u = js ''m'' then Fin 60 else if u = js ''ms'' then fl (1 / 10 ^ 3)
     else if u = js ''ns'' then fl (1 / 10 ^ 9) else if u = js ''s'' then Fin 1 else fl (1 / 10 ^ 6))"

definition TTL_RE :: re where
  "TTL_RE = anchored (Plus (Grp 1 (Seq (Seq (Plus (Cls is_digit)) (Opt (Grp 2 (Seq (Lit (js ''.'')) (Plus (Cls is_digit))))))
     (Grp 3 (alts TTL_UNITS)))))"

definition parseTtl :: "jsstring \<Rightarrow> num option" where
  "parseTtl value =
     (let v = trim value in
      if v = [] \<or> \<not> test TTL_RE v then None
      else let total = foldl (\<lambda>t m. num_add t (num_mul (number_of_dec (cap (snd m) 1)) (UNIT_SEC (cap (snd m) 2)))) (Fin 0)
             (exec_all (dur_re TTL_UNITS) [] v)
           in if num_le (Fin 1) total then Some (num_round total) else None)"

section \<open>Countdowns and uptime\<close>

definition formatRemaining :: "int \<Rightarrow> jsstring \<Rightarrow> jsstring" where
  "formatRemaining ms dayLabel =
     (let s = max 0 (ms div 1000); d = s div 86400; h = s mod 86400 div 3600; m = s mod 3600 div 60; sec = s mod 60 in
      if 0 < d then dec_int d @ dayLabel @ js '' '' @ pad2 h @ js '':'' @ pad2 m @ js '':'' @ pad2 sec
      else if 0 < h then pad2 h @ js '':'' @ pad2 m @ js '':'' @ pad2 sec
      else pad2 m @ js '':'' @ pad2 sec)"

definition formatRemaining_header :: "int \<Rightarrow> jsstring" where
  "formatRemaining_header ms =
     (let s = max (ms div 1000) 0; d = s div 86400; h = s mod 86400 div 3600; m = s mod 3600 div 60 in
      if 0 < d then dec_int d @ js ''d '' @ dec_int h @ js ''h''
      else if 0 < h then dec_int h @ js '':'' @ pad2 m @ js '':'' @ pad2 (s mod 60)
      else pad2 m @ js '':'' @ pad2 (s mod 60))"

definition LOW_TTL_MS :: int where "LOW_TTL_MS = 5 * 60000"

text \<open>
  \<open>tokenExpiryMs\<close>: \<open>expires_at\<close> is the instant its text stands for and the year the host gives it, \<open>None\<close> when the
  property is missing, empty or not a date.
\<close>

definition tokenExpiryMs :: "((int \<times> int) option \<times> int option) option \<Rightarrow> int \<Rightarrow> int option" where
  "tokenExpiryMs token fetchedAt = (case token of None \<Rightarrow> None | Some (expires_at, ttl) \<Rightarrow>
     (case expires_at of
        Some (ms, year) \<Rightarrow> if 2000 \<le> year then Some ms
          else (case ttl of Some n \<Rightarrow> if 0 < n then Some (fetchedAt + n * 1000) else None | None \<Rightarrow> None)
      | None \<Rightarrow> (case ttl of Some n \<Rightarrow> if 0 < n then Some (fetchedAt + n * 1000) else None | None \<Rightarrow> None)))"

text \<open>\<open>useUptime\<close>: the days and the clock; \<open>updatedAt\<close> and \<open>now\<close> are milliseconds.\<close>

definition uptime :: "int option \<Rightarrow> int \<Rightarrow> int \<Rightarrow> (int \<times> jsstring) option" where
  "uptime seconds updatedAt now = map_option (\<lambda>s.
     let u = max 0 ((s * 1000 + (now - updatedAt)) div 1000)
     in (u div 86400, pad2 (u mod 86400 div 3600) @ js '':'' @ pad2 (u mod 3600 div 60) @ js '':'' @ pad2 (u mod 60))) seconds"

definition MAX_SAMPLES :: nat where "MAX_SAMPLES = 60"

text \<open>\<open>useSamples\<close>: the effect of one refetch.\<close>

definition add_sample :: "'a option \<Rightarrow> int \<Rightarrow> 'a list \<Rightarrow> 'a list" where
  "add_sample value stamp prev = (case value of None \<Rightarrow> prev | Some v \<Rightarrow>
     if stamp = 0 then prev else drop (length (prev @ [v]) - MAX_SAMPLES) (prev @ [v]))"

section \<open>The TTL field\<close>

definition UNITS :: "int list" where "UNITS = [86400, 3600, 60, 1]"

definition bestUnit :: "int \<Rightarrow> int" where
  "bestUnit seconds = nullish (if 0 < seconds then find (\<lambda>u. seconds mod u = 0) UNITS else Some 60) 1"

text \<open>
  The unit and the number in the field; \<open>None\<close> is the empty field. The value belongs to the form around it, which stores
  what \<open>onChange\<close> hands over: every operation returns the field and that value.
\<close>

record ttl_field =
  tf_unit :: int
  tf_raw :: "int option"

definition ttl_init :: "int \<Rightarrow> ttl_field" where
  "ttl_init value = \<lparr>tf_unit = bestUnit value, tf_raw = Some (value div bestUnit value)\<rparr>"

definition shown_secs :: "ttl_field \<Rightarrow> int" where
  "shown_secs f = nullish (tf_raw f) 0 * tf_unit f"

text \<open>The effect that follows outside changes.\<close>

definition ttl_follow :: "int \<Rightarrow> ttl_field \<Rightarrow> ttl_field" where
  "ttl_follow value f =
     (if shown_secs f \<noteq> value
      then let u = (if value mod tf_unit f = 0 then tf_unit f else bestUnit value) in \<lparr>tf_unit = u, tf_raw = Some (value div u)\<rparr>
      else f)"

definition setNumber :: "int option \<Rightarrow> ttl_field \<Rightarrow> ttl_field \<times> int" where
  "setNumber n f = (f\<lparr>tf_raw := n\<rparr>, nullish n 0 * tf_unit f)"

definition pickUnit :: "int \<Rightarrow> ttl_field \<Rightarrow> ttl_field \<times> int" where
  "pickUnit u f = (f\<lparr>tf_unit := u\<rparr>, nullish (tf_raw f) 0 * u)"

definition pickPreset :: "int \<Rightarrow> ttl_field \<Rightarrow> ttl_field \<times> int" where
  "pickPreset s f = (\<lparr>tf_unit = bestUnit s, tf_raw = Some (s div bestUnit s)\<rparr>, s)"

definition UNIT_KEY :: "int \<Rightarrow> string" where
  "UNIT_KEY u = (if u = 1 then ''second'' else if u = 60 then ''minute'' else if u = 3600 then ''hour'' else ''day'')"

fun human_parts :: "int list \<Rightarrow> int \<Rightarrow> (string \<times> int) list \<Rightarrow> (string \<times> int) list" where
  "human_parts [] rest parts = parts"
| "human_parts (u # us) rest parts =
     (let n = rest div u in
      human_parts us (rest - n * u) (if 0 < n \<and> length parts < 2 then parts @ [(''ttl.human.'' @ UNIT_KEY u, n)] else parts))"

definition human :: "int \<Rightarrow> (string \<times> int) list" where
  "human s = (if s \<le> 0 then [(''ttl.human.zero'', 0)] else human_parts UNITS s [])"

definition TTL_DEFAULT_MAX :: int where "TTL_DEFAULT_MAX = 2592000"

lemma bestUnit_divides: "bestUnit v \<in> set UNITS" "v mod bestUnit v = 0 \<or> v < 0"
  by (auto simp: bestUnit_def UNITS_def) (metis linorder_cases mod_0)

text \<open>Whatever the user does, and whatever value comes from outside, the field shows the value of the form.\<close>

lemma ttl_field_shows_value:
  assumes "0 \<le> value" "tf_unit f \<in> set UNITS"
  shows "shown_secs (ttl_follow value f) = value" "shown_secs (ttl_init value) = value"
    "shown_secs (fst (setNumber n f)) = snd (setNumber n f)" "shown_secs (fst (pickUnit u f)) = snd (pickUnit u f)"
    "shown_secs (fst (pickPreset value f)) = snd (pickPreset value f)"
proof -
  have "value mod bestUnit value = 0" using bestUnit_divides(2) [of "value"] assms(1) by linarith
  then have b: "value div bestUnit value * bestUnit value = value" by auto
  then show "shown_secs (ttl_follow value f) = value" "shown_secs (ttl_init value) = value"
    "shown_secs (fst (pickPreset value f)) = snd (pickPreset value f)"
    by (auto simp: ttl_follow_def shown_secs_def ttl_init_def pickPreset_def Let_def)
qed (simp_all add: shown_secs_def setNumber_def pickUnit_def)

section \<open>What the printers print, the readers read\<close>

lemma unit_chars:
  "\<not> is_digit (jc CHR ''s'')" "\<not> is_digit (jc CHR ''m'')" "\<not> is_digit (jc CHR ''h'')" "\<not> is_digit (jc CHR ''d'')"
  "\<not> is_ws (jc CHR ''s'')" "\<not> is_ws (jc CHR ''m'')" "\<not> is_ws (jc CHR ''h'')" "\<not> is_ws (jc CHR ''d'')"
  by (simp_all add: is_digit_def is_ws_def)

lemma digit_facts:
  assumes "is_digit c"
  shows "\<not> is_ws c" "\<not> one_of ''smhd'' c" "c \<noteq> jc CHR ''.''" "c \<notin> {jc CHR ''s'', jc CHR ''m'', jc CHR ''h'', jc CHR ''n'', jc CHR ''u'', 0xB5}"
    "lower [c] = [c]"
  using assms by (auto simp: is_digit_def is_ws_def one_of_def lower_def word_le_nat_alt word_less_nat_alt)

lemma exec_DUR_RE:
  assumes "w \<noteq> []" "\<forall>c\<in>set w. is_digit c" "one_of ''smhd'' u"
  shows "exec DUR_RE (w @ [u]) = Some ([], w @ [u], [], [1 \<mapsto> w, 2 \<mapsto> [u]])"
proof -
  have u: "\<not> is_digit u" "\<not> is_ws u" using assms(3) unit_chars by (auto simp: one_of_def)
  let ?tail = "[Opt (Grp 2 (Cls (one_of ''smhd'')))]"
  have ws: "\<not> one_of ''smhd'' x" if "is_ws x" for x using that unit_chars by (auto simp: one_of_def)
  have h1: "halts is_ws (run ?tail (matches Eol))" by (auto simp: halts_def run.simps Opt_def ws)
  have h2: "halts is_digit (run (Star (Cls is_ws) # ?tail) (matches Eol))"
    unfolding halts_def
  proof (intro allI impI)
    fix b xs c and x :: jschar assume "is_digit x"
    then show "run (Star (Cls is_ws) # ?tail) (matches Eol) (b, x # xs, c) = []"
      using digit_facts(1,2) [of x] run_Star [OF h1, of "[]" "x # xs" b c] by (simp add: run.simps Opt_def del: matches.simps(5))
  qed
  have "run (Grp 1 (Plus (Cls is_digit)) # Star (Cls is_ws) # ?tail) (matches Eol) ([], w @ [u], Map.empty) =
      run (Star (Cls is_ws) # ?tail) (matches Eol) (rev w, [u], [1 \<mapsto> w])"
    using run_Grp_Plus [OF h2 assms(1,2), of "[u]" 1 "[]" Map.empty] u(1) by simp
  also have "\<dots> = run ?tail (matches Eol) (rev w, [u], [1 \<mapsto> w])"
    using run_Star [OF h1, of "[]" "[u]" "rev w"] u(2) by simp
  also have "\<dots> = [(u # rev w, [], [1 \<mapsto> w, 2 \<mapsto> [u]])]"
    using assms(3) by (simp add: run.simps Opt_def)
  finally show ?thesis unfolding DUR_RE_def exec_anchored_seqs by simp
qed

lemma trim_lower_printed:
  assumes "w \<noteq> []" "\<forall>c\<in>set w. is_digit c" "one_of ''smhd'' u"
  shows "lower (trim (w @ [u])) = w @ [u]"
proof -
  have "\<not> is_ws u" using assms(3) unit_chars by (auto simp: one_of_def)
  moreover have "\<not> is_ws (hd w)" using assms(1,2) digit_facts(1) by (cases w) auto
  ultimately have "trim (w @ [u]) = w @ [u]" using assms(1) by (intro trim_id) simp_all
  moreover have "lower (w @ [u]) = w @ [u]"
  proof -
    have "lower w = w" using assms(2) by (induction w) (auto simp: lower_def is_digit_def word_le_nat_alt)
    moreover have "lower [u] = [u]" using assms(3) by (auto simp: lower_def one_of_def)
    ultimately show ?thesis by (simp add: lower_def)
  qed
  ultimately show ?thesis by simp
qed

lemma parseDur_printed:
  assumes "n < 2 ^ 53" "one_of ''smhd'' u" "of_nat n * unit_secs [u] = of_int s" "\<bar>s\<bar> < 2 ^ 53"
  shows "parseDur (dec n @ [u]) = Some (Fin (of_int s))"
proof -
  note d = dec_digits [of n, THEN conjunct1] dec_digits [of n, THEN conjunct2]
  have "parseDur (dec n @ [u]) = Some (num_mul (number_of_dec (dec n)) (Fin (unit_secs [u])))"
    by (simp add: parseDur_def trim_lower_printed [OF d assms(2)] exec_DUR_RE [OF d assms(2)] cap_def Let_def)
  then show ?thesis using number_of_dec_nat [OF assms(1)] fl_int [OF assms(4)] assms(3) by simp
qed


lemma DUR_consumes: "consumes (dur_re us)"
proof -
  have "consumes amount_re" by (simp add: amount_re_def Plus_def consumes_Seq)
  then have "consumes (Grp 1 amount_re)" unfolding consumes_def by fastforce
  then show ?thesis by (simp add: dur_re_def consumes_Seq)
qed

text \<open>A single amount with one of the one-letter units, as a loop over the matches reads it.\<close>

lemma alts_digit: "is_digit x \<Longrightarrow> list_all (\<lambda>u. u \<noteq> [] \<and> \<not> is_digit (hd u)) us \<Longrightarrow> matches (alts us) (b, x # xs, c) = []"
  by (induction us rule: alts.induct) (auto simp: matches_Lit starts_with_iff neq_Nil_conv)

lemma matches_amount:
  assumes "w \<noteq> []" "\<forall>c\<in>set w. is_digit c" "a \<noteq> []" "\<not> is_digit (hd a)" "hd a \<noteq> jc CHR ''.''" "halts is_digit k"
  shows "then_m k (matches (Grp 1 amount_re) (b, w @ a, Map.empty)) = k (rev w @ b, a, [1 \<mapsto> w])"
proof -
  let ?opt = "Opt (Seq (Lit (js ''.'')) (Plus (Cls is_digit)))"
  let ?k = "\<lambda>(b', a, c). k (b', a, c(1 \<mapsto> rev (take (length b' - length b) b')))"
  have dot: "then_m ?k (matches ?opt (b', x # xs, c)) = ?k (b', x # xs, c)" if "x \<noteq> jc CHR ''.''" for b' x xs c
    using that by (simp add: Opt_def)
  have "halts is_digit (\<lambda>m. then_m ?k (matches ?opt m))"
    unfolding halts_def
  proof (intro allI impI)
    fix b' xs c and x :: jschar assume x: "is_digit x"
    then have "?k (b', x # xs, c) = []" using assms(6) by (simp add: halts_def)
    then show "then_m ?k (matches ?opt (b', x # xs, c)) = []" using dot [OF digit_facts(3) [OF x]] by simp
  qed
  then have "then_m (\<lambda>m. then_m ?k (matches ?opt m)) (matches (Plus (Cls is_digit)) (b, w @ a, Map.empty)) =
      then_m ?k (matches ?opt (rev w @ b, a, Map.empty))"
    by (rule then_Plus_Cls) (use assms in auto)
  also have "\<dots> = ?k (rev w @ b, a, Map.empty)" using assms(3,5) dot by (cases a) auto
  finally show ?thesis by (simp add: then_Grp amount_re_def matches_Seq_then then_m_assoc del: matches.simps)
qed

lemma exec_all_one:
  assumes "w \<noteq> []" "\<forall>c\<in>set w. is_digit c" "\<not> is_digit u" "u \<noteq> jc CHR ''.''"
    "list_all (\<lambda>u. u \<noteq> [] \<and> \<not> is_digit (hd u)) us" "\<And>b c. matches (alts us) (b, [u], c) = [(u # b, [], c)]"
  shows "exec_all (dur_re us) [] (w @ [u]) = [(w @ [u], [1 \<mapsto> w, 2 \<mapsto> [u]])]"
proof -
  let ?k = "matches (Grp 2 (alts us))"
  have h: "halts is_digit ?k" using alts_digit assms(5) by (simp add: halts_def)
  have "matches (dur_re us) ([], w @ [u], Map.empty) = ?k (rev w, [u], [1 \<mapsto> w])"
    using matches_amount [OF assms(1,2), of "[u]" ?k "[]"] assms(3,4) h by (simp add: dur_re_def matches_Seq_then del: matches.simps)
  also have "\<dots> = [(u # rev w, [], [1 \<mapsto> w, 2 \<mapsto> [u]])]" by (simp add: assms(6))
  finally have "exec_at (dur_re us) [] (w @ [u]) = Some ([], w @ [u], [], [1 \<mapsto> w, 2 \<mapsto> [u]])"
    by (subst exec_at.simps) simp
  moreover have "exec_at (dur_re us) b [] = None" for b
    by (subst exec_at.simps) (simp add: dur_re_def amount_re_def Plus_def)
  ultimately show ?thesis by (subst exec_all.simps) (simp add: exec_all.simps [of _ _ "[]"])
qed


lemma round_whole: "num_round (Fin (of_int s)) = Fin (of_int s)"
proof -
  have "\<lfloor>(of_int s :: rat) + 1 / 2\<rfloor> = s" by linarith
  then show ?thesis by simp
qed

lemma go_units:
  assumes "u \<in> {jc CHR ''h'', jc CHR ''m'', jc CHR ''s''}"
  shows "list_all (\<lambda>u. u \<noteq> [] \<and> \<not> is_digit (hd u)) GO_UNITS" "matches (alts GO_UNITS) (b, [u], c) = [(u # b, [], c)]"
    "list_all (\<lambda>u. u \<noteq> [] \<and> \<not> is_digit (hd u)) TTL_UNITS" "matches (alts TTL_UNITS) (b, [u], c) = [(u # b, [], c)]"
    "\<not> is_digit u" "u \<noteq> jc CHR ''.''"
  using assms by (auto simp: GO_UNITS_def TTL_UNITS_def is_digit_def matches_Lit starts_with_def)

lemma go_read:
  assumes "n < 2 ^ 53" "u \<in> {jc CHR ''h'', jc CHR ''m'', jc CHR ''s''}" "of_nat n * unit_secs [u] = of_int s" "\<bar>s\<bar> < 2 ^ 53"
  shows "num_add (Fin 0) (go_part (w, [1 \<mapsto> dec n, 2 \<mapsto> [u]])) = Fin (of_int s)"
    "num_add (Fin 0) (num_mul (number_of_dec (dec n)) (UNIT_SEC [u])) = Fin (of_int s)"
proof -
  have "u = jc CHR ''s'' \<Longrightarrow> (of_nat n :: rat) = of_int s" using assms(3) by (simp add: unit_secs_def)
  then show "num_add (Fin 0) (go_part (w, [1 \<mapsto> dec n, 2 \<mapsto> [u]])) = Fin (of_int s)"
    "num_add (Fin 0) (num_mul (number_of_dec (dec n)) (UNIT_SEC [u])) = Fin (of_int s)"
    using assms number_of_dec_nat [OF assms(1)] fl_int [OF assms(4)]
    by (auto simp: go_part_def cap_def unit_secs_def UNIT_SEC_def Let_def)
qed

lemma TTL_RE_printed:
  assumes "w \<noteq> []" "\<forall>c\<in>set w. is_digit c" "u \<in> {jc CHR ''h'', jc CHR ''m'', jc CHR ''s''}"
  shows "test TTL_RE (w @ [u])"
proof -
  let ?r = "Seq (Seq (Plus (Cls is_digit)) (Opt (Grp 2 (Seq (Lit (js ''.'')) (Plus (Cls is_digit)))))) (Grp 3 (alts TTL_UNITS))"
  have "w \<in> lang (Plus (Cls is_digit))" using assms(1,2) by (simp add: re_lang del: lang.simps)
  then have "w \<in> lang (Seq (Plus (Cls is_digit)) (Opt (Grp 2 (Seq (Lit (js ''.'')) (Plus (Cls is_digit))))))"
    by (force simp: Opt_def)
  moreover have "[u] \<in> lang (alts TTL_UNITS)" using assms(3) by (auto simp: TTL_UNITS_def lang_Lit)
  ultimately have r: "w @ [u] \<in> lang (Grp 1 ?r)" by auto
  have "[] \<in> lang (Star (Grp 1 ?r))" by (simp add: star_Nil)
  with r have "(w @ [u]) @ [] \<in> lang (Plus (Grp 1 ?r))" unfolding Plus_def [of "Grp 1 ?r"] lang.simps(3) by blast
  moreover have "plain (alts us)" for us by (induction us rule: alts.induct) simp_all
  ultimately show ?thesis unfolding TTL_RE_def by (subst test_anchored) simp_all
qed

lemma readers_printed:
  assumes "n < 2 ^ 53" "u \<in> {jc CHR ''h'', jc CHR ''m'', jc CHR ''s''}" "of_nat n * unit_secs [u] = of_int s" "0 < s" "s < 2 ^ 53"
  shows "parseGoDuration (Some (dec n @ [u])) = Some (Fin (of_int s)) \<and> parseTtl (dec n @ [u]) = Some (Fin (of_int s))"
proof
  note d = dec_digits [of n, THEN conjunct1] dec_digits [of n, THEN conjunct2]
  note g = go_units [OF assms(2)]
  have s: "\<bar>s\<bar> < 2 ^ 53" using assms(4,5) by simp
  show "parseGoDuration (Some (dec n @ [u])) = Some (Fin (of_int s))"
    using exec_all_one [OF d g(5,6,1,2)] go_read(1) [OF assms(1-3) s] round_whole
    by (simp add: parseGoDuration_def Let_def)
  have "trim (dec n @ [u]) = dec n @ [u]"
    using d digit_facts(1) unit_chars assms(2) by (intro trim_id) (auto simp: neq_Nil_conv)
  moreover have "num_le (Fin 1) (Fin (of_int s))" using assms(4) by simp
  ultimately show "parseTtl (dec n @ [u]) = Some (Fin (of_int s))"
    using exec_all_one [OF d g(5,6,3,4)] go_read(2) [OF assms(1-3) s] round_whole TTL_RE_printed [OF d assms(2)]
    by (simp add: parseTtl_def Let_def cap_def)
qed

lemma printed_amount:
  assumes "0 < s" "s < 2 ^ 53" "s mod k = 0" "k \<in> {86400, 3600, 60, 1 :: int}"
  obtains n where "dec_int (s div k) = dec n" "n < 2 ^ 53" "(of_nat n :: rat) * of_int k = of_int s"
proof
  have "0 \<le> s div k" using assms by auto
  then show "dec_int (s div k) = dec (nat (s div k))" by (simp add: dec_int_def)
  have "s div k \<le> s" using assms by (auto intro: int_div_less_self less_imp_le)
  then have "s div k < 2 ^ 53" using assms(2) by (rule le_less_trans)
  then show "nat (s div k) < 2 ^ 53" by (simp add: nat_less_iff \<open>0 \<le> s div k\<close>)
  have "s div k * k = s" using assms(3) by auto
  then show "(of_nat (nat (s div k)) :: rat) * of_int k = of_int s"
    using \<open>0 \<le> s div k\<close> by (metis of_int_mult of_int_of_nat_eq int_nat_eq)
qed

text \<open>
  C31: every duration the console prints into a form or a request is read back as the same number of seconds: the short
  form of a role's drawer by its own parser, and the durations sent to the server by both parsers of the Go notation.
\<close>

theorem durations_read_back:
  assumes "0 < s" "s < 2 ^ 53"
  shows "parseDur (fmtShort s) = Some (Fin (of_int s)) \<and>
    (\<exists>t. toGoDuration s = Some t \<and> parseGoDuration (Some t) = Some (Fin (of_int s)) \<and> parseTtl t = Some (Fin (of_int s))) \<and>
    (\<exists>t. toDur s = Some t \<and> parseGoDuration (Some t) = Some (Fin (of_int s)) \<and> parseTtl t = Some (Fin (of_int s)))"
proof -
  have one: "s mod 1 = 0" "s div 1 = s" by simp_all
  have units: "one_of ''smhd'' (jc CHR ''d'')" "one_of ''smhd'' (jc CHR ''h'')" "one_of ''smhd'' (jc CHR ''m'')" "one_of ''smhd'' (jc CHR ''s'')"
    by (simp_all add: one_of_def)
  have short: "parseDur (dec_int (s div k) @ [u]) = Some (Fin (of_int s))"
    if "s mod k = 0" "k \<in> {86400, 3600, 60, 1}" "one_of ''smhd'' u" "unit_secs [u] = of_int k" for k u
    using printed_amount [OF assms that(1,2)] parseDur_printed [OF _ that(3)] that(4) assms by (metis abs_of_pos)
  have go: "parseGoDuration (Some (dec_int (s div k) @ [u])) = Some (Fin (of_int s)) \<and> parseTtl (dec_int (s div k) @ [u]) = Some (Fin (of_int s))"
    if "s mod k = 0" "k \<in> {86400, 3600, 60, 1}" "u \<in> {jc CHR ''h'', jc CHR ''m'', jc CHR ''s''}" "unit_secs [u] = of_int k" for k u
    using printed_amount [OF assms that(1,2)] readers_printed [OF _ that(3) _ assms] that(4) by metis
  have "parseDur (fmtShort s) = Some (Fin (of_int s))"
    using short [of 86400 "jc CHR ''d''"] short [of 3600 "jc CHR ''h''"] short [of 60 "jc CHR ''m''"] short [of 1 "jc CHR ''s''"]
      assms(1) one units by (simp add: fmtShort_def unit_secs_def)
  moreover have "\<exists>t. toGoDuration s = Some t \<and> parseGoDuration (Some t) = Some (Fin (of_int s)) \<and> parseTtl t = Some (Fin (of_int s))"
    using go [of 3600 "jc CHR ''h''"] go [of 60 "jc CHR ''m''"] go [of 1 "jc CHR ''s''"] assms(1) one
    by (simp add: toGoDuration_def unit_secs_def)
  moreover have "\<exists>t. toDur s = Some t \<and> parseGoDuration (Some t) = Some (Fin (of_int s)) \<and> parseTtl t = Some (Fin (of_int s))"
    using go [of 1 "jc CHR ''s''"] assms(1) one by (simp add: toDur_def unit_secs_def)
  ultimately show ?thesis by blast
qed

theorem durations_read_back_witness: "parseDur (fmtShort 5400) = Some (Fin 5400)"
  using durations_read_back [of 5400] by simp

end
