(* ===== verification/Audit_Sinks.thy ===== *)
theory Audit_Sinks
  imports Js_Number Api_Client
begin

text \<open>
  The audit endpoints (\<open>shared/api/endpoints/audit.ts\<close>), the form for a new audit sink with its validation and preview,
  and the helpers of \<open>audit-sinks/lib.tsx\<close>. A number field holds what the input handed over, a number or a text
  (\<open>field\<close>); translated messages are their keys.
\<close>

section \<open>Endpoints\<close>

record sink_stats =
  st_sent :: nat
  st_bytes :: nat
  st_errors :: nat
  st_retries :: nat
  st_dropped :: nat
  st_skipped :: nat
  st_queue :: nat
  st_consecutive_failures :: nat
  st_paused :: bool
  st_last_error :: "jsstring option"
  st_last_error_at :: "jsstring option"
  st_last_success_at :: "jsstring option"
  st_next_retry_at :: "jsstring option"

datatype sink_type = FileSink | SyslogSink | WebhookSink

datatype sink_health = Failing | Inactive | HealthOk | HealthPaused

record audit_sink =
  si_name :: jsstring
  si_type :: sink_type
  si_options :: "(jsstring \<times> jsstring) list option"
  si_errors :: nat
  si_enabled :: bool
  si_active :: bool
  si_health :: sink_health
  si_stats :: "sink_stats option"

record audit_capabilities =
  ac_syslog :: bool
  ac_pause :: bool

record audit_sink_list =
  al_capabilities :: audit_capabilities
  al_sinks :: "audit_sink list"

definition listAuditSinks :: request where
  "listAuditSinks = with_params [(js ''list'', js ''true'')] (rq GET (js ''/v1/sys/audit/''))"

definition audit_sink_answer :: "audit_sink list option \<Rightarrow> audit_capabilities option \<Rightarrow> audit_sink_list" where
  "audit_sink_answer sinks caps =
     \<lparr>al_capabilities = nullish caps \<lparr>ac_syslog = False, ac_pause = True\<rparr>, al_sinks = nullish sinks []\<rparr>"

definition putWebhookSink :: "jsstring \<Rightarrow> jsstring \<Rightarrow> nat option \<Rightarrow> request" where
  "putWebhookSink name url timeoutSec = with_json (obj_lit [(''url'', Some (JStr url)), (''timeout_sec'', map_option jnum timeoutSec)])
     (rq PUT (js ''/v1/sys/audit/webhook/'' @ name))"

definition putFileSink :: "jsstring \<Rightarrow> jsstring \<Rightarrow> nat option \<Rightarrow> nat option \<Rightarrow> request" where
  "putFileSink name path maxSizeMb maxBackups = with_json (obj_lit [(''path'', Some (JStr path)),
       (''max_size_mb'', map_option jnum maxSizeMb), (''max_backups'', map_option jnum maxBackups)])
     (rq PUT (js ''/v1/sys/audit/file/'' @ name))"

definition putSyslogSink :: "jsstring \<Rightarrow> jsstring \<Rightarrow> jsstring \<Rightarrow> jsstring \<Rightarrow> request" where
  "putSyslogSink name network addr facility = with_json (obj_lit [(''network'', Some (JStr network)),
       (''addr'', Some (JStr addr)), (''facility'', Some (JStr facility))])
     (rq PUT (js ''/v1/sys/audit/syslog/'' @ name))"

definition putSinkState :: "jsstring \<Rightarrow> bool \<Rightarrow> request" where
  "putSinkState name enabled = with_json (obj_lit [(''enabled'', Some (JBool enabled))]) (rq PUT (js ''/v1/sys/audit/state/'' @ name))"

definition deleteAuditSink :: "jsstring \<Rightarrow> request" where
  "deleteAuditSink name = rq DELETE (js ''/v1/sys/audit/'' @ name)"

record audit_event =
  ae_time :: jsstring
  ae_seq :: "nat option"
  ae_request_id :: "jsstring option"
  ae_method :: jsstring
  ae_path :: jsstring
  ae_operation :: "jsstring option"
  ae_namespace :: "jsstring option"
  ae_status :: nat
  ae_client_ip :: "jsstring option"
  ae_fingerprint :: "jsstring option"
  ae_identity :: "jsstring option"
  ae_entity_id :: "jsstring option"
  ae_duration_ms :: num
  ae_prev_hash :: jsstring
  ae_hash :: jsstring

record audit_filter =
  af_path :: "jsstring option"
  af_operation :: "jsstring option"
  af_status :: "jsstring option"
  af_namespace :: "jsstring option"
  af_q :: "jsstring option"
  af_since :: "jsstring option"
  af_until :: "jsstring option"

definition param_if :: "string \<Rightarrow> jsstring option \<Rightarrow> (jsstring \<times> jsstring) list" where
  "param_if k v = (if truthy_str v then [(js k, the v)] else [])"

definition param_unless_all :: "string \<Rightarrow> jsstring option \<Rightarrow> (jsstring \<times> jsstring) list" where
  "param_unless_all k v = (if v = Some (js ''all'') then [] else param_if k v)"

definition filterParams :: "audit_filter \<Rightarrow> (jsstring \<times> jsstring) list" where
  "filterParams f = param_if ''path'' (af_path f) @ param_unless_all ''operation'' (af_operation f) @
     param_unless_all ''status'' (af_status f) @ param_unless_all ''namespace'' (af_namespace f) @
     param_if ''q'' (af_q f) @ param_if ''since'' (af_since f) @ param_if ''until'' (af_until f)"

definition count_param :: "string \<Rightarrow> nat option \<Rightarrow> (jsstring \<times> jsstring) list" where
  "count_param k n = (case n of Some m \<Rightarrow> if m = 0 then [] else [(js k, dec m)] | None \<Rightarrow> [])"

definition getAuditEvents :: "audit_filter \<Rightarrow> nat option \<Rightarrow> nat option \<Rightarrow> request" where
  "getAuditEvents f limit afterSeq = with_params (filterParams f @ count_param ''limit'' limit @ count_param ''after_seq'' afterSeq)
     (rq GET (js ''/v1/sys/audit/events''))"

definition getAuditStats :: "nat \<Rightarrow> request" where
  "getAuditStats minutes = with_params [(js ''minutes'', dec minutes)] (rq GET (js ''/v1/sys/audit/stats''))"

definition postAuditVerify :: "jsstring \<Rightarrow> jsstring option \<Rightarrow> request" where
  "postAuditVerify source sink = with_json (obj_lit [(''source'', Some (JStr source)), (''sink'', map_option JStr sink)])
     (rq POST (js ''/v1/sys/audit/verify''))"

text \<open>\<open>URLSearchParams.toString\<close>: the form encoding of the UTF-8 bytes.\<close>

definition form_plain :: "nat \<Rightarrow> bool" where
  "form_plain b \<longleftrightarrow> b < 128 \<and> (let c = of_nat b in in_range CHR ''A'' CHR ''Z'' c \<or> in_range CHR ''a'' CHR ''z'' c \<or> is_digit c \<or>
     c \<in> set (js ''*-._''))"

definition form_encode :: "jsstring \<Rightarrow> jsstring" where
  "form_encode s = concat (map (\<lambda>b. if b = 0x20 then js ''+'' else if form_plain b then [of_nat b] else pct b) (text_encode s))"

definition search_string :: "(jsstring \<times> jsstring) list \<Rightarrow> jsstring" where
  "search_string ps = join (js ''&'') (map (\<lambda>(k, v). form_encode k @ js ''='' @ form_encode v) ps)"

definition auditStreamUrl :: "audit_filter \<Rightarrow> jsstring option \<Rightarrow> jsstring" where
  "auditStreamUrl f sinceSeq =
     (let qs = search_string (filterParams f @ (case sinceSeq of Some n \<Rightarrow> [(js ''since_seq'', n)] | None \<Rightarrow> []))
      in js ''/v1/sys/audit/events/stream'' @ (if qs \<noteq> [] then js ''?'' @ qs else []))"

section \<open>The form for a new sink\<close>

datatype field = FNum num | FText jsstring

fun field_number :: "field \<Rightarrow> num" where
  "field_number (FNum x) = x"
| "field_number (FText s) = str_number s"

record sink_fields =
  sf_addr :: jsstring
  sf_facility :: jsstring
  sf_maxBackups :: field
  sf_maxSizeMb :: field
  sf_name :: jsstring
  sf_network :: jsstring
  sf_path :: jsstring
  sf_timeoutSec :: field
  sf_type :: sink_type
  sf_url :: jsstring

definition SINK_NAME_RE :: re where
  "SINK_NAME_RE = anchored (Seq (Cls (\<lambda>c. in_range CHR ''a'' CHR ''z'' c \<or> is_digit c))
     (Seq (Cls (\<lambda>c. in_range CHR ''a'' CHR ''z'' c \<or> is_digit c \<or> c = jc CHR ''-''))
       (Upto 30 (Cls (\<lambda>c. in_range CHR ''a'' CHR ''z'' c \<or> is_digit c \<or> c = jc CHR ''-'')))))"

definition isPosInt :: "field \<Rightarrow> num \<Rightarrow> num \<Rightarrow> bool" where
  "isPosInt v mn mx \<longleftrightarrow> v \<noteq> FText [] \<and> is_integer (field_number v) \<and> num_le mn (field_number v) \<and> num_le (field_number v) mx"

text \<open>\<open>/^(\/|[A-Za-z]:[\\/])/\<close> and \<open>/^https?:\/\/[^\s/]+/i\<close>\<close>

definition is_letter :: "jschar \<Rightarrow> bool" where
  "is_letter c \<longleftrightarrow> in_range CHR ''a'' CHR ''z'' c \<or> in_range CHR ''A'' CHR ''Z'' c"

definition ABS_RE :: re where
  "ABS_RE = Seq Bol (Alt (Lit (js ''/'')) (Seq (Cls is_letter) (Seq (Lit (js '':'')) (Cls (\<lambda>c. c = 0x5C \<or> c = jc CHR ''/'')))))"

definition either_case :: "string \<Rightarrow> re" where
  "either_case s = seqs (map (\<lambda>d. Cls (\<lambda>c. lower [c] = js [d])) s)"

definition URL_RE :: re where
  "URL_RE = Seq Bol (Seq (either_case ''http'') (Seq (Opt (either_case ''s'')) (Seq (Lit (js ''://''))
     (Plus (Cls (\<lambda>c. \<not> is_ws c \<and> c \<noteq> jc CHR ''/''))))))"

definition err_if :: "bool \<Rightarrow> string \<Rightarrow> string \<Rightarrow> (string \<times> string) list" where
  "err_if p k m = (if p then [(k, m)] else [])"

definition validateSink :: "sink_fields \<Rightarrow> (string \<times> string) list" where
  "validateSink f =
     (let name = trim (sf_name f) in
      (if name = [] then [(''name'', ''errNameRequired'')] else err_if (\<not> test SINK_NAME_RE name) ''name'' ''errNameChars'')) @
     (case sf_type f of
        FileSink \<Rightarrow>
          (let p = trim (sf_path f) in
           if p = [] then [(''path'', ''errPathRequired'')] else err_if (\<not> test ABS_RE p) ''path'' ''errPathAbs'') @
          err_if (\<not> isPosInt (sf_maxSizeMb f) (Fin 1) PInf) ''size'' ''errSize'' @
          err_if (\<not> isPosInt (sf_maxBackups f) (Fin 1) PInf) ''backups'' ''errBackups''
      | WebhookSink \<Rightarrow>
          (let u = trim (sf_url f) in
           if u = [] then [(''url'', ''errUrlRequired'')] else err_if (\<not> test URL_RE u) ''url'' ''errUrlFormat'') @
          err_if (\<not> isPosInt (sf_timeoutSec f) (Fin 1) (Fin 60)) ''timeout'' ''errTimeout''
      | SyslogSink \<Rightarrow> err_if (sf_network f \<noteq> [] \<and> trim (sf_addr f) = []) ''addr'' ''errAddrRequired'')"

definition urlWarning :: "jsstring \<Rightarrow> bool" where
  "urlWarning url \<longleftrightarrow> test (Seq Bol (Seq (either_case ''http'') (Lit (js ''://'')))) (trim url)"

text \<open>The preview of the request; a value is a text or a number.\<close>

definition or_else :: "jsstring \<Rightarrow> jsstring \<Rightarrow> jsstring" where
  "or_else a b = (if a = [] then b else a)"

definition buildBody :: "sink_fields \<Rightarrow> (string \<times> field) list \<times> jsstring" where
  "buildBody f =
     (let name = or_else (trim (sf_name f)) ellipsis in
      case sf_type f of
        FileSink \<Rightarrow>
          ([(''path'', FText (or_else (trim (sf_path f)) (js ''/var/log/tuck/audit.log''))),
            (''max_size_mb'', FNum (num_or (field_number (sf_maxSizeMb f)) (Fin 100))),
            (''max_backups'', FNum (num_or (field_number (sf_maxBackups f)) (Fin 7)))], js ''/v1/sys/audit/file/'' @ name)
      | SyslogSink \<Rightarrow>
          ([(''network'', FText (or_else (sf_network f) (js ''tcp''))),
            (''addr'', FText (or_else (trim (sf_addr f)) (js ''rsyslog.example.internal:6514''))),
            (''facility'', FText (or_else (sf_facility f) (js ''local0'')))], js ''/v1/sys/audit/syslog/'' @ name)
      | WebhookSink \<Rightarrow>
          ([(''url'', FText (or_else (trim (sf_url f)) (js ''https://siem.example.org/tuck/ingest''))),
            (''timeout_sec'', FNum (num_or (field_number (sf_timeoutSec f)) (Fin 5)))], js ''/v1/sys/audit/webhook/'' @ name))"

record sink_form =
  fo_fields :: sink_fields
  fo_creating :: bool
  fo_touched :: bool
  fo_serverErr :: jsstring
  fo_pending :: bool
  fo_fresh :: "jsstring option"

definition empty_fields :: sink_fields where
  "empty_fields = \<lparr>sf_addr = [], sf_facility = js ''local0'', sf_maxBackups = FNum (Fin 7), sf_maxSizeMb = FNum (Fin 100),
     sf_name = [], sf_network = js ''tcp'', sf_path = [], sf_timeoutSec = FNum (Fin 5), sf_type = WebhookSink, sf_url = []\<rparr>"

definition resetForm :: "sink_form \<Rightarrow> sink_form" where
  "resetForm s = s\<lparr>fo_fields := empty_fields, fo_touched := False, fo_serverErr := []\<rparr>"

definition openCreate :: "sink_form \<Rightarrow> sink_form" where
  "openCreate s = (resetForm s)\<lparr>fo_creating := True\<rparr>"

text \<open>A number that passed \<open>isPosInt\<close> as the natural number it is.\<close>

fun num_nat :: "num \<Rightarrow> nat" where
  "num_nat (Fin x) = nat \<lfloor>x\<rfloor>"
| "num_nat _ = 0"

definition create_request :: "sink_fields \<Rightarrow> request" where
  "create_request f =
     (let n = trim (sf_name f) in
      case sf_type f of
        WebhookSink \<Rightarrow> putWebhookSink n (trim (sf_url f)) (Some (num_nat (field_number (sf_timeoutSec f))))
      | SyslogSink \<Rightarrow> putSyslogSink n (sf_network f) (trim (sf_addr f)) (sf_facility f)
      | FileSink \<Rightarrow> putFileSink n (trim (sf_path f)) (Some (num_nat (field_number (sf_maxSizeMb f))))
          (Some (num_nat (field_number (sf_maxBackups f)))))"

definition submitCreate :: "sink_form \<Rightarrow> sink_form \<times> request option" where
  "submitCreate s =
     (if fo_pending s then (s, None)
      else if validateSink (fo_fields s) \<noteq> [] then (s\<lparr>fo_touched := True\<rparr>, None)
      else (s\<lparr>fo_touched := True, fo_serverErr := [], fo_pending := True\<rparr>, Some (create_request (fo_fields s))))"

definition create_onSuccess :: "sink_form \<Rightarrow> sink_form" where
  "create_onSuccess s = s\<lparr>fo_creating := False, fo_fresh := Some (trim (sf_name (fo_fields s))), fo_pending := False\<rparr>"

text \<open>What the page reads out of a failed request: the error text of the response, nothing else.\<close>

fun serverMessage_audit :: "failure \<Rightarrow> jsstring option" where
  "serverMessage_audit (AxiosError r m) = (case r of Some x \<Rightarrow> rs_error x | None \<Rightarrow> None)"
| "serverMessage_audit _ = None"

definition create_onError :: "failure \<Rightarrow> sink_form \<Rightarrow> sink_form" where
  "create_onError err s = s\<lparr>fo_serverErr := nullish (serverMessage_audit err) [], fo_pending := False\<rparr>"

section \<open>Helpers of the list and the log\<close>

definition opt_get :: "audit_sink \<Rightarrow> string \<Rightarrow> jsstring option" where
  "opt_get s k = map_of (nullish (si_options s) []) (js k)"

definition sinkTarget :: "audit_sink \<Rightarrow> jsstring" where
  "sinkTarget s =
     (if truthy_str (opt_get s ''url'') then the (opt_get s ''url'')
      else if truthy_str (opt_get s ''path'') then the (opt_get s ''path'')
      else if truthy_str (opt_get s ''addr'') then
        (if truthy_str (opt_get s ''network'') then the (opt_get s ''network'') @ js ''://'' else []) @ the (opt_get s ''addr'')
      else em_dash)"

text \<open>Below, an empty key stands for the em dash.\<close>

definition opt_number :: "jsstring option \<Rightarrow> num" where
  "opt_number v = (case v of Some s \<Rightarrow> str_number s | None \<Rightarrow> NaN)"

definition sinkMeta :: "audit_sink \<Rightarrow> string \<times> (string \<times> field) list" where
  "sinkMeta s = (case si_type s of
      FileSink \<Rightarrow> (''meta.rotation'', [(''size'', FNum (num_or (opt_number (opt_get s ''max_size_mb'')) (Fin 100))),
        (''backups'', FNum (num_or (opt_number (opt_get s ''max_backups'')) (Fin 7)))])
    | WebhookSink \<Rightarrow> (''meta.timeout'', [(''sec'', FNum (num_or (opt_number (opt_get s ''timeout_sec'')) (Fin 5)))])
    | SyslogSink \<Rightarrow> if truthy_str (opt_get s ''facility'') then (''meta.facility'', [(''facility'', FText (the (opt_get s ''facility'')))])
        else ([], []))"

text \<open>The value in its unit; dividing by 1024 is exact.\<close>

fun scale_bytes :: "rat \<Rightarrow> string list \<Rightarrow> rat \<times> string" where
  "scale_bytes v [] = (v, [])"
| "scale_bytes v [u] = (v, u)"
| "scale_bytes v (u # us) = (if 1024 \<le> v then scale_bytes (v / 1024) us else (v, u))"

definition formatBytes :: "nat \<Rightarrow> jsstring" where
  "formatBytes n = (if n = 0 then js ''0 B''
     else case scale_bytes (of_nat n) [''B'', ''KB'', ''MB'', ''GB'', ''TB''] of
       (v, u) \<Rightarrow> (if u = ''B'' then dec n else to_fixed1 v) @ js '' '' @ js u)"

definition relTime :: "int option \<Rightarrow> string \<times> int" where
  "relTime age = (case age of None \<Rightarrow> ([], 0) | Some ms \<Rightarrow>
     (let s = max 0 (round_div ms 1000) in
      if s < 2 then (''time.now'', 0) else if s < 60 then (''time.secAgo'', s)
      else if s < 3600 then (''time.minAgo'', s div 60) else if s < 86400 then (''time.hourAgo'', s div 3600)
      else (''time.dayAgo'', s div 86400)))"

datatype severity = SvErr | SvOk | SvWarn

definition severityOf :: "nat \<Rightarrow> severity" where
  "severityOf st = (if 500 \<le> st then SvErr else if 400 \<le> st then SvWarn else SvOk)"

definition operationOf :: "audit_event \<Rightarrow> jsstring" where
  "operationOf e =
     (if truthy_str (ae_operation e) then the (ae_operation e)
      else let m = lower (ae_method e) in
        if m = js ''get'' \<or> m = js ''head'' then (if includes_str (ae_path e) (js ''login'') then js ''login'' else js ''read'')
        else if m = js ''put'' \<or> m = js ''post'' \<or> m = js ''patch'' then js ''write''
        else if m = js ''delete'' then js ''delete'' else js ''other'')"

datatype time_range = R15m | R1h | R24h | RAll

fun sinceFromRange :: "time_range \<Rightarrow> jsstring option" where
  "sinceFromRange R15m = Some (js ''15m'')"
| "sinceFromRange R1h = Some (js ''1h'')"
| "sinceFromRange R24h = Some (js ''24h'')"
| "sinceFromRange RAll = None"

record log_filter_state =
  lf_namespace :: jsstring
  lf_operation :: jsstring
  lf_path :: jsstring
  lf_q :: jsstring
  lf_range :: time_range
  lf_status :: jsstring

definition or_undefined :: "jsstring \<Rightarrow> jsstring option" where
  "or_undefined s = (if s = [] then None else Some s)"

definition filterStateToApi :: "log_filter_state \<Rightarrow> audit_filter" where
  "filterStateToApi f = \<lparr>af_path = or_undefined (trim (lf_path f)), af_operation = Some (lf_operation f),
     af_status = Some (lf_status f), af_namespace = Some (lf_namespace f), af_q = or_undefined (trim (lf_q f)),
     af_since = sinceFromRange (lf_range f), af_until = None\<rparr>"

definition DEFAULT_FILTER :: log_filter_state where
  "DEFAULT_FILTER = \<lparr>lf_namespace = js ''all'', lf_operation = js ''all'', lf_path = [], lf_q = [], lf_range = R1h, lf_status = js ''all''\<rparr>"

text \<open>The text of the download: one event per line.\<close>

definition ndjson :: "jsstring list \<Rightarrow> jsstring" where
  "ndjson events = join [0x0A] events @ (if events \<noteq> [] then [0x0A] else [])"

end
