(* ===== verification/Session_Auth.thy ===== *)
theory Session_Auth
  imports Api_Client
begin

text \<open>
  The session of the console: the token and namespace in \<open>localStorage\<close> (\<open>shared/auth/token.ts\<close>), the axios
  interceptors (\<open>shared/api/axios.ts\<close>), the logout emitter, \<open>AuthProvider\<close>, \<open>AuthGuard\<close> and the routes, the
  session-expired note, the sign-in handlers of the login page, the OIDC callback page and the namespace switcher.

  The state is the record \<open>console\<close>: the two storages, the state of the provider, the listeners of the emitter, the
  location, the login page when it is mounted, and the continuation that is suspended on an \<open>await\<close> (\<open>task\<close>, with the
  request it waits for). An \<open>event\<close> is a user action or the answer to an outstanding request; \<open>handle\<close> runs the
  handler up to its next \<open>await\<close> and renders, which follows the redirects of the guard. \<open>reach\<close> is the set of states a
  tab can get into, with the log of the lookup-self requests that were answered successfully.

  Locations are those of the route table. The user is taken to stay on the login page while a sign-in is
  outstanding, and the storages to be changed by this tab only.
\<close>

section \<open>Storage: shared/auth/token.ts, session-expired.ts, oidc.ts\<close>

definition TOKEN_KEY :: jsstring where "TOKEN_KEY = js ''tuck_token''"

definition NAMESPACE_KEY :: jsstring where "NAMESPACE_KEY = js ''tuck_namespace''"

definition MODE_KEY :: jsstring where "MODE_KEY = js ''tuck_login_mode''"

definition OIDC_STATE_KEY :: jsstring where "OIDC_STATE_KEY = js ''tuck_oidc_state''"

definition EXPIRED_KEY :: jsstring where "EXPIRED_KEY = js ''tuck_session_expired''"

datatype listener = LogoutUser | NoteExpired

datatype login_mode = MToken | MLdap | MSso

datatype login_phase = Busy | Failed | Idle | Accepted

record login_page =
  rawMode :: login_mode
  ssoEnabled :: bool
  sealed :: bool
  username :: jsstring
  password :: jsstring
  token_input :: jsstring
  pasted :: "bool option"
  phase :: login_phase
  failMsg :: "(jsstring \<times> string) option"
  nsChoices :: "jsstring list option"
  expired :: "json option"

datatype task =
    NoTask
  | AwaitBoot request
  | AwaitLdap request
  | AwaitLookup bool request
  | AwaitDoor
  | AwaitSso request
  | AwaitExchange request
  | AwaitOidcLookup request

record console =
  local_storage :: "jsstring \<Rightarrow> jsstring option"
  session_storage :: "jsstring \<Rightarrow> jsstring option"
  session_usable :: bool
  isAuthenticated :: bool
  isInitialized :: bool
  listeners :: "listener list"
  pathname :: jsstring
  login :: "login_page option"
  oidc_started :: bool
  oidc_error :: "string option"
  task :: task
  assigned :: "jsstring option"

definition getToken :: "console \<Rightarrow> jsstring option" where
  "getToken c = local_storage c TOKEN_KEY"

definition setToken :: "jsstring \<Rightarrow> console \<Rightarrow> console" where
  "setToken t c = c\<lparr>local_storage := (local_storage c)(TOKEN_KEY := Some t)\<rparr>"

definition removeToken :: "console \<Rightarrow> console" where
  "removeToken c = c\<lparr>local_storage := (local_storage c)(TOKEN_KEY := None)\<rparr>"

definition getNamespace :: "console \<Rightarrow> jsstring option" where
  "getNamespace c = local_storage c NAMESPACE_KEY"

definition setNamespace :: "jsstring \<Rightarrow> console \<Rightarrow> console" where
  "setNamespace n c = c\<lparr>local_storage := (local_storage c)(NAMESPACE_KEY := if n \<noteq> [] then Some n else None)\<rparr>"

text \<open>\<open>{ at: new Date().toISOString(), ...info }\<close>: the time is an argument; an absent \<open>expiresAt\<close> is not printed.\<close>

definition markSessionExpired :: "jsstring \<Rightarrow> jsstring option \<Rightarrow> console \<Rightarrow> console" where
  "markSessionExpired now expiresAt c =
     (if session_usable c
      then c\<lparr>session_storage := (session_storage c)(EXPIRED_KEY := Some (stringify (\<lambda>x. x)
        (obj_lit [(''at'', Some (JStr now)), (''expiresAt'', map_option JStr expiresAt)])))\<rparr>
      else c)"

definition peekSessionExpired :: "console \<Rightarrow> json option" where
  "peekSessionExpired c =
     (if session_usable c then
        (case session_storage c EXPIRED_KEY of None \<Rightarrow> None | Some raw \<Rightarrow> if raw = [] then None else JSON_parse raw)
      else None)"

definition clearSessionExpired :: "console \<Rightarrow> console" where
  "clearSessionExpired c =
     (if session_usable c then c\<lparr>session_storage := (session_storage c)(EXPIRED_KEY := None)\<rparr> else c)"

section \<open>Interceptors and the logout emitter\<close>

definition set_header :: "jsstring \<Rightarrow> jsstring \<Rightarrow> request \<Rightarrow> request" where
  "set_header k v r = r\<lparr>rq_headers := filter (\<lambda>(k', v'). k' \<noteq> k) (rq_headers r) @ [(k, v)]\<rparr>"

definition get_header :: "jsstring \<Rightarrow> request \<Rightarrow> jsstring option" where
  "get_header k r = map_of (rq_headers r) k"

definition X_Tuck_Token :: jsstring where "X_Tuck_Token = js ''X-Tuck-Token''"

definition X_Tuck_Namespace :: jsstring where "X_Tuck_Namespace = js ''X-Tuck-Namespace''"

definition set_if :: "jsstring \<Rightarrow> jsstring option \<Rightarrow> request \<Rightarrow> request" where
  "set_if k v r = (case v of None \<Rightarrow> r | Some x \<Rightarrow> if x = [] then r else set_header k x r)"

definition on_request :: "console \<Rightarrow> request \<Rightarrow> request" where
  "on_request c r = set_if X_Tuck_Namespace (getNamespace c) (set_if X_Tuck_Token (getToken c) r)"

definition subscribe :: "listener \<Rightarrow> console \<Rightarrow> console" where
  "subscribe l c = (if l \<in> set (listeners c) then c else c\<lparr>listeners := listeners c @ [l]\<rparr>)"

definition unsubscribe :: "listener \<Rightarrow> console \<Rightarrow> console" where
  "unsubscribe l c = c\<lparr>listeners := filter (\<lambda>x. x \<noteq> l) (listeners c)\<rparr>"

definition logoutUser :: "console \<Rightarrow> console" where
  "logoutUser c = (removeToken c)\<lparr>isAuthenticated := False\<rparr>"

text \<open>The clock and the expiry known from lookup-self, which the note of \<open>MainLayout\<close> records.\<close>

type_synonym stamp = "jsstring \<times> jsstring option"

fun call :: "stamp \<Rightarrow> listener \<Rightarrow> console \<Rightarrow> console" where
  "call st LogoutUser c = logoutUser c"
| "call st NoteExpired c = markSessionExpired (fst st) (snd st) c"

definition emit :: "stamp \<Rightarrow> console \<Rightarrow> console" where
  "emit st c = fold (call st) (listeners c) c"

definition on_error :: "stamp \<Rightarrow> failure \<Rightarrow> console \<Rightarrow> console" where
  "on_error st err c = (if status err = Some 401 then emit st c else c)"

section \<open>Routes and the guard\<close>

definition AUTH_ROOT :: jsstring where "AUTH_ROOT = js ''/auth''"

definition AUTH_LOGIN :: jsstring where "AUTH_LOGIN = js ''/auth/login''"

definition AUTH_OIDC_CALLBACK :: jsstring where "AUTH_OIDC_CALLBACK = js ''/auth/oidc/callback''"

definition DASHBOARD_STATUS :: jsstring where "DASHBOARD_STATUS = js ''/dashboard/status''"

definition dashboard_routes :: "jsstring list" where
  "dashboard_routes = map js
     [''/dashboard/status'', ''/dashboard/secrets/kv1'', ''/dashboard/secrets/kv2'', ''/dashboard/tokens'',
      ''/dashboard/policies'', ''/dashboard/auth-methods'', ''/dashboard/wrapping'', ''/dashboard/namespaces'',
      ''/dashboard/token-roles'', ''/dashboard/audit-sinks'', ''/dashboard/cluster'', ''/dashboard/mounts'',
      ''/dashboard/teams'', ''/dashboard/tucksecrets'']"

text \<open>The locations under the guard: the index route, the two sign-in pages and the dashboard.\<close>

definition router :: "jsstring list" where
  "router = [js ''/'', AUTH_LOGIN, AUTH_OIDC_CALLBACK] @ dashboard_routes"

datatype view = LoadingScreen | Outlet | Navigate jsstring

definition AuthGuard :: "console \<Rightarrow> view" where
  "AuthGuard c =
     (if \<not> isInitialized c then LoadingScreen
      else if \<not> isAuthenticated c then
        (if starts_with (pathname c) AUTH_ROOT then Outlet else Navigate AUTH_LOGIN)
      else if starts_with (pathname c) AUTH_ROOT then Navigate DASHBOARD_STATUS
      else Outlet)"

text \<open>The outlet of the index route is itself a redirect.\<close>

definition rendered :: "console \<Rightarrow> view" where
  "rendered c = (if AuthGuard c = Outlet \<and> pathname c = js ''/'' then Navigate DASHBOARD_STATUS else AuthGuard c)"

definition dashboard_shown :: "console \<Rightarrow> bool" where
  "dashboard_shown c \<longleftrightarrow> rendered c = Outlet \<and> pathname c \<in> set dashboard_routes"

definition savedMode :: "console \<Rightarrow> login_mode" where
  "savedMode c =
     (if local_storage c MODE_KEY = Some (js ''ldap'') then MLdap
      else if local_storage c MODE_KEY = Some (js ''sso'') then MSso else MToken)"

text \<open>The first render of the login page; the note is consumed by the effect that follows.\<close>

definition mount_login :: "console \<Rightarrow> console" where
  "mount_login c =
     (let note = peekSessionExpired c;
          c' = c\<lparr>login := Some \<lparr>rawMode = savedMode c, ssoEnabled = False, sealed = False, username = [],
            password = [], token_input = [], pasted = None, phase = Idle, failMsg = None, nsChoices = None,
            expired = note\<rparr>\<rparr>
      in if note \<noteq> None then clearSessionExpired c' else c')"

text \<open>Effects of the components that a render mounts or unmounts: \<open>MainLayout\<close> and the two sign-in pages.\<close>

definition mount_effects :: "console \<Rightarrow> console" where
  "mount_effects c =
     (let c1 = (if dashboard_shown c then subscribe NoteExpired c else unsubscribe NoteExpired c);
          c2 = (if rendered c = Outlet \<and> pathname c = AUTH_LOGIN
                then (if login c = None then mount_login c1 else c1) else c1\<lparr>login := None\<rparr>)
      in if rendered c = Outlet \<and> pathname c = AUTH_OIDC_CALLBACK then c2
         else c2\<lparr>oidc_started := False, oidc_error := None\<rparr>)"

lemma redirect_settles:
  "rendered c = Navigate p \<Longrightarrow> rendered (c\<lparr>pathname := p\<rparr>) = Outlet"
  by (auto simp: rendered_def AuthGuard_def AUTH_LOGIN_def AUTH_ROOT_def DASHBOARD_STATUS_def split: if_splits)

function render :: "console \<Rightarrow> console" where
  "render c = (case rendered c of Navigate p \<Rightarrow> render (c\<lparr>pathname := p\<rparr>) | _ \<Rightarrow> mount_effects c)"
  by auto

termination
  by (relation "measure (\<lambda>c. case rendered c of Navigate p \<Rightarrow> 1 | _ \<Rightarrow> 0)") (auto dest: redirect_settles)

declare render.simps [simp del]

section \<open>AuthProvider\<close>

definition boot :: "console \<Rightarrow> console" where
  "boot c =
     (if truthy_str (getToken c) then c\<lparr>task := AwaitBoot (on_request c lookupSelf)\<rparr>
      else c\<lparr>isAuthenticated := False, isInitialized := True\<rparr>)"

definition load_page ::
  "(jsstring \<Rightarrow> jsstring option) \<Rightarrow> (jsstring \<Rightarrow> jsstring option) \<Rightarrow> bool \<Rightarrow> jsstring \<Rightarrow> console" where
  "load_page ls ss usable path =
     render (boot \<lparr>local_storage = ls, session_storage = ss, session_usable = usable, isAuthenticated = False,
       isInitialized = False, listeners = [LogoutUser], pathname = path, login = None, oidc_started = False,
       oidc_error = None, task = NoTask, assigned = None\<rparr>)"

definition reload :: "console \<Rightarrow> console" where
  "reload c = load_page (local_storage c) (session_storage c) (session_usable c) (pathname c)"

definition boot_ok :: "console \<Rightarrow> console" where
  "boot_ok c = c\<lparr>isAuthenticated := True, isInitialized := True, task := NoTask\<rparr>"

definition boot_failed :: "console \<Rightarrow> console" where
  "boot_failed c = (logoutUser c)\<lparr>isInitialized := True, task := NoTask\<rparr>"

definition useLogout :: "console \<Rightarrow> console" where
  "useLogout c = (removeToken c)\<lparr>isAuthenticated := False\<rparr>"

section \<open>The login page\<close>

definition mode :: "login_page \<Rightarrow> login_mode" where
  "mode p = (if rawMode p = MSso \<and> \<not> ssoEnabled p then MToken else rawMode p)"

definition busy :: "login_page \<Rightarrow> bool" where
  "busy p \<longleftrightarrow> phase p = Busy \<or> phase p = Accepted"

definition on_page :: "(login_page \<Rightarrow> login_page) \<Rightarrow> console \<Rightarrow> console" where
  "on_page f c = c\<lparr>login := map_option f (login c)\<rparr>"

definition fail :: "jsstring \<Rightarrow> string \<Rightarrow> login_page \<Rightarrow> login_page" where
  "fail code msg p = p\<lparr>phase := Failed, failMsg := Some (code, msg)\<rparr>"

definition unfail :: "login_page \<Rightarrow> login_page" where
  "unfail p = (if phase p = Failed then p\<lparr>phase := Idle\<rparr> else p)"

definition onChange :: "jsstring \<Rightarrow> login_page \<Rightarrow> login_page" where
  "onChange v p = unfail (p\<lparr>token_input := v, pasted := None\<rparr>)"

text \<open>The clipboard answers with a text, or refuses.\<close>

definition paste :: "jsstring option \<Rightarrow> login_page \<Rightarrow> login_page" where
  "paste clip p = (case clip of
      None \<Rightarrow> fail [] ''clipboardDenied'' p
    | Some raw \<Rightarrow> if trim raw = [] then p
        else unfail (p\<lparr>token_input := trim raw, pasted := Some (trim raw \<noteq> raw)\<rparr>))"

definition onUsername :: "jsstring \<Rightarrow> login_page \<Rightarrow> login_page" where
  "onUsername v p = unfail (p\<lparr>username := v, nsChoices := None\<rparr>)"

definition onPassword :: "jsstring \<Rightarrow> login_page \<Rightarrow> login_page" where
  "onPassword v p = unfail (p\<lparr>password := v, nsChoices := None\<rparr>)"

fun mode_name :: "login_mode \<Rightarrow> string" where
  "mode_name MToken = ''token''" | "mode_name MLdap = ''ldap''" | "mode_name MSso = ''sso''"

definition switchMode :: "login_mode \<Rightarrow> login_page \<Rightarrow> console \<Rightarrow> console" where
  "switchMode next p c =
     (if next = mode p \<or> busy p then c
      else c\<lparr>local_storage := (local_storage c)(MODE_KEY := Some (js (mode_name next))),
             login := Some (p\<lparr>rawMode := next, phase := Idle, failMsg := None, nsChoices := None\<rparr>)\<rparr>)"

datatype hint_tone = TErr | TOk | TWarn

text \<open>\<open>/^tuck_.{16,}/\<close> and \<open>/^tuck_/\<close>; the dot matches anything but a line terminator.\<close>

definition token_recognized :: "jsstring \<Rightarrow> bool" where
  "token_recognized s \<longleftrightarrow> starts_with s (js ''tuck_'') \<and>
     16 \<le> length (takeWhile (\<lambda>c. \<not> is_line_terminator c) (drop 5 s))"

definition hint :: "login_page \<Rightarrow> string \<times> hint_tone option" where
  "hint p =
     (if phase p = Failed \<and> failMsg p \<noteq> None then (snd (the (failMsg p)), Some TErr)
      else if phase p = Accepted then (''hintAccepted'', Some TOk)
      else if token_input p = [] then (''hintFormat'', None)
      else if pasted p \<noteq> None then (''hintPasted'', Some TOk)
      else if token_recognized (token_input p) then (''hintRecognized'', Some TOk)
      else if starts_with (token_input p) (js ''tuck_'') then (''hintIncomplete'', Some TWarn)
      else (''hintPrefix'', Some TWarn))"

definition startSso :: "console \<Rightarrow> console" where
  "startSso c = (on_page (\<lambda>p. p\<lparr>phase := Busy, failMsg := None\<rparr>) c)\<lparr>task := AwaitSso (on_request c getOidcAuthUrl)\<rparr>"

definition signIn :: "jsstring option \<Rightarrow> login_page \<Rightarrow> console \<Rightarrow> console" where
  "signIn namespace p c =
     (if busy p \<or> sealed p then c
      else if mode p = MSso then startSso c
      else if mode p = MLdap then
        (if trim (username p) = [] \<or> password p = [] then on_page (fail [] ''ldap.errEmpty'') c
         else let c1 = removeToken (on_page (\<lambda>p. p\<lparr>phase := Busy, failMsg := None\<rparr>) c)
              in c1\<lparr>task := AwaitLdap (on_request c1 (loginLdap (trim (username p)) (password p) namespace))\<rparr>)
      else
        (if trim (token_input p) = [] then on_page (fail [] ''errEmpty'') c
         else let c1 = setToken (trim (token_input p)) (on_page (\<lambda>p. p\<lparr>phase := Busy, failMsg := None\<rparr>) c)
              in c1\<lparr>task := AwaitLookup False (on_request c1 lookupSelf)\<rparr>))"

definition ldap_ok :: "jsstring \<Rightarrow> console \<Rightarrow> console" where
  "ldap_ok t c =
     (let c1 = on_page (\<lambda>p. p\<lparr>password := []\<rparr>) (setToken t c)
      in c1\<lparr>task := AwaitLookup True (on_request c1 lookupSelf)\<rparr>)"

definition is_axios :: "failure \<Rightarrow> bool" where
  "is_axios err = (case err of AxiosError _ _ \<Rightarrow> True | _ \<Rightarrow> False)"

fun response_of :: "failure \<Rightarrow> response option" where
  "response_of (AxiosError r m) = r"
| "response_of _ = None"

definition code_of :: "failure \<Rightarrow> jsstring" where
  "code_of err = (case status err of None \<Rightarrow> [] | Some n \<Rightarrow> dec n)"

definition sign_in_message :: "bool \<Rightarrow> failure \<Rightarrow> login_page \<Rightarrow> login_page" where
  "sign_in_message isLdap err =
     (if is_axios err \<and> response_of err = None then fail [] ''errNetwork''
      else if isLdap \<and> status err = Some 401 then fail (js ''401'') ''ldap.invalid''
      else if isLdap \<and> status err = Some 403 then fail (js ''403'') ''ldap.noRole''
      else if isLdap \<and> status err = Some 503 then fail (js ''503'') ''ldap.notConfigured''
      else if isLdap \<and> status err = Some 429 then fail (js ''429'') ''ldap.throttled''
      else if status err = Some 401 \<or> status err = Some 403 then fail (code_of err) ''invalidToken''
      else fail (code_of err) ''errServer'')"

definition choices_of :: "failure \<Rightarrow> jsstring list option" where
  "choices_of err = (if status err = Some 409 then Option.bind (response_of err) rs_namespaces else None)"

definition sign_in_failed :: "bool \<Rightarrow> failure \<Rightarrow> console \<Rightarrow> console" where
  "sign_in_failed isLdap err c =
     (let c1 = (removeToken c)\<lparr>task := NoTask\<rparr> in
      if isLdap \<and> choices_of err \<noteq> None
      then on_page (\<lambda>p. p\<lparr>nsChoices := choices_of err, phase := Idle\<rparr>) c1
      else on_page (sign_in_message isLdap err) c1)"

definition sign_in_ok :: "console \<Rightarrow> console" where
  "sign_in_ok c = (clearSessionExpired (on_page (\<lambda>p. p\<lparr>phase := Accepted\<rparr>) c))\<lparr>task := AwaitDoor\<rparr>"

definition door_shut :: "console \<Rightarrow> console" where
  "door_shut c = c\<lparr>isAuthenticated := True, pathname := DASHBOARD_STATUS, task := NoTask\<rparr>"

definition sso_ok :: "jsstring \<Rightarrow> jsstring \<Rightarrow> console \<Rightarrow> console" where
  "sso_ok state url c =
     (if session_usable c
      then c\<lparr>session_storage := (session_storage c)(OIDC_STATE_KEY := Some state), assigned := Some url, task := NoTask\<rparr>
      else (on_page (fail [] ''sso.errState'') c)\<lparr>task := NoTask\<rparr>)"

definition sso_failed :: "failure \<Rightarrow> console \<Rightarrow> console" where
  "sso_failed err c =
     (on_page (if is_axios err \<and> response_of err = None then fail [] ''errNetwork''
        else if status err = Some 503 then fail (js ''503'') ''sso.notConfigured''
        else if status err = Some 429 then fail (js ''429'') ''sso.throttled''
        else fail (code_of err) ''errServer'') c)\<lparr>task := NoTask\<rparr>"

section \<open>The OIDC callback page\<close>

definition oidc_mount :: "jsstring option \<Rightarrow> jsstring option \<Rightarrow> jsstring option \<Rightarrow> console \<Rightarrow> console" where
  "oidc_mount code_param state_param error_param c =
     (if oidc_started c then c
      else let code = nullish code_param []; state = nullish state_param [];
               expected = (if session_usable c then session_storage c OIDC_STATE_KEY else None);
               c1 = (if session_usable c then c\<lparr>session_storage := (session_storage c)(OIDC_STATE_KEY := None)\<rparr> else c);
               c2 = c1\<lparr>oidc_started := True\<rparr>
           in if truthy_str error_param then c2\<lparr>oidc_error := Some ''sso.errProvider''\<rparr>
              else if code = [] \<or> state = [] \<or> \<not> truthy_str expected \<or> Some state \<noteq> expected
              then c2\<lparr>oidc_error := Some ''sso.errState''\<rparr>
              else let c3 = removeToken c2
                   in c3\<lparr>task := AwaitExchange (on_request c3 (oidcCallback code state))\<rparr>)"

definition exchange_ok :: "jsstring \<Rightarrow> console \<Rightarrow> console" where
  "exchange_ok t c = (let c1 = setToken t c in c1\<lparr>task := AwaitOidcLookup (on_request c1 lookupSelf)\<rparr>)"

definition oidc_message :: "failure \<Rightarrow> string" where
  "oidc_message err =
     (case response_of err of None \<Rightarrow> ''errNetwork''
      | Some r \<Rightarrow>
          if rs_status r = 400 \<and> includes_str (nullish (rs_error r) []) (js ''code'') then ''sso.errCode''
          else if rs_status r = 400 then ''sso.errInvalidState''
          else if rs_status r = 401 then ''sso.errToken''
          else if rs_status r = 403 then ''sso.errNoRole''
          else if rs_status r = 502 then ''sso.errIdp''
          else if rs_status r = 503 then ''sso.notConfigured''
          else if rs_status r = 429 then ''sso.throttled''
          else ''errServer'')"

definition oidc_failed :: "failure \<Rightarrow> console \<Rightarrow> console" where
  "oidc_failed err c = (removeToken c)\<lparr>oidc_error := Some (oidc_message err), task := NoTask\<rparr>"

definition oidc_ok :: "console \<Rightarrow> console" where
  "oidc_ok c = (clearSessionExpired c)\<lparr>task := AwaitDoor\<rparr>"

section \<open>The namespace switcher\<close>

definition current_namespace :: "jsstring \<Rightarrow> console \<Rightarrow> jsstring" where
  "current_namespace bound c = or_str (getNamespace c) bound"

definition namespace_options :: "jsstring \<Rightarrow> jsstring list option \<Rightarrow> jsstring list" where
  "namespace_options bound namespaces =
     (if bound \<noteq> [] then bound # filter (\<lambda>ns. starts_with ns (bound @ js ''/'')) (nullish namespaces [])
      else nullish namespaces [])"

definition switchTo :: "jsstring \<Rightarrow> jsstring \<Rightarrow> console \<Rightarrow> console" where
  "switchTo bound ns c = (if ns = current_namespace bound c then c else reload (setNamespace ns c))"

section \<open>Events\<close>

datatype event =
    BootOk | BootFail failure
  | TypeToken jsstring | Paste "jsstring option" | TypeUsername jsstring | TypePassword jsstring
  | SwitchMode login_mode | OidcStatus bool | SealStatus bool | DismissExpired
  | SignIn "jsstring option" | LdapOk jsstring | LdapFail failure | LookupOk | LookupFail failure
  | DoorShut | SsoOk jsstring jsstring | SsoFail failure
  | OidcMount "jsstring option" "jsstring option" "jsstring option"
  | ExchangeOk jsstring | ExchangeFail failure
  | ApiFail failure | Logout | SwitchTo jsstring jsstring | Goto jsstring | Reload

text \<open>The form is a disabled fieldset while the vault is sealed or a sign-in is on its way.\<close>

definition form_enabled :: "console \<Rightarrow> bool" where
  "form_enabled c = (case login c of Some p \<Rightarrow> \<not> busy p \<and> \<not> sealed p | None \<Rightarrow> False)"

fun enabled :: "console \<Rightarrow> event \<Rightarrow> bool" where
  "enabled c BootOk = (case task c of AwaitBoot _ \<Rightarrow> True | _ \<Rightarrow> False)"
| "enabled c (BootFail _) = (case task c of AwaitBoot _ \<Rightarrow> True | _ \<Rightarrow> False)"
| "enabled c (TypeToken _) = form_enabled c"
| "enabled c (Paste _) = form_enabled c"
| "enabled c (TypeUsername _) = form_enabled c"
| "enabled c (TypePassword _) = form_enabled c"
| "enabled c (SwitchMode m) = (case login c of Some p \<Rightarrow> \<not> busy p \<and> (m = MSso \<longrightarrow> ssoEnabled p) | None \<Rightarrow> False)"
| "enabled c (OidcStatus _) = (login c \<noteq> None)"
| "enabled c (SealStatus _) = (login c \<noteq> None)"
| "enabled c DismissExpired = (login c \<noteq> None)"
| "enabled c (SignIn _) = (login c \<noteq> None)"
| "enabled c (LdapOk _) = (case task c of AwaitLdap _ \<Rightarrow> True | _ \<Rightarrow> False)"
| "enabled c (LdapFail _) = (case task c of AwaitLdap _ \<Rightarrow> True | _ \<Rightarrow> False)"
| "enabled c LookupOk = (case task c of AwaitLookup _ _ \<Rightarrow> True | AwaitOidcLookup _ \<Rightarrow> True | _ \<Rightarrow> False)"
| "enabled c (LookupFail _) = (case task c of AwaitLookup _ _ \<Rightarrow> True | AwaitOidcLookup _ \<Rightarrow> True | _ \<Rightarrow> False)"
| "enabled c DoorShut = (task c = AwaitDoor)"
| "enabled c (SsoOk _ _) = (case task c of AwaitSso _ \<Rightarrow> True | _ \<Rightarrow> False)"
| "enabled c (SsoFail _) = (case task c of AwaitSso _ \<Rightarrow> True | _ \<Rightarrow> False)"
| "enabled c (OidcMount _ _ _) =
     (rendered c = Outlet \<and> pathname c = AUTH_OIDC_CALLBACK \<and> task c = NoTask)"
| "enabled c (ExchangeOk _) = (case task c of AwaitExchange _ \<Rightarrow> True | _ \<Rightarrow> False)"
| "enabled c (ExchangeFail _) = (case task c of AwaitExchange _ \<Rightarrow> True | _ \<Rightarrow> False)"
| "enabled c (ApiFail _) = True"
| "enabled c Logout = dashboard_shown c"
| "enabled c (SwitchTo _ _) = dashboard_shown c"
| "enabled c (Goto p) = (isInitialized c \<and> task c = NoTask \<and> p \<in> set router)"
| "enabled c Reload = True"

text \<open>The handler, before the render that follows it.\<close>

fun react :: "stamp \<Rightarrow> event \<Rightarrow> console \<Rightarrow> console" where
  "react st BootOk c = boot_ok c"
| "react st (BootFail e) c = boot_failed (on_error st e c)"
| "react st (TypeToken v) c = on_page (onChange v) c"
| "react st (Paste v) c = on_page (paste v) c"
| "react st (TypeUsername v) c = on_page (onUsername v) c"
| "react st (TypePassword v) c = on_page (onPassword v) c"
| "react st (SwitchMode m) c = (case login c of Some p \<Rightarrow> switchMode m p c | None \<Rightarrow> c)"
| "react st (OidcStatus b) c = on_page (\<lambda>p. p\<lparr>ssoEnabled := b\<rparr>) c"
| "react st (SealStatus b) c = on_page (\<lambda>p. p\<lparr>sealed := b\<rparr>) c"
| "react st DismissExpired c = on_page (\<lambda>p. p\<lparr>expired := None\<rparr>) c"
| "react st (SignIn ns) c = (case login c of Some p \<Rightarrow> signIn ns p c | None \<Rightarrow> c)"
| "react st (LdapOk t) c = ldap_ok t c"
| "react st (LdapFail e) c = sign_in_failed True e (on_error st e c)"
| "react st LookupOk c = (case task c of AwaitLookup _ _ \<Rightarrow> sign_in_ok c | _ \<Rightarrow> oidc_ok c)"
| "react st (LookupFail e) c =
     (case task c of AwaitLookup l _ \<Rightarrow> sign_in_failed l e (on_error st e c) | _ \<Rightarrow> oidc_failed e (on_error st e c))"
| "react st DoorShut c = door_shut c"
| "react st (SsoOk s u) c = sso_ok s u c"
| "react st (SsoFail e) c = sso_failed e (on_error st e c)"
| "react st (OidcMount a b e) c = oidc_mount a b e c"
| "react st (ExchangeOk t) c = exchange_ok t c"
| "react st (ExchangeFail e) c = oidc_failed e (on_error st e c)"
| "react st (ApiFail e) c = on_error st e c"
| "react st Logout c = useLogout c"
| "react st (SwitchTo b ns) c = switchTo b ns c"
| "react st (Goto p) c = c\<lparr>pathname := p\<rparr>"
| "react st Reload c = reload c"

definition handle :: "stamp \<Rightarrow> event \<Rightarrow> console \<Rightarrow> console" where
  "handle st e c = render (react st e c)"

text \<open>The lookup-self request that an event answers with success.\<close>

fun accepted :: "console \<Rightarrow> event \<Rightarrow> request list" where
  "accepted c BootOk = (case task c of AwaitBoot r \<Rightarrow> [r] | _ \<Rightarrow> [])"
| "accepted c LookupOk = (case task c of AwaitLookup _ r \<Rightarrow> [r] | AwaitOidcLookup r \<Rightarrow> [r] | _ \<Rightarrow> [])"
| "accepted c _ = []"

inductive reach :: "console \<Rightarrow> request list \<Rightarrow> bool" where
  load: "path \<in> set router \<Longrightarrow> reach (load_page ls ss usable path) []"
| step: "reach c log \<Longrightarrow> enabled c e \<Longrightarrow> reach (handle st e c) (accepted c e @ log)"

section \<open>Facts on storage, emitter and render\<close>

named_theorems session_defs

lemmas [session_defs] =
  getToken_def setToken_def removeToken_def getNamespace_def setNamespace_def logoutUser_def useLogout_def
  markSessionExpired_def clearSessionExpired_def boot_ok_def boot_failed_def on_page_def sign_in_ok_def oidc_ok_def
  door_shut_def sso_ok_def sso_failed_def sign_in_failed_def oidc_failed_def ldap_ok_def exchange_ok_def startSso_def
  Let_def

lemma keys_distinct [simp]:
  "TOKEN_KEY \<noteq> NAMESPACE_KEY" "NAMESPACE_KEY \<noteq> TOKEN_KEY" "MODE_KEY \<noteq> TOKEN_KEY" "TOKEN_KEY \<noteq> MODE_KEY"
  "MODE_KEY \<noteq> NAMESPACE_KEY" "NAMESPACE_KEY \<noteq> MODE_KEY"
  by (simp_all add: TOKEN_KEY_def NAMESPACE_KEY_def MODE_KEY_def)

lemma get_header_set_if:
  "get_header k (set_if k' v r) = (if k = k' \<and> truthy_str v then v else get_header k r)"
proof -
  have "map_of (filter (\<lambda>(k'', v'). k'' \<noteq> k') hs @ [(k', x)]) k = (if k = k' then Some x else map_of hs k)" for hs x
    by (induction hs) auto
  then show ?thesis
    by (auto simp: set_if_def set_header_def get_header_def split: option.split)
qed

lemma header_names_distinct [simp]: "X_Tuck_Token \<noteq> X_Tuck_Namespace" "X_Tuck_Namespace \<noteq> X_Tuck_Token"
  by (simp_all add: X_Tuck_Token_def X_Tuck_Namespace_def)

lemma token_header:
  "get_header X_Tuck_Token r = None \<Longrightarrow>
     get_header X_Tuck_Token (on_request c r) = (if truthy_str (getToken c) then getToken c else None)"
  unfolding on_request_def get_header_set_if by simp

lemma namespace_header:
  "get_header X_Tuck_Namespace r = None \<Longrightarrow>
     get_header X_Tuck_Namespace (on_request c r) = (if truthy_str (getNamespace c) then getNamespace c else None)"
  unfolding on_request_def get_header_set_if by simp

lemma plain_requests [simp]:
  "rq_headers lookupSelf = []" "rq_headers (loginLdap u w n) = []" "rq_headers (oidcCallback a b) = []"
  "rq_headers getOidcAuthUrl = []"
  by (simp_all add: lookupSelf_def loginLdap_def oidcCallback_def getOidcAuthUrl_def rq_def with_json_def)

lemma get_header_plain [simp]: "rq_headers r = [] \<Longrightarrow> get_header k r = None"
  by (simp add: get_header_def)

lemma call_keeps [simp]:
  "isInitialized (call st l c) = isInitialized c" "listeners (call st l c) = listeners c"
  "pathname (call st l c) = pathname c" "login (call st l c) = login c" "task (call st l c) = task c"
  "oidc_started (call st l c) = oidc_started c" "assigned (call st l c) = assigned c"
  "getNamespace (call st l c) = getNamespace c" "session_usable (call st l c) = session_usable c"
  by (cases l; simp add: session_defs)+

lemma fold_call_keeps:
  "isInitialized (fold (call st) ls c) = isInitialized c" "listeners (fold (call st) ls c) = listeners c"
  "pathname (fold (call st) ls c) = pathname c" "login (fold (call st) ls c) = login c"
  "task (fold (call st) ls c) = task c" "oidc_started (fold (call st) ls c) = oidc_started c"
  "assigned (fold (call st) ls c) = assigned c" "getNamespace (fold (call st) ls c) = getNamespace c"
  "session_usable (fold (call st) ls c) = session_usable c"
  by (induction ls arbitrary: c) simp_all

lemma fold_call_logout:
  "getToken (fold (call st) ls c) = (if LogoutUser \<in> set ls then None else getToken c)"
  "isAuthenticated (fold (call st) ls c) = (isAuthenticated c \<and> LogoutUser \<notin> set ls)"
proof (induction ls arbitrary: c)
  case (Cons l ls)
  { case 1 with Cons show ?case by (cases l) (simp_all add: session_defs) }
  { case 2 with Cons show ?case by (cases l) (simp_all add: session_defs) }
qed simp_all

lemma on_error_keeps [simp]:
  "isInitialized (on_error st e c) = isInitialized c" "listeners (on_error st e c) = listeners c"
  "pathname (on_error st e c) = pathname c" "login (on_error st e c) = login c" "task (on_error st e c) = task c"
  "oidc_started (on_error st e c) = oidc_started c" "assigned (on_error st e c) = assigned c"
  "getNamespace (on_error st e c) = getNamespace c" "session_usable (on_error st e c) = session_usable c"
  by (simp_all add: on_error_def emit_def fold_call_keeps)

lemma on_error_session:
  "getToken (on_error st e c) = (if status e = Some 401 \<and> LogoutUser \<in> set (listeners c) then None else getToken c)"
  "isAuthenticated (on_error st e c) = (isAuthenticated c \<and> \<not> (status e = Some 401 \<and> LogoutUser \<in> set (listeners c)))"
  by (simp_all add: on_error_def emit_def fold_call_logout)

definition landing :: "console \<Rightarrow> jsstring" where
  "landing c = (case rendered c of Navigate p \<Rightarrow> p | _ \<Rightarrow> pathname c)"

lemma render_landing: "render c = mount_effects (c\<lparr>pathname := landing c\<rparr>)"
proof (cases "rendered c")
  case (Navigate p)
  then have "rendered (c\<lparr>pathname := p\<rparr>) = Outlet"
    by (rule redirect_settles)
  with Navigate show ?thesis
    by (simp add: landing_def render.simps [of c] render.simps [of "c\<lparr>pathname := p\<rparr>"])
qed (simp_all add: landing_def render.simps)

lemma rendered_cong:
  "isInitialized c = isInitialized d \<Longrightarrow> isAuthenticated c = isAuthenticated d \<Longrightarrow> pathname c = pathname d \<Longrightarrow>
     rendered c = rendered d"
  unfolding rendered_def AuthGuard_def by (simp only:)

lemma mount_effects_keeps [simp]:
  "local_storage (mount_effects c) = local_storage c" "isAuthenticated (mount_effects c) = isAuthenticated c"
  "isInitialized (mount_effects c) = isInitialized c" "pathname (mount_effects c) = pathname c"
  "task (mount_effects c) = task c" "assigned (mount_effects c) = assigned c"
  "session_usable (mount_effects c) = session_usable c"
  "LogoutUser \<in> set (listeners (mount_effects c)) \<longleftrightarrow> LogoutUser \<in> set (listeners c)"
  by (simp_all add: mount_effects_def mount_login_def subscribe_def unsubscribe_def clearSessionExpired_def Let_def)

lemma render_keeps [simp]:
  "local_storage (render c) = local_storage c" "isAuthenticated (render c) = isAuthenticated c"
  "isInitialized (render c) = isInitialized c" "task (render c) = task c" "assigned (render c) = assigned c"
  "session_usable (render c) = session_usable c" "getToken (render c) = getToken c"
  "getNamespace (render c) = getNamespace c"
  "LogoutUser \<in> set (listeners (render c)) \<longleftrightarrow> LogoutUser \<in> set (listeners c)"
  by (simp_all add: render_landing getToken_def getNamespace_def)

lemma pathname_render: "pathname (render c) = landing c"
  by (simp add: render_landing)

lemma render_settled: "rendered (render c) \<noteq> Navigate p"
proof -
  have "rendered (render c) = rendered (c\<lparr>pathname := landing c\<rparr>)"
    by (rule rendered_cong) (simp_all add: pathname_render)
  then show ?thesis
    using redirect_settles [of c] by (cases "rendered c") (auto simp: landing_def)
qed

text \<open>The login page exists exactly where it is rendered, and is fresh when it was not mounted before.\<close>

definition login_rendered :: "console \<Rightarrow> bool" where
  "login_rendered c \<longleftrightarrow> isInitialized c \<and> \<not> isAuthenticated c \<and> pathname c = AUTH_LOGIN"

lemma login_rendered_iff: "rendered c = Outlet \<and> pathname c = AUTH_LOGIN \<longleftrightarrow> login_rendered c"
  by (auto simp: login_rendered_def rendered_def AuthGuard_def AUTH_LOGIN_def AUTH_ROOT_def)

lemma login_mount_effects:
  "login (mount_effects c) =
     (if login_rendered c then Some (case login c of Some p \<Rightarrow> p | None \<Rightarrow> the (login (mount_login c))) else None)"
  using login_rendered_iff [of c]
  by (auto simp: mount_effects_def mount_login_def subscribe_def unsubscribe_def clearSessionExpired_def Let_def
      peekSessionExpired_def savedMode_def split: option.split)

lemma fresh_login_idle: "phase (the (login (mount_login c))) = Idle"
  by (simp add: mount_login_def clearSessionExpired_def Let_def)

lemma login_render:
  "login (render c) =
     (if login_rendered (render c) then
        Some (case login c of Some p \<Rightarrow> p | None \<Rightarrow> the (login (mount_login (c\<lparr>pathname := landing c\<rparr>)))) else None)"
  by (simp add: render_landing login_mount_effects login_rendered_def)

end
