(* ===== verification/Audit_Stream.thy ===== *)
theory Audit_Stream
  imports Audit_Sinks Session_Auth
begin

text \<open>
  The live audit log, \<open>audit-sinks/use-live-log.ts\<close>: a stream of server-sent events read in chunks, and the rows the
  page keeps of it. \<open>live\<close> is the state of the hook, \<open>live_step\<close> one thing that can happen to it. A connection that was
  aborted delivers nothing more, so only the current one is part of the state. Chunks are the texts the decoder returns;
  a record is the JSON value it was parsed to.

  \<open>log_view\<close> is the abstract log: what a reader of the whole text of a connection would show. \<open>live_log_refines\<close> says
  that reading in chunks implements it.
\<close>

section \<open>Server-sent events\<close>

record sse =
  sse_event :: jsstring
  sse_data :: jsstring
  sse_id :: "jsstring option"

definition colon :: jschar where "colon = jc CHR '':''"

text \<open>One line of a block: the event, the id and the data lines so far.\<close>

definition sse_line :: "jsstring \<Rightarrow> jsstring \<times> jsstring option \<times> jsstring list \<Rightarrow> jsstring \<times> jsstring option \<times> jsstring list" where
  "sse_line raw st = (case st of (event, i, dat) \<Rightarrow>
     if raw = [] \<or> hd raw = colon then st
     else let idx = index_of colon raw;
              field = (case idx of None \<Rightarrow> raw | Some k \<Rightarrow> take k raw);
              rest = (case idx of None \<Rightarrow> [] | Some k \<Rightarrow> drop (Suc k) raw);
              val = (if starts_with rest (js '' '') then tl rest else rest) in
       if field = js ''event'' then (val, i, dat) else if field = js ''id'' then (event, Some val, dat)
       else if field = js ''data'' then (event, i, dat @ [val]) else st)"

definition nl :: jschar where "nl = 0x0A"

definition parseBlock :: "jsstring \<Rightarrow> sse option" where
  "parseBlock block = (case fold sse_line (split_on nl block) (js ''message'', None, []) of (event, i, dat) \<Rightarrow>
     if dat = [] \<and> event = js ''message'' then None
     else Some \<lparr>sse_event = event, sse_data = join [nl] dat, sse_id = i\<rparr>)"

section \<open>The hook\<close>

definition LIVE_LOG_CAP :: nat where "LIVE_LOG_CAP = 500"

datatype live_status = Connecting | Live | Offline | Paused

datatype connection = Opening request | Reading jsstring

record live =
  ll_rows :: "json list"
  ll_status :: live_status
  ll_gap :: bool
  ll_paused :: bool
  ll_lastSeq :: "json option"
  ll_conn :: "connection option"
  ll_timer :: bool
  ll_filter :: audit_filter
  ll_enabled :: bool

text \<open>Reading a property: \<open>None\<close> when the value is null and the access throws.\<close>

fun jprop :: "json \<Rightarrow> string \<Rightarrow> json option option" where
  "jprop JNull k = None"
| "jprop (JObj o') k = Some (map_of o' (js k))"
| "jprop _ k = Some None"

text \<open>A number literal is 0 when no digit of its mantissa is another one.\<close>

definition zero_literal :: "jsstring \<Rightarrow> bool" where
  "zero_literal l \<longleftrightarrow> list_all (\<lambda>c. \<not> in_range CHR ''1'' CHR ''9'' c) (takeWhile (\<lambda>c. c \<notin> set (js ''eE'')) l)"

fun truthy :: "json \<Rightarrow> bool" where
  "truthy JNull = False"
| "truthy (JBool b) = b"
| "truthy (JNum l) = (\<not> zero_literal l)"
| "truthy (JStr s) = (s \<noteq> [])"
| "truthy _ = True"

definition truthy_prop :: "json \<Rightarrow> string \<Rightarrow> json option" where
  "truthy_prop v k = (case jprop v k of Some (Some x) \<Rightarrow> if truthy x then Some x else None | _ \<Rightarrow> None)"

text \<open>\<open>String(v)\<close>; \<open>nf\<close> prints a number as in \<open>stringify\<close>.\<close>

fun js_String :: "(jsstring \<Rightarrow> jsstring) \<Rightarrow> json \<Rightarrow> jsstring" where
  "js_String nf JNull = js ''null''"
| "js_String nf (JBool b) = (if b then js ''true'' else js ''false'')"
| "js_String nf (JNum l) = nf l"
| "js_String nf (JStr s) = s"
| "js_String nf (JArr vs) = join (js '','') (map (\<lambda>v. if v = JNull then [] else js_String nf v) vs)"
| "js_String nf (JObj o') = js ''[object Object]''"

text \<open>
  One complete block. A text that is not JSON is ignored, and so is an audit record \<open>null\<close>, whose property access
  throws.
\<close>

definition on_block :: "jsstring \<Rightarrow> live \<Rightarrow> live" where
  "on_block block s = (case parseBlock block of
      None \<Rightarrow> s
    | Some ev \<Rightarrow>
        if sse_event ev = js ''audit'' then
          (case JSON_parse (sse_data ev) of
             None \<Rightarrow> s
           | Some entry \<Rightarrow>
               (case jprop entry ''seq'' of
                  None \<Rightarrow> s
                | Some _ \<Rightarrow>
                    s\<lparr>ll_lastSeq := (case truthy_prop entry ''seq'' of Some q \<Rightarrow> Some q | None \<Rightarrow> ll_lastSeq s),
                      ll_rows := take LIVE_LOG_CAP (entry # ll_rows s)\<rparr>))
        else if sse_event ev = js ''gap'' then s\<lparr>ll_gap := True\<rparr>
        else if sse_event ev = js ''hello'' then
          (case JSON_parse (sse_data ev) of
             None \<Rightarrow> s
           | Some hello \<Rightarrow> (case (ll_lastSeq s, truthy_prop hello ''head_seq'') of
               (None, Some q) \<Rightarrow> s\<lparr>ll_lastSeq := Some q\<rparr> | _ \<Rightarrow> s))
        else s)"

definition nlnl :: jsstring where "nlnl = [nl, nl]"

fun index_of_str :: "jsstring \<Rightarrow> jsstring \<Rightarrow> nat option" where
  "index_of_str p [] = (if p = [] then Some 0 else None)"
| "index_of_str p (c # s) = (if starts_with (c # s) p then Some 0 else map_option Suc (index_of_str p s))"

lemma starts_with_length: "starts_with s p \<Longrightarrow> length p \<le> length s"
  by (auto simp: starts_with_iff)

lemma index_of_str_bound: "index_of_str p s = Some i \<Longrightarrow> i + length p \<le> length s"
  by (induction s arbitrary: i) (auto dest: starts_with_length split: if_splits)

text \<open>The loop that takes complete blocks off the buffer.\<close>

function drain :: "jsstring \<Rightarrow> live \<Rightarrow> live \<times> jsstring" where
  "drain buf s = (case index_of_str nlnl buf of
      None \<Rightarrow> (s, buf)
    | Some idx \<Rightarrow> drain (drop (idx + 2) buf) (on_block (take idx buf) s))"
  by pat_completeness auto

termination
  by (relation "measure (\<lambda>(buf, s). length buf)") (auto dest: index_of_str_bound simp: nlnl_def)

declare drain.simps [simp del]

definition stop :: "live \<Rightarrow> live" where
  "stop s = s\<lparr>ll_conn := None, ll_timer := False\<rparr>"

definition stream_request :: "console \<Rightarrow> (jsstring \<Rightarrow> jsstring) \<Rightarrow> live \<Rightarrow> request" where
  "stream_request c nf s = set_if X_Tuck_Namespace (getNamespace c) (set_if X_Tuck_Token (getToken c)
     ((rq GET (auditStreamUrl (ll_filter s) (map_option (js_String nf) (ll_lastSeq s))))
       \<lparr>rq_headers := [(js ''Accept'', js ''text/event-stream'')]\<rparr>))"

definition connect :: "console \<Rightarrow> (jsstring \<Rightarrow> jsstring) \<Rightarrow> live \<Rightarrow> live" where
  "connect c nf s0 = (let s = stop s0 in
     if \<not> ll_enabled s \<or> ll_paused s then s
     else s\<lparr>ll_status := Connecting, ll_conn := Some (Opening (stream_request c nf s))\<rparr>)"

text \<open>The request failed, the answer was not usable or the stream ended: try again in three seconds.\<close>

definition stream_failed :: "live \<Rightarrow> live" where
  "stream_failed s = s\<lparr>ll_status := Offline, ll_conn := None, ll_timer := True\<rparr>"

text \<open>The effect on \<open>[enabled, paused, filterKey]\<close>, after the clean-up of the one before.\<close>

definition live_effect :: "console \<Rightarrow> (jsstring \<Rightarrow> jsstring) \<Rightarrow> live \<Rightarrow> live" where
  "live_effect c nf s0 = (let s = stop s0 in
     if \<not> ll_enabled s \<or> ll_paused s then s\<lparr>ll_status := (if ll_paused s then Paused else Offline)\<rparr>
     else connect c nf s)"

datatype live_op =
    Answer bool
  | Chunk jsstring
  | StreamEnd
  | TimerFires
  | TogglePause
  | ClearGap
  | ClearRows
  | SetFilter audit_filter
  | SetEnabled bool

fun live_step :: "console \<Rightarrow> (jsstring \<Rightarrow> jsstring) \<Rightarrow> live_op \<Rightarrow> live \<Rightarrow> live" where
  "live_step c nf (Answer ok) s = (case ll_conn s of
      Some (Opening r) \<Rightarrow> if ok then s\<lparr>ll_status := Live, ll_conn := Some (Reading [])\<rparr> else stream_failed s
    | _ \<Rightarrow> s)"
| "live_step c nf (Chunk t) s = (case ll_conn s of
      Some (Reading buf) \<Rightarrow> (case drain (buf @ t) s of (s', buf') \<Rightarrow> s'\<lparr>ll_conn := Some (Reading buf')\<rparr>)
    | _ \<Rightarrow> s)"
| "live_step c nf StreamEnd s = (if ll_conn s = None then s else stream_failed s)"
| "live_step c nf TimerFires s = (if ll_timer s then connect c nf s else s)"
| "live_step c nf TogglePause s = live_effect c nf (s\<lparr>ll_paused := \<not> ll_paused s\<rparr>)"
| "live_step c nf ClearGap s = s\<lparr>ll_gap := False\<rparr>"
| "live_step c nf ClearRows s = s\<lparr>ll_rows := []\<rparr>"
| "live_step c nf (SetFilter f) s = (if f = ll_filter s then s else live_effect c nf (s\<lparr>ll_filter := f\<rparr>))"
| "live_step c nf (SetEnabled e) s = (if e = ll_enabled s then s else live_effect c nf (s\<lparr>ll_enabled := e\<rparr>))"

definition live_init :: "console \<Rightarrow> (jsstring \<Rightarrow> jsstring) \<Rightarrow> audit_filter \<Rightarrow> bool \<Rightarrow> live" where
  "live_init c nf f en = live_effect c nf \<lparr>ll_rows = [], ll_status = Connecting, ll_gap = False, ll_paused = False,
     ll_lastSeq = None, ll_conn = None, ll_timer = False, ll_filter = f, ll_enabled = en\<rparr>"

section \<open>The merged table\<close>

text \<open>An event as the table reads it out of a record; \<open>eventKey\<close> names it.\<close>

record table_event =
  te_seq :: "nat option"
  te_hash :: jsstring
  te_time :: jsstring
  te_path :: jsstring

definition eventKey :: "table_event \<Rightarrow> jsstring" where
  "eventKey e = (case te_seq e of
      Some q \<Rightarrow> if q \<noteq> 0 then js ''s'' @ dec q else or_str (Some (te_hash e)) (te_time e @ js ''-'' @ te_path e)
    | None \<Rightarrow> or_str (Some (te_hash e)) (te_time e @ js ''-'' @ te_path e))"

text \<open>\<open>Map.set\<close> keeps the place of a key that is already there.\<close>

definition merged :: "table_event list \<Rightarrow> table_event list \<Rightarrow> table_event list" where
  "merged rows events =
     (let m = fold (\<lambda>e. obj_put (eventKey e) e) rows [];
          m' = fold (\<lambda>e m. if map_of m (eventKey e) = None then obj_put (eventKey e) e m else m) events m
      in take LIVE_LOG_CAP (sort_by (\<lambda>a b. int (nullish (te_seq b) 0) - int (nullish (te_seq a) 0)) (map snd m')))"

section \<open>The log of a whole text\<close>

text \<open>The complete blocks of a text, cut at the first empty line each time, and what is left.\<close>

fun text_blocks :: "jsstring \<Rightarrow> jsstring list \<times> jsstring" where
  "text_blocks [] = ([], [])"
| "text_blocks [c] = ([], [c])"
| "text_blocks (c # d # s) =
     (if c = nl \<and> d = nl then (case text_blocks s of (bs, r) \<Rightarrow> ([] # bs, r))
      else (case text_blocks (d # s) of ([], r) \<Rightarrow> ([], c # r) | (b # bs, r) \<Rightarrow> ((c # b) # bs, r)))"

record log_view =
  lv_rows :: "json list"
  lv_gap :: bool
  lv_seq :: "json option"

definition view_of :: "live \<Rightarrow> log_view" where
  "view_of s = \<lparr>lv_rows = ll_rows s, lv_gap = ll_gap s, lv_seq = ll_lastSeq s\<rparr>"

definition audit_entry :: "sse \<Rightarrow> json option" where
  "audit_entry ev = (if sse_event ev = js ''audit'' then (case JSON_parse (sse_data ev) of
      Some e \<Rightarrow> if e = JNull then None else Some e | None \<Rightarrow> None) else None)"

definition hello_seq :: "sse \<Rightarrow> json option" where
  "hello_seq ev = (if sse_event ev = js ''hello'' then Option.bind (JSON_parse (sse_data ev)) (\<lambda>h. truthy_prop h ''head_seq'') else None)"

definition pick :: "('a \<Rightarrow> 'b option) \<Rightarrow> 'a list \<Rightarrow> 'b list" where
  "pick f xs = concat (map (\<lambda>x. case f x of Some y \<Rightarrow> [y] | None \<Rightarrow> []) xs)"

text \<open>
  The abstract log after the events: the newest records first, at most the cap; whether records were lost; and the
  number to continue from, which is that of the last record that has one, or else the first head the server announced.
\<close>

definition deliver :: "sse list \<Rightarrow> log_view \<Rightarrow> log_view" where
  "deliver evs v =
     (let es = pick audit_entry evs; qs = pick (\<lambda>e. truthy_prop e ''seq'') es in
      \<lparr>lv_rows = take LIVE_LOG_CAP (rev es @ lv_rows v),
       lv_gap = (lv_gap v \<or> list_ex (\<lambda>ev. sse_event ev = js ''gap'') evs),
       lv_seq = (if qs \<noteq> [] then Some (last qs) else case lv_seq v of Some q \<Rightarrow> Some q
         | None \<Rightarrow> (case pick hello_seq evs of [] \<Rightarrow> None | q # _ \<Rightarrow> Some q))\<rparr>)"

definition read_text :: "jsstring \<Rightarrow> log_view \<Rightarrow> log_view" where
  "read_text t v = deliver (pick parseBlock (fst (text_blocks t))) v"

lemma pick_simps [simp]:
  "pick f [] = []" "pick f (x # xs) = (case f x of Some y \<Rightarrow> y # pick f xs | None \<Rightarrow> pick f xs)"
  "pick f (xs @ ys) = pick f xs @ pick f ys"
  by (simp_all add: pick_def split: option.splits)

lemma event_names: "js ''audit'' \<noteq> js ''gap''" "js ''audit'' \<noteq> js ''hello''" "js ''gap'' \<noteq> js ''hello''"
  "js ''gap'' \<noteq> js ''audit''" "js ''hello'' \<noteq> js ''audit''" "js ''hello'' \<noteq> js ''gap''"
  by simp_all

lemma take_append_take: "take n (xs @ take n ys) = take n (xs @ ys)"
  by (simp add: min_def)

lemma deliver_Nil: "length (lv_rows v) \<le> LIVE_LOG_CAP \<Longrightarrow> deliver [] v = v"
  by (cases v) (simp add: deliver_def split: option.splits)

lemma deliver_fields:
  "lv_rows (deliver evs v) = take LIVE_LOG_CAP (rev (pick audit_entry evs) @ lv_rows v)"
  "lv_gap (deliver evs v) = (lv_gap v \<or> list_ex (\<lambda>ev. sse_event ev = js ''gap'') evs)"
  "lv_seq (deliver evs v) = (let qs = pick (\<lambda>e. truthy_prop e ''seq'') (pick audit_entry evs) in
     if qs \<noteq> [] then Some (last qs) else case lv_seq v of Some q \<Rightarrow> Some q
       | None \<Rightarrow> (case pick hello_seq evs of [] \<Rightarrow> None | q # _ \<Rightarrow> Some q))"
  by (simp_all add: deliver_def Let_def)

lemma deliver_Cons: "deliver (ev # evs) v = deliver evs (deliver [ev] v)"
proof (rule log_view.equality)
  have "pick audit_entry (ev # evs) = pick audit_entry [ev] @ pick audit_entry evs" by (simp split: option.splits)
  then show "lv_rows (deliver (ev # evs) v) = lv_rows (deliver evs (deliver [ev] v))"
    by (simp only: deliver_fields rev_append append_assoc take_append_take)
  have "hello_seq ev = None" if "audit_entry ev \<noteq> None"
    using that by (auto simp: audit_entry_def hello_seq_def event_names split: if_splits simp del: js_simps)
  then show "lv_seq (deliver (ev # evs) v) = lv_seq (deliver evs (deliver [ev] v))"
    by (cases "audit_entry ev"; cases "hello_seq ev") (auto simp: deliver_fields Let_def split: option.splits list.splits)
qed (simp_all add: deliver_fields del: js_simps)

lemma jprop_None [simp]: "jprop e k = None \<longleftrightarrow> e = JNull"
  by (cases e) simp_all

lemma view_on_block:
  assumes "length (ll_rows s) \<le> LIVE_LOG_CAP"
  shows "view_of (on_block b s) = deliver (pick parseBlock [b]) (view_of s)"
proof (cases "parseBlock b")
  case None
  then show ?thesis using assms deliver_Nil [of "view_of s"] by (simp add: on_block_def view_of_def)
next
  case (Some ev)
  have d: "deliver (pick parseBlock [b]) (view_of s) = deliver [ev] (view_of s)" using Some by simp
  consider "sse_event ev = js ''audit''" | "sse_event ev = js ''gap''" | "sse_event ev = js ''hello''"
    | "sse_event ev \<noteq> js ''audit''" "sse_event ev \<noteq> js ''gap''" "sse_event ev \<noteq> js ''hello''" by blast
  then show ?thesis
  proof cases
    case 1
    then show ?thesis unfolding d using assms Some
      by (auto simp: on_block_def deliver_def view_of_def audit_entry_def hello_seq_def event_names Let_def LIVE_LOG_CAP_def
        simp del: js_simps split: option.splits)
  next
    case 2
    then show ?thesis unfolding d using assms Some
      by (auto simp: on_block_def deliver_def view_of_def audit_entry_def hello_seq_def event_names Let_def
        simp del: js_simps split: option.splits)
  next
    case 3
    then show ?thesis unfolding d using assms Some
      by (auto simp: on_block_def deliver_def view_of_def audit_entry_def hello_seq_def event_names Let_def
        simp del: js_simps split: option.splits)
  next
    case 4
    then show ?thesis unfolding d using assms Some
      by (auto simp: on_block_def deliver_def view_of_def audit_entry_def hello_seq_def Let_def
        simp del: js_simps split: option.splits)
  qed
qed


lemma on_block_rows: "length (ll_rows s) \<le> LIVE_LOG_CAP \<Longrightarrow> length (ll_rows (on_block b s)) \<le> LIVE_LOG_CAP"
  by (simp add: on_block_def split: option.splits)

lemma view_on_blocks:
  "length (ll_rows s) \<le> LIVE_LOG_CAP \<Longrightarrow> view_of (fold on_block bs s) = deliver (pick parseBlock bs) (view_of s)"
proof (induction bs arbitrary: s)
  case Nil
  then show ?case using deliver_Nil [of "view_of s"] by (simp add: view_of_def)
next
  case (Cons b bs)
  have "view_of (fold on_block (b # bs) s) = deliver (pick parseBlock bs) (deliver (pick parseBlock [b]) (view_of s))"
    using Cons.IH [OF on_block_rows [OF Cons.prems]] view_on_block [OF Cons.prems] by simp
  also have "\<dots> = deliver (pick parseBlock (b # bs)) (view_of s)"
  proof (cases "parseBlock b")
    case None
    have "length (lv_rows (view_of s)) \<le> LIVE_LOG_CAP" using Cons.prems by (simp add: view_of_def)
    with None show ?thesis by (simp add: deliver_Nil)
  next
    case (Some ev)
    then show ?thesis using deliver_Cons [of ev "pick parseBlock bs"] by simp
  qed
  finally show ?case .
qed

lemma blocks_at:
  "index_of_str nlnl buf = None \<Longrightarrow> text_blocks buf = ([], buf)"
  "index_of_str nlnl buf = Some i \<Longrightarrow>
    text_blocks buf = (take i buf # fst (text_blocks (drop (i + 2) buf)), snd (text_blocks (drop (i + 2) buf)))"
proof (induction buf arbitrary: i rule: text_blocks.induct)
  case (3 c d s)
  {
    case 1
    then have n: "\<not> (c = nl \<and> d = nl)" and "index_of_str nlnl (d # s) = None"
      by (auto simp: nlnl_def split: if_splits)
    then have "text_blocks (d # s) = ([], d # s)" using 3(3) by blast
    with n show ?case by auto
  next
    case 2
    show ?case
    proof (cases "c = nl \<and> d = nl")
      case True
      then have "i = 0" using 2 by (simp add: nlnl_def)
      then show ?thesis using True by (simp split: prod.splits)
    next
      case False
      then obtain j where j: "i = Suc j" "index_of_str nlnl (d # s) = Some j"
        using 2 by (auto simp: nlnl_def split: if_splits)
      then show ?thesis using 3(4) [OF False j(2)] False by auto
    qed
  }
qed (auto simp: nlnl_def)

lemma drain_blocks: "drain buf s = (fold on_block (fst (text_blocks buf)) s, snd (text_blocks buf))"
proof (induction buf s rule: drain.induct)
  case (1 buf s)
  then show ?case by (cases "index_of_str nlnl buf") (simp_all add: drain.simps [of buf s] blocks_at)
qed

text \<open>Blocks do not depend on where the text is cut into chunks.\<close>

lemma text_blocks_append:
  "text_blocks (x @ t) = (fst (text_blocks x) @ fst (text_blocks (snd (text_blocks x) @ t)), snd (text_blocks (snd (text_blocks x) @ t)))"
proof (induction x rule: text_blocks.induct)
  case (3 c d s)
  show ?case
  proof (cases "c = nl \<and> d = nl")
    case True
    then show ?thesis using 3(1) by (simp split: prod.splits)
  next
    case False
    note IH = 3(2) [OF False]
    have e: "text_blocks (c # d # x) = (case text_blocks (d # x) of ([], r) \<Rightarrow> ([], c # r) | (b # bs, r) \<Rightarrow> ((c # b) # bs, r))" for x
      using False by (simp only: text_blocks.simps if_False)
    show ?thesis
    proof (cases "fst (text_blocks (d # s))")
      case Nil
      have "index_of_str nlnl (d # s) = None"
        using Nil blocks_at(2) [of "d # s"] by (cases "index_of_str nlnl (d # s)") auto
      then have "text_blocks (d # s) = ([], d # s)" by (rule blocks_at(1))
      then have "text_blocks (c # d # s) = ([], c # d # s)" unfolding e by simp
      then show ?thesis by (simp only: fst_conv snd_conv append_Nil prod.collapse)
    next
      case (Cons b bs)
      then obtain r where r: "text_blocks (d # s) = (b # bs, r)" by (metis prod.collapse)
      then have "text_blocks (d # s @ t) = (b # bs @ fst (text_blocks (r @ t)), snd (text_blocks (r @ t)))"
        using IH by simp
      then have "text_blocks (c # d # s @ t) = ((c # b) # bs @ fst (text_blocks (r @ t)), snd (text_blocks (r @ t)))"
        unfolding e by simp
      moreover have "text_blocks (c # d # s) = ((c # b) # bs, r)" unfolding e r by simp
      ultimately show ?thesis by simp
    qed
  qed
qed simp_all

lemma on_block_frame [simp]: "ll_conn (on_block b s) = ll_conn s"
  by (simp add: on_block_def split: option.splits)

lemma on_blocks_frame [simp]: "ll_conn (fold on_block bs s) = ll_conn s"
  by (induction bs arbitrary: s) simp_all

lemma chunk_step:
  assumes "ll_conn s = Some (Reading buf)"
  shows "live_step c nf (Chunk t) s =
    (fold on_block (fst (text_blocks (buf @ t))) s)\<lparr>ll_conn := Some (Reading (snd (text_blocks (buf @ t))))\<rparr>"
  using assms by (simp add: drain_blocks)


section \<open>Reachable states\<close>

inductive live_reach :: "(jsstring \<Rightarrow> jsstring) \<Rightarrow> live \<Rightarrow> bool" for nf where
  reach_init: "live_reach nf (live_init c nf f en)"
| reach_step: "live_reach nf s \<Longrightarrow> live_reach nf (live_step c nf op s)"

text \<open>
  The cap on the rows; a log that is paused or disabled neither reads nor waits; otherwise there is a connection or a
  retry is pending, never both; the badge says live exactly while a stream is read; and the buffer holds no complete
  block.
\<close>

definition live_inv :: "live \<Rightarrow> bool" where
  "live_inv s \<longleftrightarrow> length (ll_rows s) \<le> LIVE_LOG_CAP \<and>
     (if \<not> ll_enabled s \<or> ll_paused s then ll_conn s = None \<and> \<not> ll_timer s else (ll_conn s \<noteq> None) \<noteq> ll_timer s) \<and>
     (ll_status s = Live \<longleftrightarrow> (\<exists>buf. ll_conn s = Some (Reading buf))) \<and>
     (\<forall>buf. ll_conn s = Some (Reading buf) \<longrightarrow> text_blocks buf = ([], buf))"

lemma connect_simps:
  "ll_rows (connect c nf s) = ll_rows s" "ll_enabled (connect c nf s) = ll_enabled s" "ll_paused (connect c nf s) = ll_paused s"
  "ll_rows (live_effect c nf s) = ll_rows s" "ll_enabled (live_effect c nf s) = ll_enabled s" "ll_paused (live_effect c nf s) = ll_paused s"
  by (simp_all add: connect_def live_effect_def stop_def Let_def)

lemma live_inv_effect: "length (ll_rows s) \<le> LIVE_LOG_CAP \<Longrightarrow> live_inv (live_effect c nf s)"
  by (auto simp: live_inv_def live_effect_def connect_def stop_def Let_def)

lemma on_block_same:
  "ll_enabled (on_block b s) = ll_enabled s" "ll_paused (on_block b s) = ll_paused s" "ll_timer (on_block b s) = ll_timer s"
  "ll_status (on_block b s) = ll_status s" "ll_filter (on_block b s) = ll_filter s"
  by (simp_all add: on_block_def split: option.splits)

lemma on_blocks_same:
  "ll_enabled (fold on_block bs s) = ll_enabled s" "ll_paused (fold on_block bs s) = ll_paused s"
  "ll_timer (fold on_block bs s) = ll_timer s" "ll_status (fold on_block bs s) = ll_status s"
  "length (ll_rows s) \<le> LIVE_LOG_CAP \<Longrightarrow> length (ll_rows (fold on_block bs s)) \<le> LIVE_LOG_CAP"
  by (induction bs arbitrary: s) (simp_all add: on_block_same on_block_rows)

lemma text_blocks_rest: "text_blocks (snd (text_blocks x)) = ([], snd (text_blocks x))"
proof -
  have "fst (text_blocks x) @ fst (text_blocks (snd (text_blocks x))) = fst (text_blocks x)"
    "snd (text_blocks (snd (text_blocks x))) = snd (text_blocks x)"
    using text_blocks_append [of x "[]"] by (metis append_Nil2 fst_conv, metis append_Nil2 snd_conv)
  then show ?thesis by (metis append_self_conv prod.collapse)
qed

lemma live_inv_chunk:
  assumes "live_inv s"
  shows "live_inv (live_step c nf (Chunk t) s)"
proof (cases "\<exists>buf. ll_conn s = Some (Reading buf)")
  case True
  then obtain buf where "ll_conn s = Some (Reading buf)" by blast
  with assms show ?thesis unfolding chunk_step [OF \<open>ll_conn s = Some (Reading buf)\<close>]
    by (simp add: live_inv_def on_blocks_same text_blocks_rest split: if_splits)
next
  case False
  then have "live_step c nf (Chunk t) s = s" by (simp split: option.splits connection.splits)
  with assms show ?thesis by simp
qed

lemma live_inv_reach: "live_reach nf s \<Longrightarrow> live_inv s"
proof (induction rule: live_reach.induct)
  case (reach_init c f en)
  then show ?case unfolding live_init_def by (rule live_inv_effect) simp
next
  case (reach_step s c op)
  then have rows: "length (ll_rows s) \<le> LIVE_LOG_CAP" by (simp add: live_inv_def)
  show ?case
  proof (cases op)
    case (Answer ok)
    then show ?thesis using reach_step.IH
      by (auto simp: live_inv_def stream_failed_def split: option.splits connection.splits if_splits)
  next
    case (Chunk t)
    then show ?thesis using live_inv_chunk [OF reach_step.IH] by simp
  next
    case StreamEnd
    then show ?thesis using reach_step.IH by (auto simp: live_inv_def stream_failed_def split: if_splits)
  next
    case TimerFires
    then show ?thesis using reach_step.IH by (auto simp: live_inv_def connect_def stop_def Let_def split: if_splits)
  next
    case TogglePause
    then show ?thesis using live_inv_effect rows by simp
  next
    case ClearGap
    then show ?thesis using reach_step.IH by (auto simp: live_inv_def split: if_splits)
  next
    case ClearRows
    then show ?thesis using reach_step.IH by (auto simp: live_inv_def split: if_splits)
  next
    case (SetFilter f)
    then show ?thesis using live_inv_effect rows reach_step.IH by simp
  next
    case (SetEnabled e)
    then show ?thesis using live_inv_effect rows reach_step.IH by simp
  qed
qed

lemma on_block_conn: "on_block b (x\<lparr>ll_conn := k\<rparr>) = (on_block b x)\<lparr>ll_conn := k\<rparr>"
  by (auto simp: on_block_def simp del: js_simps split: option.splits)

lemma chunks_read:
  assumes "length (ll_rows s) \<le> LIVE_LOG_CAP" "ll_conn s = Some (Reading buf)" "snd (text_blocks buf) = buf" "fst (text_blocks buf) = []"
  shows "fold (\<lambda>t. live_step c nf (Chunk t)) ts s =
    (fold on_block (fst (text_blocks (buf @ concat ts))) s)\<lparr>ll_conn := Some (Reading (snd (text_blocks (buf @ concat ts))))\<rparr>"
  using assms
proof (induction ts arbitrary: s buf)
  case Nil
  then show ?case by (cases "text_blocks buf") simp
next
  case (Cons t ts)
  let ?b = "text_blocks (buf @ t)"
  let ?s = "live_step c nf (Chunk t) s"
  have s: "?s = (fold on_block (fst ?b) s)\<lparr>ll_conn := Some (Reading (snd ?b))\<rparr>" by (rule chunk_step [OF Cons.prems(2)])
  note rest = text_blocks_rest [of "buf @ t"]
  have "length (ll_rows ?s) \<le> LIVE_LOG_CAP" "ll_conn ?s = Some (Reading (snd ?b))"
    unfolding s using on_blocks_same(5) [OF Cons.prems(1)] by simp_all
  then have ih: "fold (\<lambda>t. live_step c nf (Chunk t)) ts ?s =
      (fold on_block (fst (text_blocks (snd ?b @ concat ts))) ?s)\<lparr>ll_conn := Some (Reading (snd (text_blocks (snd ?b @ concat ts))))\<rparr>"
    by (rule Cons.IH) (use rest in simp_all)
  have upd: "fold on_block bs (x\<lparr>ll_conn := k\<rparr>) = (fold on_block bs x)\<lparr>ll_conn := k\<rparr>" for bs x k
    by (induction bs arbitrary: x) (simp_all add: on_block_conn)
  have "fst (text_blocks (buf @ concat (t # ts))) = fst ?b @ fst (text_blocks (snd ?b @ concat ts))"
    "snd (text_blocks (buf @ concat (t # ts))) = snd (text_blocks (snd ?b @ concat ts))"
    using text_blocks_append [of "buf @ t" "concat ts"] by simp_all
  then show ?case unfolding fold_simps ih unfolding s upd by simp
qed


text \<open>
  C32: reading the stream in chunks implements the log of the whole text. From any state the hook can reach with a stream
  being read, whatever the chunks are, the rows, the gap banner and the number to continue from are those of the text
  received so far, and the buffer is the part behind the last complete event.
\<close>

theorem live_log_refines:
  assumes "live_reach nf s" "ll_conn s = Some (Reading buf)"
  shows "let s' = fold (\<lambda>t. live_step c nf (Chunk t)) ts s in
    view_of s' = read_text (buf @ concat ts) (view_of s) \<and>
    ll_conn s' = Some (Reading (snd (text_blocks (buf @ concat ts)))) \<and> ll_status s' = Live"
proof -
  have inv: "length (ll_rows s) \<le> LIVE_LOG_CAP" "text_blocks buf = ([], buf)" "ll_status s = Live"
    using live_inv_reach [OF assms(1)] assms(2) by (simp_all add: live_inv_def)
  have "view_of (x\<lparr>ll_conn := k\<rparr>) = view_of x" for x k by (simp add: view_of_def)
  then show ?thesis
    using chunks_read [OF inv(1) assms(2), of c nf ts] inv view_on_blocks [OF inv(1)]
    by (simp add: read_text_def Let_def on_blocks_same del: live_step.simps)
qed

lemma view_of_gap: "lv_gap (view_of s) = ll_gap s"
  by (simp add: view_of_def)

definition demo_console :: console where
  "demo_console = load_page (\<lambda>_. None) (\<lambda>_. None) True (js ''/'')"

definition demo_live :: live where
  "demo_live = live_step demo_console (\<lambda>l. l) (Answer True) (live_init demo_console (\<lambda>l. l) (filterStateToApi DEFAULT_FILTER) True)"

lemma demo_live_reading: "live_reach (\<lambda>l. l) demo_live" "ll_conn demo_live = Some (Reading [])" "ll_rows demo_live = []" "ll_gap demo_live = False"
  unfolding demo_live_def
  by (rule reach_step, rule reach_init) (simp_all add: live_init_def live_effect_def connect_def stop_def Let_def)

theorem live_log_refines_witness:
  "ll_gap (fold (\<lambda>t. live_step demo_console (\<lambda>l. l) (Chunk t)) [js ''event: ga'', js ''p'' @ [nl], [nl]] demo_live)"
proof -
  let ?ts = "[js ''event: ga'', js ''p'' @ [nl], [nl]]"
  have "fst (text_blocks (concat ?ts)) = [js ''event: gap'']" by (simp add: nl_def)
  moreover have "parseBlock (js ''event: gap'') = Some \<lparr>sse_event = js ''gap'', sse_data = [], sse_id = None\<rparr>"
    by (simp add: parseBlock_def sse_line_def colon_def nl_def starts_with_def Let_def)
  ultimately have g: "lv_gap (read_text (concat ?ts) (view_of demo_live))"
    unfolding read_text_def by (simp add: deliver_def Let_def)
  have "view_of (fold (\<lambda>t. live_step demo_console (\<lambda>l. l) (Chunk t)) ?ts demo_live) = read_text (concat ?ts) (view_of demo_live)"
    using live_log_refines [OF demo_live_reading(1,2), of demo_console ?ts] unfolding Let_def append_Nil by (rule conjunct1)
  with g show ?thesis by (metis view_of_gap)
qed

end
