(* ===== verification/Audit_Server.thy ===== *)
theory Audit_Server
  imports Audit_Stream
begin

text \<open>
  What the server writes on the stream (\<open>getAuditEventsStream\<close> of \<open>internal/api/audit_log.go\<close>) and what the live log
  makes of it: the two ends of the protocol together. The text of a record is that of \<open>json.Marshal\<close>, which is not part
  of the repository; the hypothesis on it is that it is one line of JSON with the record's number as \<open>seq\<close>.
\<close>

section \<open>The messages\<close>

datatype server_msg = SHello nat | SGap nat nat | SAudit nat jsstring | SPing

fun msg_lines :: "server_msg \<Rightarrow> jsstring list" where
  "msg_lines (SHello cursor) = [js ''retry: 3000'', js ''event: hello'', js ''data: {\"head_seq\":'' @ dec cursor @ js ''}'']"
| "msg_lines (SGap cursor oldest) = [js ''event: gap'',
     js ''data: {\"missed_after\":'' @ dec cursor @ js '',\"oldest_seq\":'' @ dec oldest @ js ''}'']"
| "msg_lines (SAudit n dat) = [js ''id: '' @ dec n, js ''event: audit'', js ''data: '' @ dat]"
| "msg_lines SPing = [js '': ping'']"

definition go_write :: "server_msg \<Rightarrow> jsstring" where
  "go_write m = join [nl] (msg_lines m) @ [nl, nl]"

fun wire_ok :: "server_msg \<Rightarrow> bool" where
  "wire_ok (SAudit n dat) = (nl \<notin> set dat \<and> (case JSON_parse dat of
      Some e \<Rightarrow> truthy_prop e ''seq'' = Some (JNum (dec n)) | None \<Rightarrow> False))"
| "wire_ok _ = True"

fun msg_entry :: "server_msg \<Rightarrow> json option" where
  "msg_entry (SAudit n dat) = JSON_parse dat"
| "msg_entry _ = None"

fun msg_seq :: "server_msg \<Rightarrow> nat option" where
  "msg_seq (SAudit n dat) = Some n"
| "msg_seq _ = None"

fun is_gap :: "server_msg \<Rightarrow> bool" where
  "is_gap (SGap a b) = True"
| "is_gap _ = False"

section \<open>One message is one block\<close>

fun solid :: "jsstring \<Rightarrow> bool" where
  "solid [] = True"
| "solid [c] = (c \<noteq> nl)"
| "solid (c # d # s) = (\<not> (c = nl \<and> d = nl) \<and> solid (d # s))"

lemma text_blocks_solid:
  "solid b \<Longrightarrow> text_blocks (b @ nl # nl # r) = (b # fst (text_blocks r), snd (text_blocks r))"
  by (induction b rule: solid.induct) (auto split: prod.splits)

lemma solid_line: "l \<noteq> [] \<Longrightarrow> nl \<notin> set l \<Longrightarrow> solid l"
  by (induction l rule: solid.induct) auto

lemma solid_append:
  "l \<noteq> [] \<Longrightarrow> nl \<notin> set l \<Longrightarrow> solid r \<Longrightarrow> r \<noteq> [] \<Longrightarrow> hd r \<noteq> nl \<Longrightarrow> solid (l @ nl # r)"
proof (induction l rule: solid.induct)
  case (2 c)
  then show ?case by (cases r) auto
qed auto

lemma join_lines_solid:
  assumes "ls \<noteq> []" "\<forall>l\<in>set ls. l \<noteq> [] \<and> nl \<notin> set l"
  shows "solid (join [nl] ls) \<and> join [nl] ls \<noteq> [] \<and> hd (join [nl] ls) \<noteq> nl"
  using assms
proof (induction "[nl]" ls rule: join.induct)
  case (2 w)
  then show ?case using solid_line by (cases w) auto
next
  case (3 w v vs)
  then have r: "solid (join [nl] (v # vs)) \<and> join [nl] (v # vs) \<noteq> [] \<and> hd (join [nl] (v # vs)) \<noteq> nl" by simp
  moreover have "w \<noteq> []" "nl \<notin> set w" using 3 by auto
  ultimately show ?case using solid_append [of w "join [nl] (v # vs)"] by (cases w) auto
qed simp

lemma dec_no_nl: "nl \<notin> set (dec n)"
  using dec_digits [of n] by (auto simp: nl_def is_digit_def)

lemma msg_lines_ok: "wire_ok m \<Longrightarrow> msg_lines m \<noteq> [] \<and> (\<forall>l\<in>set (msg_lines m). l \<noteq> [] \<and> nl \<notin> set l)"
  by (cases m) (use dec_no_nl in \<open>auto simp: nl_def\<close>)


lemma go_write_blocks:
  assumes "list_all wire_ok ms"
  shows "text_blocks (concat (map go_write ms)) = (map (\<lambda>m. join [nl] (msg_lines m)) ms, [])"
  using assms
proof (induction ms)
  case (Cons m ms)
  have "solid (join [nl] (msg_lines m))" using join_lines_solid [of "msg_lines m"] msg_lines_ok [of m] Cons.prems by auto
  then have "text_blocks (join [nl] (msg_lines m) @ nl # nl # concat (map go_write ms)) =
      (join [nl] (msg_lines m) # fst (text_blocks (concat (map go_write ms))), snd (text_blocks (concat (map go_write ms))))"
    by (rule text_blocks_solid)
  then show ?case using Cons by (simp add: go_write_def [of m])
qed simp

section \<open>What a block says\<close>

lemma sse_field:
  assumes "colon \<notin> set f" "f \<noteq> []"
  shows "sse_line (f @ colon # jc CHR '' '' # v) (ev, i, ds) =
    (if f = js ''event'' then (v, i, ds) else if f = js ''id'' then (ev, Some v, ds)
     else if f = js ''data'' then (ev, i, ds @ [v]) else (ev, i, ds))"
proof -
  have idx: "index_of colon (f @ colon # r) = Some (length f)" for r using assms(1) by (induction f) auto
  have "hd (f @ colon # jc CHR '' '' # v) \<noteq> colon" using assms by (cases f) auto
  moreover have "starts_with (jc CHR '' '' # v) (js '' '')" by (simp add: starts_with_def)
  ultimately show ?thesis using assms(2) by (simp add: sse_line_def idx Let_def del: js_simps)
qed

lemma sse_fields:
  "sse_line (js ''event: '' @ v) (ev, i, ds) = (v, i, ds)" "sse_line (js ''id: '' @ v) (ev, i, ds) = (ev, Some v, ds)"
  "sse_line (js ''data: '' @ v) (ev, i, ds) = (ev, i, ds @ [v])" "sse_line (js ''retry: '' @ v) (ev, i, ds) = (ev, i, ds)"
  "sse_line (js '': ping'') (ev, i, ds) = (ev, i, ds)"
  using sse_field [of "js ''event''" v ev i ds] sse_field [of "js ''id''" v ev i ds] sse_field [of "js ''data''" v ev i ds]
    sse_field [of "js ''retry''" v ev i ds]
  by (simp_all add: colon_def sse_line_def)

fun msg_sse :: "server_msg \<Rightarrow> sse option" where
  "msg_sse (SHello cursor) = Some \<lparr>sse_event = js ''hello'', sse_data = js ''{\"head_seq\":'' @ dec cursor @ js ''}'', sse_id = None\<rparr>"
| "msg_sse (SGap cursor oldest) = Some \<lparr>sse_event = js ''gap'',
     sse_data = js ''{\"missed_after\":'' @ dec cursor @ js '',\"oldest_seq\":'' @ dec oldest @ js ''}'', sse_id = None\<rparr>"
| "msg_sse (SAudit n dat) = Some \<lparr>sse_event = js ''audit'', sse_data = dat, sse_id = Some (dec n)\<rparr>"
| "msg_sse SPing = None"

lemma lit_split:
  "js ''retry: 3000'' = js ''retry: '' @ js ''3000''" "js ''event: hello'' = js ''event: '' @ js ''hello''"
  "js ''event: gap'' = js ''event: '' @ js ''gap''" "js ''event: audit'' = js ''event: '' @ js ''audit''"
  "js ''data: {\"head_seq\":'' = js ''data: '' @ js ''{\"head_seq\":''"
  "js ''data: {\"missed_after\":'' = js ''data: '' @ js ''{\"missed_after\":''"
  by simp_all

lemma js_ne: "js ''hello'' \<noteq> js ''message''" "js ''gap'' \<noteq> js ''message''" "js ''audit'' \<noteq> js ''message''"
  by simp_all

lemma parseBlock_msg:
  assumes "wire_ok m"
  shows "parseBlock (join [nl] (msg_lines m)) = msg_sse m"
proof -
  have "split_on nl (join [nl] (msg_lines m)) = msg_lines m"
    using msg_lines_ok [OF assms] by (intro split_on_join) auto
  then show ?thesis
    by (cases m) (simp_all add: parseBlock_def lit_split sse_fields js_ne append_assoc del: js_simps js_append)
qed

lemma pick_map: "pick f (map g xs) = pick (\<lambda>x. f (g x)) xs"
  by (simp add: pick_def comp_def)

lemma pick_cong: "(\<And>x. x \<in> set xs \<Longrightarrow> f x = g x) \<Longrightarrow> pick f xs = pick g xs"
  by (induction xs) (simp_all split: option.splits)

lemma pick_pick: "pick f (pick g xs) = pick (\<lambda>x. Option.bind (g x) f) xs"
  by (induction xs) (auto split: option.splits)

text \<open>
  C33: what the server sends is what the page shows. The messages of the server, cut into chunks in any way, leave in the
  table the records among them, newest first and at most the cap, in front of the rows that were there; the banner
  appears exactly for a gap message; and the log continues after the last record received, so a reconnect asks for
  nothing twice.
\<close>

theorem server_stream_is_shown:
  assumes "live_reach nf s" "ll_conn s = Some (Reading [])" "list_all wire_ok ms" "concat ts = concat (map go_write ms)"
  shows "let s' = fold (\<lambda>t. live_step c nf (Chunk t)) ts s in
    ll_rows s' = take LIVE_LOG_CAP (rev (pick msg_entry ms) @ ll_rows s) \<and>
    ll_gap s' = (ll_gap s \<or> list_ex is_gap ms) \<and>
    (pick msg_seq ms \<noteq> [] \<longrightarrow> ll_lastSeq s' = Some (JNum (dec (last (pick msg_seq ms))))) \<and>
    ll_conn s' = Some (Reading [])"
proof -
  have inv: "length (ll_rows s) \<le> LIVE_LOG_CAP" using live_inv_reach [OF assms(1)] by (simp add: live_inv_def)
  have ok: "wire_ok m" if "m \<in> set ms" for m using assms(3) that by (simp add: list_all_iff)
  have evs: "pick parseBlock (map (\<lambda>m. join [nl] (msg_lines m)) ms) = pick msg_sse ms"
    unfolding pick_map using parseBlock_msg ok by (intro pick_cong) blast
  have entry: "Option.bind (msg_sse m) audit_entry = msg_entry m" if "wire_ok m" for m
    using that by (cases m) (auto simp: audit_entry_def event_names truthy_prop_def simp del: js_simps split: option.splits)
  then have es: "pick audit_entry (pick msg_sse ms) = pick msg_entry ms"
    unfolding pick_pick using ok by (intro pick_cong) blast
  have gap: "list_ex (\<lambda>ev. sse_event ev = js ''gap'') (pick msg_sse ms) = list_ex is_gap ms"
  proof (induction ms)
    case (Cons m ms)
    then show ?case by (cases m) (simp_all add: event_names del: js_simps)
  qed simp
  have "Option.bind (msg_entry m) (\<lambda>e. truthy_prop e ''seq'') = map_option (\<lambda>n. JNum (dec n)) (msg_seq m)" if "wire_ok m" for m
    using that by (cases m) (auto split: option.splits)
  then have "pick (\<lambda>e. truthy_prop e ''seq'') (pick msg_entry ms) = pick (\<lambda>m. map_option (\<lambda>n. JNum (dec n)) (msg_seq m)) ms"
    unfolding pick_pick using ok by (intro pick_cong) blast
  also have "\<dots> = map (\<lambda>n. JNum (dec n)) (pick msg_seq ms)" by (induction ms) (auto split: option.splits)
  finally have qs: "pick (\<lambda>e. truthy_prop e ''seq'') (pick msg_entry ms) = map (\<lambda>n. JNum (dec n)) (pick msg_seq ms)" .
  have blocks: "text_blocks (concat ts) = (map (\<lambda>m. join [nl] (msg_lines m)) ms, [])"
    unfolding assms(4) by (rule go_write_blocks [OF assms(3)])
  define s' where "s' = fold (\<lambda>t. live_step c nf (Chunk t)) ts s"
  have run: "s' = (fold on_block (map (\<lambda>m. join [nl] (msg_lines m)) ms) s)\<lparr>ll_conn := Some (Reading [])\<rparr>"
    unfolding s'_def using chunks_read [OF inv assms(2), of c nf ts] blocks by (simp del: live_step.simps)
  then have "view_of s' = view_of (fold on_block (map (\<lambda>m. join [nl] (msg_lines m)) ms) s)" by (simp add: view_of_def)
  also have "\<dots> = deliver (pick msg_sse ms) (view_of s)" unfolding view_on_blocks [OF inv] evs ..
  finally have v: "view_of s' = deliver (pick msg_sse ms) (view_of s)" .
  have "ll_rows s' = lv_rows (view_of s')" "ll_gap s' = lv_gap (view_of s')" "ll_lastSeq s' = lv_seq (view_of s')"
    "ll_conn s' = Some (Reading [])" using run by (simp_all add: view_of_def)
  then show ?thesis
    unfolding s'_def [symmetric] Let_def v deliver_fields es gap qs by (simp add: view_of_def last_map)
qed


definition demo_record :: jsstring where
  "demo_record = js ''{\"seq\":5}''"

lemma demo_record_parses: "JSON_parse demo_record = Some (JObj [(js ''seq'', JNum (js ''5''))])"
  by code_simp

theorem server_stream_is_shown_witness:
  "ll_rows (fold (\<lambda>t. live_step demo_console (\<lambda>l. l) (Chunk t)) [go_write (SHello 4), go_write SPing @ go_write (SAudit 5 demo_record)] demo_live) =
     [JObj [(js ''seq'', JNum (js ''5''))]]"
proof -
  let ?ms = "[SHello 4, SPing, SAudit 5 demo_record]" and ?ts = "[go_write (SHello 4), go_write SPing @ go_write (SAudit 5 demo_record)]"
  have five: "dec 5 = js ''5''" by (simp add: dec.simps)
  have "nl \<notin> set demo_record" by (simp add: demo_record_def nl_def)
  moreover have "truthy_prop (JObj [(js ''seq'', JNum (js ''5''))]) ''seq'' = Some (JNum (js ''5''))"
    by (simp add: truthy_prop_def zero_literal_def in_range_def)
  ultimately have "list_all wire_ok ?ms" using demo_record_parses five by simp
  moreover have "concat ?ts = concat (map go_write ?ms)" by simp
  ultimately have "ll_rows (fold (\<lambda>t. live_step demo_console (\<lambda>l. l) (Chunk t)) ?ts demo_live) =
      take LIVE_LOG_CAP (rev (pick msg_entry ?ms) @ ll_rows demo_live)"
    using server_stream_is_shown [OF demo_live_reading(1,2)] unfolding Let_def by blast
  then show ?thesis using demo_record_parses demo_live_reading(3) by (simp add: LIVE_LOG_CAP_def del: live_step.simps)
qed

text \<open>Choosing another filter opens a new stream but keeps the rows received for the old one.\<close>

lemma filter_change_keeps_rows: "ll_rows (live_step c nf (SetFilter f) s) = ll_rows s"
  by (simp add: connect_simps)

text \<open>While it is enabled and not paused the log always has a connection or a retry to come, and it never holds more
  rows than the cap.\<close>

lemma live_log_never_stuck:
  "live_reach nf s \<Longrightarrow> ll_enabled s \<Longrightarrow> \<not> ll_paused s \<Longrightarrow> ll_conn s \<noteq> None \<or> ll_timer s"
  using live_inv_reach [of nf s] by (simp add: live_inv_def)

end
