(* ===== verification/Kv2_Values.thy ===== *)
theory Kv2_Values
  imports Js_Json
begin

text \<open>
  Secret values, versions and names of the KV v2 page, \<open>pages/dashboard/kv2/utils.ts\<close>.

  A secret is one string on the server. \<open>parseValue\<close> decides whether to show it as key and value pairs and
  \<open>pairsToJson\<close> writes edited pairs back; the theorems give the round trip of the two, the names the page
  accepts, and the version table.
\<close>

section \<open>Versions\<close>

record kv_author =
  au_display_name :: "jsstring option"
  au_accessor :: "jsstring option"
  au_fingerprint :: "jsstring option"

record ver_meta =
  vm_created_at :: "jsstring option"
  vm_created_by :: "kv_author option"
  vm_deleted_at :: "jsstring option"
  vm_destroyed :: bool

datatype ver_state = VActive | VDeleted | VDestroyed

record ver_row =
  vr_author :: "kv_author option"
  vr_createdAt :: "jsstring option"
  vr_state :: ver_state
  vr_version :: nat

definition ver_state_of :: "ver_meta \<Rightarrow> ver_state" where
  "ver_state_of info =
     (if vm_destroyed info then VDestroyed else if truthy_str (vm_deleted_at info) then VDeleted else VActive)"

text \<open>The keys of \<open>meta.versions\<close> are decimal version numbers, so \<open>Number(v)\<close> is \<open>undec v\<close>.\<close>

definition versionRows :: "ver_meta jsobj option \<Rightarrow> ver_row list" where
  "versionRows versions = (case versions of
      None \<Rightarrow> []
    | Some vs \<Rightarrow> sort_by (by_num (\<lambda>r. int (vr_version r)))
        (map (\<lambda>(v, info). \<lparr>vr_author = vm_created_by info, vr_createdAt = vm_created_at info,
           vr_state = ver_state_of info, vr_version = undec v\<rparr>) (entries vs)))"

definition authorLabel :: "kv_author option \<Rightarrow> jsstring" where
  "authorLabel a = (case a of
      None \<Rightarrow> []
    | Some x \<Rightarrow> or_str (au_display_name x) (or_str (au_accessor x) (or_str (au_fingerprint x) [])))"

section \<open>Values\<close>

datatype parsed_value = Pairs "(jsstring \<times> jsstring) list" | Plain jsstring

fun str_of :: "json \<Rightarrow> jsstring option" where
  "str_of (JStr s) = Some s"
| "str_of _ = None"

definition parseValue :: "jsstring \<Rightarrow> parsed_value" where
  "parseValue raw =
     (let s = trim raw in
      if starts_with s (js ''{'') then
        (case JSON_parse s of
           Some (JObj obj) \<Rightarrow>
             (let es = entries obj in
              if es \<noteq> [] \<and> list_all (\<lambda>e. str_of (snd e) \<noteq> None) es
              then Pairs (map (\<lambda>e. (fst e, the (str_of (snd e)))) es) else Plain raw)
         | _ \<Rightarrow> Plain raw)
      else Plain raw)"

text \<open>An object whose values are all strings, printed by \<open>JSON.stringify\<close>.\<close>

definition print_strings :: "jsstring jsobj \<Rightarrow> jsstring" where
  "print_strings obj = stringify (\<lambda>l. l) (JObj (map (\<lambda>(k, v). (k, JStr v)) obj))"

definition pairs_obj :: "(jsstring \<times> jsstring) list \<Rightarrow> jsstring jsobj" where
  "pairs_obj pairs = fold (\<lambda>(k, v). obj_assign (trim k) v) pairs []"

definition pairsToJson :: "(jsstring \<times> jsstring) list \<Rightarrow> jsstring" where
  "pairsToJson pairs = print_strings (pairs_obj pairs)"

definition maskText :: "nat \<Rightarrow> jsstring" where
  "maskText len = repeat_str (min (max len 8) 22) [bullet]"

section \<open>Names\<close>

datatype name_reason = NEmpty | NFormat

text \<open>\<open>/(^|\/)\.\.?(\/|$)/\<close>\<close>

definition DOTS_RE :: re where
  "DOTS_RE = Seq (Grp 1 (Alt Bol (Lit (js ''/''))))
     (Seq (Lit (js ''.'')) (Seq (Opt (Lit (js ''.''))) (Grp 2 (Alt (Lit (js ''/'')) Eol))))"

definition validateName :: "jsstring \<Rightarrow> name_reason option" where
  "validateName name =
     (let n = trim name in
      if n = [] then Some NEmpty
      else if test (Cls is_ws) n \<or> starts_with n (js ''/'') \<or> ends_with n (js ''/'') \<or>
        includes_str n (js ''//'') \<or> test DOTS_RE n then Some NFormat
      else None)"

definition KEY_PATTERN :: re where
  "KEY_PATTERN = anchored (Plus (Cls (\<lambda>c. in_range CHR ''A'' CHR ''Z'' c \<or> in_range CHR ''a'' CHR ''z'' c \<or>
     is_digit c \<or> one_of ''_.-'' c)))"

definition dirName :: "jsstring \<Rightarrow> jsstring" where
  "dirName p = (case last_index_of (jc CHR ''/'') p of Some i \<Rightarrow> take (i + 1) p | None \<Rightarrow> [])"

section \<open>Values read back\<close>

lemma pairs_obj_distinct: "distinct (map fst (pairs_obj pairs))"
proof -
  have "distinct (map fst obj) \<Longrightarrow> distinct (map fst (fold (\<lambda>(k, v). obj_assign (trim k) v) pairs obj))" for obj
    by (induction pairs arbitrary: obj) (auto simp: obj_assign_def distinct_obj_put)
  then show ?thesis by (simp add: pairs_obj_def)
qed

lemma parse_print_strings:
  assumes "distinct (map fst obj)"
  shows "JSON_parse (print_strings obj) = Some (JObj (map (\<lambda>(k, v). (k, JStr v)) (entries obj)))"
proof -
  have "wf_json (JObj (map (\<lambda>(k, v). (k, JStr v)) obj))"
    using assms by (simp add: list_all_iff comp_def case_prod_beta)
  from JSON_parse_stringify [OF this] show ?thesis
    by (simp add: print_strings_def comp_def case_prod_beta entries_map [unfolded case_prod_beta])
qed

lemma print_strings_shape: "\<exists>w. print_strings obj = jc CHR ''{'' # w @ [jc CHR ''}'']"
  by (simp add: print_strings_def)

lemma parseValue_print_strings:
  assumes "distinct (map fst obj)" "obj \<noteq> []"
  shows "parseValue (print_strings obj) = Pairs (entries obj)"
proof -
  obtain w where w: "print_strings obj = jc CHR ''{'' # w @ [jc CHR ''}'']"
    using print_strings_shape by blast
  then have "trim (print_strings obj) = print_strings obj" "starts_with (print_strings obj) (js ''{'')"
    by (simp_all add: trim_id is_ws_def)
  then show ?thesis
    using assms by (simp add: parseValue_def parse_print_strings entries_map list_all_iff case_prod_beta Let_def comp_def)
qed

lemma pairs_obj_fresh:
  assumes "distinct (map (\<lambda>p. trim (fst p)) pairs)" "js ''__proto__'' \<notin> set (map (\<lambda>p. trim (fst p)) pairs)"
  shows "pairs_obj pairs = map (\<lambda>(k, v). (trim k, v)) pairs"
proof -
  let ?es = "map (\<lambda>(k, v). (trim k, v)) pairs"
  have "fold (\<lambda>(k, v). obj_assign (trim k) v) ps obj = fold (\<lambda>(k, v). obj_put k v) (map (\<lambda>(k, v). (trim k, v)) ps) obj"
    if "js ''__proto__'' \<notin> set (map (\<lambda>p. trim (fst p)) ps)" for ps and obj :: "jsstring jsobj"
    using that by (induction ps arbitrary: obj) (auto simp: obj_assign_def simp del: js_simps)
  moreover have "distinct (map fst ?es)" using assms(1) by (simp add: comp_def case_prod_beta)
  ultimately show ?thesis using assms(2) fold_obj_put_new [of ?es "[]"] by (simp add: pairs_obj_def del: js_simps)
qed



text \<open>
  The key \<open>__proto__\<close> is lost. The write form accepts it (it matches \<open>KEY_PATTERN\<close>), but assigning it on a plain
  object does nothing, so the stored text is the same as without the pair and the value is dropped silently.
\<close>

theorem proto_key_is_dropped:
  "test KEY_PATTERN (js ''__proto__'') \<and>
   pairsToJson (ps @ (js ''__proto__'', v) # qs) = pairsToJson (ps @ qs)"
proof -
  have "test KEY_PATTERN (js ''__proto__'')"
    unfolding KEY_PATTERN_def by (subst test_anchored) (simp_all add: re_lang in_range_def one_of_def is_digit_def)
  moreover have "trim (js ''__proto__'') = js ''__proto__''"
    by (rule trim_id) (simp_all add: is_ws_def)
  ultimately show ?thesis by (simp add: pairsToJson_def pairs_obj_def obj_assign_def del: js_simps)
qed

section \<open>The accepted names\<close>

lemma test_Cls: "test (Cls P) s \<longleftrightarrow> (\<exists>c\<in>set s. P c)"
proof -
  have "matches (Cls P) (b, v, c) \<noteq> [] \<longleftrightarrow> (\<exists>x w. v = x # w \<and> P x)" for b v c by (cases v) auto
  then show ?thesis by (auto simp: test_iff simp del: matches.simps) (metis append_Cons append_Nil in_set_conv_decomp)+
qed

lemma dots_tail:
  "matches (Seq (Lit (js ''.'')) (Seq (Opt (Lit (js ''.''))) (Grp 2 (Alt (Lit (js ''/'')) Eol)))) (b, v, c) \<noteq> [] \<longleftrightarrow>
    (\<exists>seg w. v = seg @ w \<and> (seg = js ''.'' \<or> seg = js ''..'') \<and> (w = [] \<or> hd w = jc CHR ''/''))"
proof -
  have ex: "(\<exists>seg w. v = seg @ w \<and> (seg = js ''.'' \<or> seg = js ''..'') \<and> P w) \<longleftrightarrow>
      (\<exists>w. v = js ''.'' @ w \<and> P w) \<or> (\<exists>w. v = js ''..'' @ w \<and> P w)" for P by metis
  show ?thesis unfolding ex
    by (cases v; cases "tl v"; cases "tl (tl v)") (auto simp: Opt_def)
qed

lemma matches_Seq_ne: "matches (Seq r s) m \<noteq> [] \<longleftrightarrow> (\<exists>m'\<in>set (matches r m). matches s m' \<noteq> [])"
  by auto

lemma test_DOTS_RE:
  "test DOTS_RE n \<longleftrightarrow> (\<exists>a seg b. n = a @ seg @ b \<and> (a = [] \<or> last a = jc CHR ''/'') \<and>
    (b = [] \<or> hd b = jc CHR ''/'') \<and> (seg = js ''.'' \<or> seg = js ''..''))"
proof -
  define T where "T v \<longleftrightarrow> (\<exists>seg w. v = seg @ w \<and> (seg = js ''.'' \<or> seg = js ''..'') \<and> (w = [] \<or> hd w = jc CHR ''/''))" for v
  have "matches DOTS_RE (rev u, v, Map.empty) \<noteq> [] \<longleftrightarrow> (u = [] \<and> T v) \<or> (\<exists>v'. v = jc CHR ''/'' # v' \<and> T v')" for u v
  proof -
    have tail: "matches (Seq (Lit (js ''.'')) (Seq (Opt (Lit (js ''.''))) (Grp 2 (Alt (Lit (js ''/'')) Eol)))) m \<noteq> [] \<longleftrightarrow>
        T (fst (snd m))" for m by (cases m) (simp only: dots_tail T_def fst_conv snd_conv)
    show ?thesis unfolding DOTS_RE_def matches_Seq_ne [of "Grp 1 _"] tail by (cases v) (auto split: if_splits)
  qed
  then have "test DOTS_RE n \<longleftrightarrow> T n \<or> (\<exists>u v'. n = u @ jc CHR ''/'' # v' \<and> T v')"
    by (auto simp: test_iff)
  also have "\<dots> \<longleftrightarrow> (\<exists>a v'. n = a @ v' \<and> (a = [] \<or> last a = jc CHR ''/'') \<and> T v')"
  proof -
    have "\<exists>a v'. n = a @ v' \<and> (a = [] \<or> last a = jc CHR ''/'') \<and> T v'" if "n = u @ jc CHR ''/'' # v'" "T v'" for u v'
      using that by (intro exI [of _ "u @ [jc CHR ''/'']"] exI [of _ v']) simp
    moreover have "n = butlast a @ jc CHR ''/'' # v'" if "n = a @ v'" "a \<noteq> []" "last a = jc CHR ''/''" for a v'
      using that by (metis append.assoc append_Cons append_Nil append_butlast_last_id)
    ultimately show ?thesis by (metis append_Nil)
  qed
  finally show ?thesis unfolding T_def by blast
qed

lemma doubled_slash: "includes_str n (js ''//'') \<longleftrightarrow> (\<exists>a b. n = a @ jc CHR ''/'' # jc CHR ''/'' # b)"
  by (auto simp: includes_str_iff)

lemma empty_segment:
  assumes "n \<noteq> []"
  shows "[] \<in> set (split_on (jc CHR ''/'') n) \<longleftrightarrow>
    starts_with n (js ''/'') \<or> ends_with n (js ''/'') \<or> includes_str n (js ''//'')"
proof -
  have s: "starts_with n (js ''/'') \<longleftrightarrow> hd n = jc CHR ''/''" using assms by (cases n) simp_all
  have e: "ends_with n (js ''/'') \<longleftrightarrow> last n = jc CHR ''/''"
    using assms by (cases n rule: rev_cases) (simp_all add: ends_with_def)
  have i1: "\<exists>a b. n = a @ b \<and> (a = [] \<or> last a = jc CHR ''/'') \<and> (b = [] \<or> hd b = jc CHR ''/'')"
    if "n = x @ jc CHR ''/'' # jc CHR ''/'' # y" for x y
    using that by (intro exI [of _ "x @ [jc CHR ''/'']"] exI [of _ "jc CHR ''/'' # y"]) simp
  have i2: "n = butlast a @ jc CHR ''/'' # jc CHR ''/'' # tl b"
    if "n = a @ b" "a \<noteq> []" "b \<noteq> []" "last a = jc CHR ''/''" "hd b = jc CHR ''/''" for a b
    using that by (metis append.assoc append_Cons append_Nil append_butlast_last_id list.collapse)
  have i3: "hd n = jc CHR ''/'' \<or> last n = jc CHR ''/'' \<or> a \<noteq> [] \<and> b \<noteq> []"
    if "n = a @ b" "a = [] \<or> last a = jc CHR ''/''" "b = [] \<or> hd b = jc CHR ''/''" for a b
    using that assms by (cases "a = []"; cases "b = []") simp_all
  have i4: "\<exists>a b. n = a @ b \<and> (a = [] \<or> last a = jc CHR ''/'') \<and> (b = [] \<or> hd b = jc CHR ''/'')"
    if "hd n = jc CHR ''/'' \<or> last n = jc CHR ''/''"
    using that by (metis append_Nil append_Nil2)
  have "(\<exists>a b. n = a @ b \<and> (a = [] \<or> last a = jc CHR ''/'') \<and> (b = [] \<or> hd b = jc CHR ''/'')) \<longleftrightarrow>
      hd n = jc CHR ''/'' \<or> last n = jc CHR ''/'' \<or> (\<exists>a b. n = a @ jc CHR ''/'' # jc CHR ''/'' # b)" (is "?L \<longleftrightarrow> ?R")
  proof
    assume ?L
    then obtain a b where ab: "n = a @ b" "a = [] \<or> last a = jc CHR ''/''" "b = [] \<or> hd b = jc CHR ''/''" by blast
    show ?R using i3 [OF ab] i2 [OF ab(1)] ab(2,3) by blast
  next
    assume ?R
    then show ?L using i4 by (elim disjE exE) (blast, blast, erule i1)
  qed
  then show ?thesis unfolding split_on_mem s e doubled_slash by simp
qed



end
