(* ===== verification/Kv2_Diff.thy ===== *)
theory Kv2_Diff
  imports Kv2_Values
begin

text \<open>
  The version diff of the KV v2 page: the lines of a value (\<open>valueLines\<close>) and the line diff
  \<open>lcsDiff\<close> of \<open>pages/dashboard/kv2/utils.ts\<close>, with the table it fills and the walk through it.

  \<open>lcs\<close> is the recursive length of a longest common subsequence. The theorems show that the table holds
  it, that the rows reproduce both versions, and that a diff of two texts keeps as many lines as possible.
\<close>

section \<open>Definitions\<close>

record diff_line =
  dl_key :: "jsstring option"
  dl_sig :: jsstring
  dl_txt :: jsstring

datatype row_kind = RAdd | RDel | REq

record diff_row =
  dr_a :: "nat option"
  dr_b :: "nat option"
  dr_line :: diff_line
  dr_t :: row_kind

text \<open>\<open>lc\<close> is \<open>localeCompare\<close> of the browser's locale.\<close>

definition valueLines :: "(jsstring \<Rightarrow> jsstring \<Rightarrow> int) \<Rightarrow> jsstring \<Rightarrow> bool \<Rightarrow> diff_line list" where
  "valueLines lc raw show' = (case parseValue raw of
      Pairs ps \<Rightarrow>
        (let sorted' = sort_by (\<lambda>a b. lc (fst a) (fst b)) ps in
         map (\<lambda>(i, k, v). \<lparr>dl_key = Some k, dl_sig = k @ js ''='' @ v,
           dl_txt = js ''  '' @ quote_json k @ js '': \"'' @ (if show' then v else maskText (length v)) @ js ''\"'' @
             (if i < length sorted' - 1 then js '','' else [])\<rparr>) (enumerate 0 sorted'))
    | Plain _ \<Rightarrow>
        map (\<lambda>l. \<lparr>dl_key = None, dl_sig = l, dl_txt = (if show' then l else maskText (length l))\<rparr>)
          (split_on (jc CHR ''\<newline>'') raw))"

text \<open>
  The table, filled from the last row up and each row from the right: \<open>lcs_row a B below\<close> is row \<open>i\<close> from
  row \<open>i + 1\<close>.
\<close>

fun lcs_row :: "diff_line \<Rightarrow> diff_line list \<Rightarrow> nat list \<Rightarrow> nat list" where
  "lcs_row a (b # bs) (d # ds) =
     (let r = lcs_row a bs ds in (if dl_sig a = dl_sig b then hd ds + 1 else max d (hd r)) # r)"
| "lcs_row a _ _ = [0]"

fun lcs_table :: "diff_line list \<Rightarrow> diff_line list \<Rightarrow> nat list list" where
  "lcs_table [] B = [replicate (length B + 1) 0]"
| "lcs_table (a # A) B = (let t = lcs_table A B in lcs_row a B (hd t) # t)"

definition del_row :: "diff_line list \<Rightarrow> nat \<Rightarrow> diff_row" where
  "del_row A i = \<lparr>dr_a = Some (i + 1), dr_b = None, dr_line = A ! i, dr_t = RDel\<rparr>"

definition add_row :: "diff_line list \<Rightarrow> nat \<Rightarrow> diff_row" where
  "add_row B j = \<lparr>dr_a = None, dr_b = Some (j + 1), dr_line = B ! j, dr_t = RAdd\<rparr>"

definition eq_row :: "diff_line list \<Rightarrow> nat \<Rightarrow> nat \<Rightarrow> diff_row" where
  "eq_row B i j = \<lparr>dr_a = Some (i + 1), dr_b = Some (j + 1), dr_line = B ! j, dr_t = REq\<rparr>"

text \<open>The three loops of the walk.\<close>

function diff_walk :: "nat list list \<Rightarrow> diff_line list \<Rightarrow> diff_line list \<Rightarrow> nat \<Rightarrow> nat \<Rightarrow> diff_row list" where
  "diff_walk L A B i j =
     (if i < length A \<and> j < length B then
        (if dl_sig (A ! i) = dl_sig (B ! j) then eq_row B i j # diff_walk L A B (i + 1) (j + 1)
         else if dl_key (A ! i) \<noteq> None \<and> dl_key (A ! i) = dl_key (B ! j)
           then del_row A i # add_row B j # diff_walk L A B (i + 1) (j + 1)
         else if L ! (i + 1) ! j \<ge> L ! i ! (j + 1) then del_row A i # diff_walk L A B (i + 1) j
         else add_row B j # diff_walk L A B i (j + 1))
      else map (del_row A) [i..<length A] @ map (add_row B) [j..<length B])"
  by pat_completeness auto
termination
  by (relation "measure (\<lambda>(L, A, B, i, j). (length A - i) + (length B - j))") auto

declare diff_walk.simps [simp del]

definition lcsDiff :: "diff_line list \<Rightarrow> diff_line list \<Rightarrow> diff_row list" where
  "lcsDiff A B = diff_walk (lcs_table A B) A B 0 0"

section \<open>The table\<close>

fun lcs :: "'a list \<Rightarrow> 'a list \<Rightarrow> nat" where
  "lcs (a # A) (b # B) = (if a = b then lcs A B + 1 else max (lcs A (b # B)) (lcs (a # A) B))"
| "lcs _ _ = 0"

lemma lcs_Nil [simp]: "lcs [] B = 0" "lcs A [] = 0"
  by (cases B; simp) (cases A; simp)

abbreviation sigs :: "diff_line list \<Rightarrow> jsstring list" where
  "sigs \<equiv> map dl_sig"

lemma lcs_row_correct:
  assumes "length below = length B + 1" "\<And>j. j \<le> length B \<Longrightarrow> below ! j = lcs (sigs A) (sigs (drop j B))"
  shows "length (lcs_row a B below) = length B + 1 \<and>
    (\<forall>j\<le>length B. lcs_row a B below ! j = lcs (sigs (a # A)) (sigs (drop j B)))"
  using assms
proof (induction B arbitrary: below)
  case (Cons b B)
  obtain d ds where d: "below = d # ds" using Cons.prems(1) by (cases below) auto
  have "ds ! j = lcs (sigs A) (sigs (drop j B))" if "j \<le> length B" for j
    using Cons.prems(2) [of "Suc j"] that d by simp
  then have IH: "length (lcs_row a B ds) = length B + 1"
    "\<forall>j\<le>length B. lcs_row a B ds ! j = lcs (sigs (a # A)) (sigs (drop j B))"
    using Cons.IH [of ds] Cons.prems(1) d by auto
  have d0: "d = lcs (sigs A) (sigs (b # B))" using Cons.prems(2) [of 0] d by simp
  have "ds \<noteq> []" using Cons.prems(1) d by auto
  then have ds0: "hd ds = lcs (sigs A) (sigs B)" using Cons.prems(2) [of 1] d by (simp add: hd_conv_nth)
  have "lcs_row a B ds \<noteq> []" using IH(1) by auto
  then have r0: "hd (lcs_row a B ds) = lcs (sigs (a # A)) (sigs B)" using IH(2) by (simp add: hd_conv_nth)
  have "lcs_row a (b # B) below ! j = lcs (sigs (a # A)) (sigs (drop j (b # B)))" if "j \<le> length (b # B)" for j
    using that IH(2) d d0 ds0 r0 by (cases j) (simp_all add: Let_def)
  with IH(1) d show ?case by (simp add: Let_def)
qed simp

lemma lcs_table_correct:
  "length (lcs_table A B) = length A + 1 \<and>
   (\<forall>i\<le>length A. length (lcs_table A B ! i) = length B + 1 \<and>
     (\<forall>j\<le>length B. lcs_table A B ! i ! j = lcs (sigs (drop i A)) (sigs (drop j B))))"
proof (induction A)
  case (Cons a A)
  let ?t = "lcs_table A B"
  have hd: "hd ?t = ?t ! 0" using Cons by (metis Zero_not_Suc add.commute hd_conv_nth list.size(3) plus_1_eq_Suc)
  have row: "length (lcs_row a B (hd ?t)) = length B + 1 \<and>
      (\<forall>j\<le>length B. lcs_row a B (hd ?t) ! j = lcs (sigs (a # A)) (sigs (drop j B)))"
    by (rule lcs_row_correct) (use Cons hd in auto)
  have "length (lcs_table (a # A) B ! i) = length B + 1 \<and>
      (\<forall>j\<le>length B. lcs_table (a # A) B ! i ! j = lcs (sigs (drop i (a # A))) (sigs (drop j B)))"
    if "i \<le> length (a # A)" for i
    using that row Cons by (cases i) (simp_all add: Let_def)
  with Cons show ?case by (simp add: Let_def)
qed (simp del: replicate_Suc)

lemma lcs_table_nth:
  "i \<le> length A \<Longrightarrow> j \<le> length B \<Longrightarrow> lcs_table A B ! i ! j = lcs (sigs (drop i A)) (sigs (drop j B))"
  using lcs_table_correct [of A B] by blast

lemma lcs_bound: "subseq xs A \<Longrightarrow> subseq xs B \<Longrightarrow> length xs \<le> lcs A B"
proof (induction A B arbitrary: xs rule: lcs.induct)
  case (1 a A b B)
  show ?case
  proof (cases xs)
    case (Cons x ys)
    show ?thesis
    proof (cases "a = b")
      case True
      have "subseq ys A" "subseq ys B"
        using "1.prems" Cons by (auto simp: subseq_Cons2_iff split: if_splits intro: subseq_Cons')
      then show ?thesis using "1.IH"(1) [OF True] Cons True by simp
    next
      case False
      show ?thesis
      proof (cases "x = a")
        case True
        then have "subseq xs B" using "1.prems"(2) Cons False by (simp add: subseq_Cons2_iff)
        then show ?thesis using "1.IH"(3) [OF False "1.prems"(1)] False by simp
      next
        case xa: False
        then have "subseq xs A" using "1.prems"(1) Cons by (simp add: subseq_Cons2_iff)
        then show ?thesis using "1.IH"(2) [OF False _ "1.prems"(2)] False by simp
      qed
    qed
  qed simp
qed auto

section \<open>The rows\<close>

lemma row_simps [simp]:
  "dr_t (del_row A i) = RDel" "dr_t (add_row B j) = RAdd" "dr_t (eq_row B i j) = REq"
  "dr_a (del_row A i) = Some (i + 1)" "dr_a (eq_row B i j) = Some (i + 1)"
  "dr_b (add_row B j) = Some (j + 1)" "dr_b (eq_row B i j) = Some (j + 1)"
  "dr_line (del_row A i) = A ! i" "dr_line (add_row B j) = B ! j" "dr_line (eq_row B i j) = B ! j"
  by (simp_all add: del_row_def add_row_def eq_row_def)

lemma diff_walk_sides:
  assumes "i \<le> length A" "j \<le> length B"
  shows "map (\<lambda>r. (dr_a r, dl_sig (dr_line r))) (filter (\<lambda>r. dr_t r \<noteq> RAdd) (diff_walk L A B i j)) =
      map (\<lambda>i. (Some (i + 1), dl_sig (A ! i))) [i..<length A] \<and>
    map (\<lambda>r. (dr_b r, dr_line r)) (filter (\<lambda>r. dr_t r \<noteq> RDel) (diff_walk L A B i j)) =
      map (\<lambda>j. (Some (j + 1), B ! j)) [j..<length B]"
  using assms
proof (induction L A B i j rule: diff_walk.induct)
  case (1 L A B i j)
  show ?case
  proof (cases "i < length A \<and> j < length B")
    case True
    then have i: "[i..<length A] = i # [i + 1..<length A]" and j: "[j..<length B] = j # [j + 1..<length B]"
      by (simp_all add: upt_conv_Cons)
    consider (eq) "dl_sig (A ! i) = dl_sig (B ! j)"
      | (key) "dl_sig (A ! i) \<noteq> dl_sig (B ! j)" "dl_key (A ! i) \<noteq> None \<and> dl_key (A ! i) = dl_key (B ! j)"
      | (del) "dl_sig (A ! i) \<noteq> dl_sig (B ! j)" "\<not> (dl_key (A ! i) \<noteq> None \<and> dl_key (A ! i) = dl_key (B ! j))"
          "L ! i ! (j + 1) \<le> L ! (i + 1) ! j"
      | (add) "dl_sig (A ! i) \<noteq> dl_sig (B ! j)" "\<not> (dl_key (A ! i) \<noteq> None \<and> dl_key (A ! i) = dl_key (B ! j))"
          "\<not> L ! i ! (j + 1) \<le> L ! (i + 1) ! j" by blast
    then show ?thesis
    proof cases
      case eq
      with "1.IH"(1) [OF True eq] True i j show ?thesis by (subst (1 2) diff_walk.simps) auto
    next
      case key
      with "1.IH"(2) [OF True key] True i j show ?thesis by (subst (1 2) diff_walk.simps) auto
    next
      case del
      with "1.IH"(3) [OF True del] True i show ?thesis by (subst (1 2) diff_walk.simps) auto
    next
      case add
      with "1.IH"(4) [OF True add] True j show ?thesis by (subst (1 2) diff_walk.simps) auto
    qed
  next
    case False
    then show ?thesis using "1.prems" by (subst (1 2) diff_walk.simps) (auto simp: filter_map comp_def)
  qed
qed

lemma diff_walk_keeps:
  assumes "i \<le> length A" "j \<le> length B" "list_all (\<lambda>l. dl_key l = None) A"
  shows "length (filter (\<lambda>r. dr_t r = REq) (diff_walk (lcs_table A B) A B i j)) =
    lcs (sigs (drop i A)) (sigs (drop j B))"
  using assms
proof (induction "lcs_table A B" A B i j rule: diff_walk.induct)
  case (1 A B i j)
  show ?case
  proof (cases "i < length A \<and> j < length B")
    case True
    then have dr: "drop i A = A ! i # drop (i + 1) A" "drop j B = B ! j # drop (j + 1) B"
      by (simp_all add: Cons_nth_drop_Suc)
    have nokey: "dl_key (A ! i) = None" using "1.prems"(3) True by (simp add: list_all_length)
    have tab: "lcs_table A B ! (i + 1) ! j = lcs (sigs (drop (i + 1) A)) (sigs (drop j B))"
      "lcs_table A B ! i ! (j + 1) = lcs (sigs (drop i A)) (sigs (drop (j + 1) B))"
      using True by (simp_all add: lcs_table_nth del: One_nat_def add_Suc_right)
    consider (eq) "dl_sig (A ! i) = dl_sig (B ! j)"
      | (del) "dl_sig (A ! i) \<noteq> dl_sig (B ! j)" "lcs_table A B ! i ! (j + 1) \<le> lcs_table A B ! (i + 1) ! j"
      | (add) "dl_sig (A ! i) \<noteq> dl_sig (B ! j)" "\<not> lcs_table A B ! i ! (j + 1) \<le> lcs_table A B ! (i + 1) ! j"
      by blast
    then show ?thesis
    proof cases
      case eq
      with "1.hyps"(1) [OF True eq] "1.prems" True show ?thesis
        by (subst diff_walk.simps) (simp add: dr)
    next
      case del
      with "1.hyps"(3) [OF True del(1) _ del(2)] "1.prems" True nokey tab show ?thesis
        by (subst diff_walk.simps) (simp add: dr)
    next
      case add
      with "1.hyps"(4) [OF True add(1) _ add(2)] "1.prems" True nokey tab show ?thesis
        by (subst diff_walk.simps) (simp add: dr)
    qed
  next
    case False
    then show ?thesis using "1.prems" by (subst diff_walk.simps) (auto simp: filter_map comp_def)
  qed
qed

text \<open>
  C12: the diff loses nothing. The rows that are not additions carry the signatures of the old version and the line
  numbers 1, 2, and so on; the rows that are not deletions are the lines of the new version with their line numbers.
\<close>

theorem lcsDiff_reproduces_both:
  "map (\<lambda>r. (dr_a r, dl_sig (dr_line r))) (filter (\<lambda>r. dr_t r \<noteq> RAdd) (lcsDiff A B)) =
     map (\<lambda>i. (Some (i + 1), dl_sig (A ! i))) [0..<length A] \<and>
   map (\<lambda>r. (dr_b r, dr_line r)) (filter (\<lambda>r. dr_t r \<noteq> RDel) (lcsDiff A B)) =
     map (\<lambda>j. (Some (j + 1), B ! j)) [0..<length B]"
  unfolding lcsDiff_def by (rule diff_walk_sides) simp_all





end
