(* ===== verification/Kv2_Write.thy ===== *)
theory Kv2_Write
  imports Kv2_Values Api_Client
begin

text \<open>
  The dialog that writes a secret version, \<open>pages/dashboard/kv2/components/write-modal.tsx\<close>, with the seed that the
  secret drawer hands to it. The record \<open>write_form\<close> is the state of the dialog; each handler is a function on it, and
  \<open>submit\<close> also returns the request it sends. Rows carry the identifier that \<open>mkRow\<close> gives them. The messages
  of the form are the constructors of \<open>write_err\<close>.

  The lookup of the metadata for the hint beside the name is not part of the state: only its answer enters \<open>submit_failed\<close>.
\<close>

section \<open>State\<close>

record edit_seed =
  sd_path :: jsstring
  sd_value :: "jsstring option"
  sd_version :: "nat option"

record write_row =
  wr_id :: nat
  wr_key :: jsstring
  wr_out :: bool
  wr_show :: bool
  wr_value :: jsstring

datatype write_mode = PairsMode | TextMode

record write_form =
  wf_base :: jsstring
  wf_folders :: "jsstring list"
  wf_nextId :: nat
  wf_name :: jsstring
  wf_rows :: "write_row list"
  wf_mode :: write_mode
  wf_text :: jsstring
  wf_showText :: bool
  wf_cas :: jsstring
  wf_tried :: bool
  wf_saving :: bool
  wf_conflict :: "nat option"
  wf_serverErr :: jsstring
  wf_casDemanded :: bool

definition mkRow :: "nat \<Rightarrow> jsstring \<Rightarrow> jsstring \<Rightarrow> write_row" where
  "mkRow i k v = \<lparr>wr_id = i, wr_key = k, wr_out = False, wr_show = False, wr_value = v\<rparr>"

text \<open>\<open>setRows(pairs.map(([k, v]) => mkRow(k, v)))\<close>: the identifiers are handed out in order.\<close>

definition set_pairs :: "(jsstring \<times> jsstring) list \<Rightarrow> write_form \<Rightarrow> write_form" where
  "set_pairs ps f = f\<lparr>wf_rows := map (\<lambda>(i, k, v). mkRow i k v) (zip [wf_nextId f ..< wf_nextId f + length ps] ps),
     wf_nextId := wf_nextId f + length ps\<rparr>"

definition slice_from :: "nat \<Rightarrow> 'a list \<Rightarrow> 'a list" where
  "slice_from n s = drop n s"

definition initial_form :: "jsstring list \<Rightarrow> write_form" where
  "initial_form folders = \<lparr>wf_base = [], wf_folders = folders, wf_nextId = 2, wf_name = [], wf_rows = [mkRow 1 [] []],
     wf_mode = PairsMode, wf_text = [], wf_showText = False, wf_cas = [], wf_tried = False, wf_saving = False,
     wf_conflict = None, wf_serverErr = [], wf_casDemanded = False\<rparr>"

text \<open>The reset when the dialog opens.\<close>

definition open_form :: "jsstring \<Rightarrow> edit_seed option \<Rightarrow> write_form \<Rightarrow> write_form" where
  "open_form pfx seed f =
     (let f1 = f\<lparr>wf_tried := False, wf_saving := False, wf_conflict := None, wf_serverErr := [], wf_casDemanded := False,
            wf_showText := False\<rparr> in
      case seed of
        Some s \<Rightarrow>
          (let f2 = f1\<lparr>wf_base := dirName (sd_path s), wf_name := slice_from (length (dirName (sd_path s))) (sd_path s),
                 wf_cas := (case sd_version s of Some v \<Rightarrow> dec v | None \<Rightarrow> [])\<rparr> in
           case map_option parseValue (sd_value s) of
             Some (Pairs ps) \<Rightarrow> (set_pairs ps f2)\<lparr>wf_mode := PairsMode, wf_text := []\<rparr>
           | Some (Plain txt') \<Rightarrow> (set_pairs [([], [])] f2)\<lparr>wf_mode := TextMode, wf_text := txt'\<rparr>
           | None \<Rightarrow> (set_pairs [([], [])] f2)\<lparr>wf_mode := PairsMode, wf_text := []\<rparr>)
      | None \<Rightarrow> (set_pairs [([], [])] (f1\<lparr>wf_base := pfx, wf_name := [], wf_cas := []\<rparr>))
          \<lparr>wf_mode := PairsMode, wf_text := []\<rparr>)"

section \<open>Validation\<close>

datatype write_err =
    NameEmpty | NameFormat | NameFolder jsstring
  | KeyEmpty | KeyFormat | KeyDup jsstring | ValueEmpty
  | CasFormat | CasRequired

definition fullPath :: "write_form \<Rightarrow> jsstring" where
  "fullPath f = wf_base f @ trim (wf_name f)"

definition name_err :: "write_form \<Rightarrow> write_err option" where
  "name_err f = (case validateName (wf_name f) of
      Some NEmpty \<Rightarrow> Some NameEmpty
    | Some NFormat \<Rightarrow> Some NameFormat
    | None \<Rightarrow> if fullPath f @ js ''/'' \<in> set (wf_folders f) then Some (NameFolder (fullPath f)) else None)"

text \<open>\<open>valueErr ||= e\<close>: the first message stays.\<close>

definition keep_first :: "write_err option \<Rightarrow> write_err \<Rightarrow> write_err option" where
  "keep_first old e = (case old of Some x \<Rightarrow> Some x | None \<Rightarrow> Some e)"

type_synonym row_marks = "(nat \<times> bool \<times> bool) list"

definition row_check ::
  "write_row \<Rightarrow> jsstring list \<times> write_err option \<times> row_marks \<Rightarrow> jsstring list \<times> write_err option \<times> row_marks" where
  "row_check r st = (case st of (seen, verr, marks) \<Rightarrow>
     let k = trim (wr_key r);
         (ek, verr1) =
           (if k = [] then (True, keep_first verr KeyEmpty)
            else if \<not> test KEY_PATTERN k then (True, keep_first verr KeyFormat)
            else if k \<in> set seen then (True, keep_first verr (KeyDup k))
            else (False, verr));
         (ev, verr2) = (if wr_value r = [] then (True, keep_first verr1 ValueEmpty) else (False, verr1))
     in (k # seen, verr2, if ek \<or> ev then marks @ [(wr_id r, ek, ev)] else marks))"

definition rows_check :: "write_form \<Rightarrow> jsstring list \<times> write_err option \<times> row_marks" where
  "rows_check f = (if wf_mode f = PairsMode then fold row_check (wf_rows f) ([], None, [])
     else ([], if wf_text f = [] then Some ValueEmpty else None, []))"

definition value_err :: "write_form \<Rightarrow> write_err option" where
  "value_err f = fst (snd (rows_check f))"

definition rowErr :: "write_form \<Rightarrow> row_marks" where
  "rowErr f = snd (snd (rows_check f))"

definition DIGITS_RE :: re where
  "DIGITS_RE = anchored (Plus (Cls is_digit))"

definition cas_err :: "write_form \<Rightarrow> write_err option" where
  "cas_err f =
     (let c = trim (wf_cas f) in
      if c \<noteq> [] \<and> \<not> test DIGITS_RE c then Some CasFormat
      else if c = [] \<and> wf_casDemanded f then Some CasRequired else None)"

definition hasErrors :: "write_form \<Rightarrow> bool" where
  "hasErrors f \<longleftrightarrow> name_err f \<noteq> None \<or> value_err f \<noteq> None \<or> cas_err f \<noteq> None"

section \<open>Handlers\<close>

definition setRow :: "nat \<Rightarrow> (write_row \<Rightarrow> write_row) \<Rightarrow> write_form \<Rightarrow> write_form" where
  "setRow i patch f = f\<lparr>wf_rows := map (\<lambda>r. if wr_id r = i then patch r else r) (wf_rows f)\<rparr>"

definition addRow :: "write_form \<Rightarrow> write_form" where
  "addRow f = f\<lparr>wf_rows := wf_rows f @ [mkRow (wf_nextId f) [] []], wf_nextId := wf_nextId f + 1\<rparr>"

text \<open>The removal proper, at once with reduced motion and otherwise when the row has faded out.\<close>

definition drop_row :: "nat \<Rightarrow> write_form \<Rightarrow> write_form" where
  "drop_row i f = (if 1 < length (wf_rows f) then f\<lparr>wf_rows := filter (\<lambda>r. wr_id r \<noteq> i) (wf_rows f)\<rparr> else f)"

definition removeRow :: "bool \<Rightarrow> nat \<Rightarrow> write_form \<Rightarrow> write_form" where
  "removeRow reducedMotion i f =
     (if length (wf_rows f) < 2 then f
      else if reducedMotion then drop_row i f
      else setRow i (\<lambda>r. r\<lparr>wr_out := True\<rparr>) f)"

definition row_pairs :: "write_row list \<Rightarrow> (jsstring \<times> jsstring) list" where
  "row_pairs rs = map (\<lambda>r. (wr_key r, wr_value r)) rs"

definition switchMode_write :: "write_mode \<Rightarrow> write_form \<Rightarrow> write_form" where
  "switchMode_write m f =
     (if m = wf_mode f then f
      else if m = TextMode then
        (let filled = filter (\<lambda>r. trim (wr_key r) \<noteq> []) (wf_rows f) in
         (if filled \<noteq> [] \<and> wf_text f = [] then f\<lparr>wf_text := pairsToJson (row_pairs filled)\<rparr> else f)\<lparr>wf_mode := m\<rparr>)
      else (case parseValue (wf_text f) of
              Pairs ps \<Rightarrow> (set_pairs ps f)\<lparr>wf_mode := m\<rparr>
            | Plain _ \<Rightarrow> f\<lparr>wf_mode := m\<rparr>))"

text \<open>The value and the version of the request; a version is below \<open>2^53\<close>, where \<open>Number\<close> is exact.\<close>

definition written_value :: "write_form \<Rightarrow> jsstring" where
  "written_value f = (if wf_mode f = PairsMode then pairsToJson (row_pairs (wf_rows f)) else wf_text f)"

definition written_cas :: "write_form \<Rightarrow> nat option" where
  "written_cas f = (let c = trim (wf_cas f) in if c = [] then None else Some (undec c))"

definition submit :: "write_form \<Rightarrow> write_form \<times> request option" where
  "submit f =
     (let f1 = f\<lparr>wf_tried := True, wf_conflict := None, wf_serverErr := []\<rparr> in
      if hasErrors f then (f1, None)
      else (f1\<lparr>wf_saving := True\<rparr>, Some (writeSecret (fullPath f) (written_value f) (written_cas f))))"

text \<open>The answer: a conflict shows the version the metadata has now, 0 when it cannot be read.\<close>

definition submit_failed :: "failure \<Rightarrow> nat option \<Rightarrow> write_form \<Rightarrow> write_form" where
  "submit_failed err meta_version f =
     (if errStatus err = Some 409 then f\<lparr>wf_conflict := Some (nullish meta_version 0)\<rparr>
      else if isCasRequiredError err then f\<lparr>wf_casDemanded := True\<rparr>
      else f\<lparr>wf_serverErr := or_str (Some (errMessage err)) (js ''kv2.toast.failed'')\<rparr>)\<lparr>wf_saving := False\<rparr>"

definition take_version :: "write_form \<Rightarrow> write_form" where
  "take_version f = (case wf_conflict f of Some v \<Rightarrow> f\<lparr>wf_cas := dec v, wf_conflict := None\<rparr> | None \<Rightarrow> f)"

definition drop_cas :: "write_form \<Rightarrow> write_form" where
  "drop_cas f = f\<lparr>wf_cas := [], wf_conflict := None\<rparr>"

text \<open>What the secret drawer passes to the dialog for a new version.\<close>

record kv_response =
  kr_value :: "jsstring option"
  kr_encoding :: "jsstring option"

definition edit_seed_of :: "jsstring \<Rightarrow> bool \<Rightarrow> bool \<Rightarrow> nat \<Rightarrow> kv_response option \<Rightarrow> edit_seed" where
  "edit_seed_of path viewing active current resp =
     \<lparr>sd_path = path,
      sd_value = (if \<not> viewing \<and> active then Option.bind resp kr_value else None),
      sd_version = (if current = 0 then None else Some current)\<rparr>"

section \<open>The shape of the form\<close>

datatype write_op =
    SetName jsstring | SetKey nat jsstring | SetValue nat jsstring | ToggleShow nat | AddRow
  | RemoveRow bool nat | FadedOut nat | SwitchTab write_mode | SetText jsstring | SetCas jsstring
  | Submit | SubmitFailed failure "nat option" | TakeVersion | DropCas | Reopen jsstring "edit_seed option"

fun write_step :: "write_op \<Rightarrow> write_form \<Rightarrow> write_form" where
  "write_step (SetName s) f = f\<lparr>wf_name := s\<rparr>"
| "write_step (SetKey i k) f = setRow i (\<lambda>r. r\<lparr>wr_key := k\<rparr>) f"
| "write_step (SetValue i v) f = setRow i (\<lambda>r. r\<lparr>wr_value := v\<rparr>) f"
| "write_step (ToggleShow i) f = setRow i (\<lambda>r. r\<lparr>wr_show := \<not> wr_show r\<rparr>) f"
| "write_step AddRow f = addRow f"
| "write_step (RemoveRow rm i) f = removeRow rm i f"
| "write_step (FadedOut i) f = drop_row i f"
| "write_step (SwitchTab m) f = switchMode_write m f"
| "write_step (SetText s) f = f\<lparr>wf_text := s\<rparr>"
| "write_step (SetCas s) f = f\<lparr>wf_cas := s, wf_conflict := None\<rparr>"
| "write_step Submit f = fst (submit f)"
| "write_step (SubmitFailed e v) f = submit_failed e v f"
| "write_step TakeVersion f = take_version f"
| "write_step DropCas f = drop_cas f"
| "write_step (Reopen p s) f = open_form p s f"

definition rows_ok :: "write_form \<Rightarrow> bool" where
  "rows_ok f \<longleftrightarrow> wf_rows f \<noteq> [] \<and> distinct (map wr_id (wf_rows f)) \<and> list_all (\<lambda>i. i < wf_nextId f) (map wr_id (wf_rows f))"

lemma rows_ok_updates [simp]:
  "rows_ok (f\<lparr>wf_mode := m\<rparr>) = rows_ok f" "rows_ok (f\<lparr>wf_text := t\<rparr>) = rows_ok f" "rows_ok (f\<lparr>wf_name := n\<rparr>) = rows_ok f"
  "rows_ok (f\<lparr>wf_cas := c\<rparr>) = rows_ok f" "rows_ok (f\<lparr>wf_tried := b\<rparr>) = rows_ok f" "rows_ok (f\<lparr>wf_saving := b\<rparr>) = rows_ok f"
  "rows_ok (f\<lparr>wf_conflict := x\<rparr>) = rows_ok f" "rows_ok (f\<lparr>wf_serverErr := t\<rparr>) = rows_ok f"
  "rows_ok (f\<lparr>wf_casDemanded := b\<rparr>) = rows_ok f"
  by (simp_all add: rows_ok_def)

lemma rows_ok_set_pairs:
  assumes "ps \<noteq> []"
  shows "rows_ok (set_pairs ps f)"
proof -
  let ?n = "wf_nextId f"
  have "map wr_id (map (\<lambda>(i, k, v). mkRow i k v) (zip [?n ..< ?n + length ps] ps)) = [?n ..< ?n + length ps]"
    by (rule nth_equalityI) (simp_all add: mkRow_def case_prod_beta)
  then show ?thesis
    using assms by (auto simp: rows_ok_def set_pairs_def list_all_iff simp del: map_map)
qed

lemma parseValue_Pairs_ne: "parseValue s = Pairs ps \<Longrightarrow> ps \<noteq> []"
  by (auto simp: parseValue_def Let_def split: if_splits option.splits json.splits)

lemma rows_ok_open: "rows_ok (open_form p s f)"
  by (auto simp: open_form_def Let_def rows_ok_set_pairs dest: parseValue_Pairs_ne split: option.split parsed_value.split)

lemma rows_ok_setRow: "rows_ok f \<Longrightarrow> (\<And>r. wr_id (g r) = wr_id r) \<Longrightarrow> rows_ok (setRow i g f)"
proof -
  assume "\<And>r. wr_id (g r) = wr_id r"
  then have "map wr_id (wf_rows (setRow i g f)) = map wr_id (wf_rows f)"
    by (simp add: setRow_def)
  moreover have "wf_nextId (setRow i g f) = wf_nextId f" "wf_rows (setRow i g f) = [] \<longleftrightarrow> wf_rows f = []"
    by (simp_all add: setRow_def)
  ultimately show "rows_ok f \<Longrightarrow> rows_ok (setRow i g f)"
    by (simp add: rows_ok_def)
qed

lemma rows_ok_addRow: "rows_ok f \<Longrightarrow> rows_ok (addRow f)"
  by (auto simp: rows_ok_def addRow_def mkRow_def list_all_iff)

text \<open>Removing a row cannot empty the form, because the identifiers are distinct.\<close>

lemma rows_ok_drop_row: "rows_ok f \<Longrightarrow> rows_ok (drop_row i f)"
proof -
  have "filter (\<lambda>r. wr_id r \<noteq> i) rs \<noteq> []" if "distinct (map wr_id rs)" "1 < length rs" for rs
    using that by (cases rs; cases "tl rs") auto
  then show "rows_ok f \<Longrightarrow> rows_ok (drop_row i f)"
    by (auto simp: rows_ok_def drop_row_def distinct_map_filter list_all_iff)
qed

lemma rows_ok_switchMode: "rows_ok f \<Longrightarrow> rows_ok (switchMode_write m f)"
  by (auto simp: switchMode_write_def Let_def rows_ok_set_pairs dest: parseValue_Pairs_ne split: parsed_value.split)

lemma rows_ok_step: "rows_ok f \<Longrightarrow> rows_ok (write_step op f)"
  by (cases op)
     (auto simp: rows_ok_setRow rows_ok_addRow rows_ok_drop_row rows_ok_switchMode rows_ok_open removeRow_def submit_def
        submit_failed_def take_version_def drop_cas_def Let_def split: option.split)

lemma distinct_map_nth: "distinct (map h xs) \<Longrightarrow> i < length xs \<Longrightarrow> j < length xs \<Longrightarrow> i \<noteq> j \<Longrightarrow> h (xs ! j) \<noteq> h (xs ! i)"
  by (auto simp: distinct_conv_nth)

text \<open>
  Whatever the user does in the dialog after it has opened, the form has at least one row, the identifiers of its
  rows are distinct and below the next one, and so a handler that addresses a row by its identifier changes that row
  and no other.
\<close>
theorem write_form_rows:
  "let f = fold write_step ops (open_form pfx seed f0) in
     wf_rows f \<noteq> [] \<and> distinct (map wr_id (wf_rows f)) \<and>
     (\<forall>i j. i < length (wf_rows f) \<longrightarrow> j < length (wf_rows f) \<longrightarrow> i \<noteq> j \<longrightarrow>
        wf_rows (setRow (wr_id (wf_rows f ! i)) g f) ! i = g (wf_rows f ! i) \<and>
        wf_rows (setRow (wr_id (wf_rows f ! i)) g f) ! j = wf_rows f ! j)"
proof -
  let ?f = "fold write_step ops (open_form pfx seed f0)"
  have "rows_ok (fold write_step ops f)" if "rows_ok f" for f
    using that by (induction ops arbitrary: f) (simp_all add: rows_ok_step)
  then have ok: "rows_ok ?f"
    by (simp add: rows_ok_open)
  then have d: "distinct (map wr_id (wf_rows ?f))"
    by (simp add: rows_ok_def)
  show ?thesis
    using ok by (auto simp: rows_ok_def setRow_def Let_def dest: distinct_map_nth [OF d])
qed

theorem write_form_rows_witness:
  "let f = fold write_step [AddRow, RemoveRow True 1, AddRow] (open_form [] None (initial_form [])) in
     wf_rows (setRow (wr_id (wf_rows f ! 0)) (\<lambda>r. r\<lparr>wr_key := js ''a''\<rparr>) f) ! 1 = wf_rows f ! 1"
proof -
  let ?f = "fold write_step [AddRow, RemoveRow True 1, AddRow] (open_form [] None (initial_form []))"
  have "2 \<le> length (wf_rows ?f)"
    by (simp add: open_form_def set_pairs_def addRow_def removeRow_def drop_row_def mkRow_def initial_form_def)
  then show ?thesis
    using write_form_rows [of "[AddRow, RemoveRow True 1, AddRow]" "[]" None "initial_form []" "\<lambda>r. r\<lparr>wr_key := js ''a''\<rparr>"]
    by (auto simp: Let_def simp del: fold_simps js_simps)
qed

section \<open>What a save writes\<close>

lemma row_check_err_stays: "fst (snd (fold row_check rs (seen, Some e, m))) = Some e"
proof (induction rs arbitrary: seen m)
  case (Cons r rs)
  have "\<exists>s' m'. row_check r (seen, Some e, m) = (s', Some e, m')"
    by (simp add: row_check_def keep_first_def Let_def)
  with Cons show ?case by auto
qed simp

definition row_fine :: "write_row \<Rightarrow> bool" where
  "row_fine r \<longleftrightarrow> trim (wr_key r) \<noteq> [] \<and> test KEY_PATTERN (trim (wr_key r)) \<and> wr_value r \<noteq> []"

lemma row_check_None:
  "row_check r (seen, None, m) =
     (if row_fine r \<and> trim (wr_key r) \<notin> set seen then (trim (wr_key r) # seen, None, m)
      else (trim (wr_key r) # seen, Some (the (fst (snd (row_check r (seen, None, m))))), snd (snd (row_check r (seen, None, m)))))"
  by (simp add: row_check_def keep_first_def row_fine_def Let_def)

lemma rows_check_ok:
  "fst (snd (fold row_check rs (seen, None, m))) = None \<longleftrightarrow>
     list_all row_fine rs \<and> distinct (map (\<lambda>r. trim (wr_key r)) rs) \<and> set (map (\<lambda>r. trim (wr_key r)) rs) \<inter> set seen = {}"
proof (induction rs arbitrary: seen m)
  case (Cons r rs)
  show ?case
  proof (cases "row_fine r \<and> trim (wr_key r) \<notin> set seen")
    case True
    then have "row_check r (seen, None, m) = (trim (wr_key r) # seen, None, m)"
      by (subst row_check_None) simp
    with True show ?thesis
      by (auto simp: Cons.IH)
  next
    case False
    then have "\<exists>e m'. row_check r (seen, None, m) = (trim (wr_key r) # seen, Some e, m')"
      by (subst row_check_None) auto
    with False show ?thesis
      by (auto simp: row_check_err_stays)
  qed
qed simp

lemma submit_request:
  assumes "snd (submit f) = Some r"
  shows "\<not> hasErrors f \<and> rq_url r = js ''/v2/secret/'' @ fullPath f \<and> rq_body r = TextB (written_value f) \<and>
    rq_params r = (case written_cas f of Some n \<Rightarrow> [(js ''cas'', dec n)] | None \<Rightarrow> [])"
  using assms by (auto simp: submit_def writeSecret_def Let_def split: if_splits)

lemma saved_pairs:
  assumes "ps \<noteq> []" "distinct (map (\<lambda>p. trim (fst p)) ps)" "js ''__proto__'' \<notin> set (map (\<lambda>p. trim (fst p)) ps)"
  shows "parseValue (pairsToJson ps) = Pairs (entries (map (\<lambda>(k, v). (trim k, v)) ps))"
  using assms parseValue_print_strings [OF pairs_obj_distinct [of ps]] pairs_obj_fresh [OF assms(2,3)]
  by (simp add: pairsToJson_def)


definition filled_form :: "write_form" where
  "filled_form = (open_form (js ''app/'') None (initial_form []))
     \<lparr>wf_name := js ''db'', wf_rows := [mkRow 2 (js ''user'') (js ''tuck'')]\<rparr>"

lemma filled_form_fields:
  "wf_mode filled_form = PairsMode" "wf_rows filled_form = [mkRow 2 (js ''user'') (js ''tuck'')]"
  "wf_name filled_form = js ''db''" "wf_cas filled_form = []" "wf_folders filled_form = []" "wf_casDemanded filled_form = False"
  by (simp_all add: filled_form_def open_form_def set_pairs_def initial_form_def Let_def del: js_simps)


section \<open>Edits the dialog loses\<close>

fun is_row_edit :: "write_op \<Rightarrow> bool" where
  "is_row_edit (SetKey _ _) = True" | "is_row_edit (SetValue _ _) = True" | "is_row_edit (ToggleShow _) = True"
| "is_row_edit AddRow = True" | "is_row_edit (RemoveRow _ _) = True" | "is_row_edit (FadedOut _) = True"
| "is_row_edit _ = False"

lemma row_edit_keeps: "is_row_edit op \<Longrightarrow> wf_text (write_step op f) = wf_text f \<and> wf_mode (write_step op f) = wf_mode f"
  by (cases op) (simp_all add: setRow_def addRow_def removeRow_def drop_row_def)

lemma row_edits_keep:
  "list_all is_row_edit ops \<Longrightarrow> wf_text (fold write_step ops f) = wf_text f \<and> wf_mode (fold write_step ops f) = wf_mode f"
  by (induction ops arbitrary: f) (simp_all add: row_edit_keeps)

text \<open>
  C23: once the dialog holds a text, the text view never takes over what is typed in the pairs view: after any edits of
  the rows, going to the text view and saving writes the old text.
\<close>
theorem stale_text_is_written:
  assumes "wf_mode f = PairsMode" "wf_text f \<noteq> []" "list_all is_row_edit ops"
  shows "written_value (switchMode_write TextMode (fold write_step ops f)) = wf_text f"
  using assms row_edits_keep [OF assms(3), of f] by (simp add: switchMode_write_def written_value_def Let_def)

text \<open>The form of the example above, shown as text and then as pairs again.\<close>

definition seen_as_text :: "write_form" where
  "seen_as_text = switchMode_write PairsMode (switchMode_write TextMode filled_form)"

theorem stale_text_is_written_witness:
  "written_value (switchMode_write TextMode (fold write_step [SetValue 3 (js ''changed'')] seen_as_text)) =
     pairsToJson [(js ''user'', js ''tuck'')]"
proof -
  have t: "trim (js ''user'') = js ''user''" "wf_text filled_form = []"
    by (simp_all add: trim_def trim_start_def trim_end_def is_ws_def filled_form_def open_form_def)
  have "wf_text (switchMode_write TextMode filled_form) = pairsToJson [(js ''user'', js ''tuck'')]"
    "wf_mode (switchMode_write TextMode filled_form) = TextMode"
    by (simp_all add: switchMode_write_def filled_form_fields t mkRow_def row_pairs_def Let_def del: js_simps) simp_all
  then have "wf_text seen_as_text = pairsToJson [(js ''user'', js ''tuck'')]" "wf_mode seen_as_text = PairsMode"
    by (simp_all add: seen_as_text_def switchMode_write_def [of PairsMode] set_pairs_def split: parsed_value.split)
  moreover have "pairsToJson [(js ''user'', js ''tuck'')] \<noteq> []"
    using print_strings_shape by (metis list.distinct(1) pairsToJson_def)
  ultimately show ?thesis
    using stale_text_is_written [of seen_as_text "[SetValue 3 (js ''changed'')]"] by simp
qed

lemma b64_no_brace:
  assumes "list_all (\<lambda>b. b < 256) bs"
  shows "jc CHR ''{'' \<notin> set (b64enc bs)"
proof
  assume "jc CHR ''{'' \<in> set (b64enc bs)"
  then have "jc CHR ''{'' \<in> b64c ` set (b64nums bs)"
    by (auto simp: b64enc_nums)
  then obtain n where "n \<in> set (b64nums bs)" "jc CHR ''{'' = b64c n"
    by blast
  then have "unb64c (jc CHR ''{'') = Some n"
    using b64nums_bound [OF assms] unb64c_b64c [of n] by (simp add: list_all_iff)
  then show False
    by (simp add: unb64c_def)
qed

text \<open>
  C24: the drawer hands the dialog the value of a secret without its encoding. The server sends the bytes \<open>bs\<close> of a
  secret that is not text as their base64 form; when the dialog is opened on it and saved unchanged, it writes the
  base64 text itself, as plain text, so the secret no longer holds the bytes.
\<close>
theorem edit_of_binary_writes_base64:
  assumes "list_all (\<lambda>b. b < 256) bs"
    "f = open_form pfx (Some (edit_seed_of path False True current
           (Some \<lparr>kr_value = Some (b64enc bs), kr_encoding = Some (js ''base64'')\<rparr>))) f0"
    "snd (submit f) = Some r"
  shows "rq_body r = TextB (b64enc bs) \<and> rq_headers r = [(js ''Content-Type'', js ''text/plain'')] \<and>
    rq_url r = js ''/v2/secret/'' @ fullPath f"
proof -
  have "\<not> starts_with (trim (b64enc bs)) (js ''{'')"
    using b64_no_brace [OF assms(1)] set_trim_subset [of "b64enc bs"] by (cases "trim (b64enc bs)") auto
  then have "parseValue (b64enc bs) = Plain (b64enc bs)"
    by (simp add: parseValue_def Let_def)
  then have "written_value f = b64enc bs"
    by (simp add: assms(2) open_form_def edit_seed_of_def written_value_def Let_def split: option.split)
  moreover have "rq_headers r = [(js ''Content-Type'', js ''text/plain'')]"
    using assms(3) by (auto simp: submit_def writeSecret_def Let_def split: if_splits)
  ultimately show ?thesis
    using submit_request [OF assms(3)] by simp
qed

definition binary_form :: "write_form" where
  "binary_form = open_form [] (Some (edit_seed_of (js ''key'') False True 0
     (Some \<lparr>kr_value = Some (b64enc [255]), kr_encoding = Some (js ''base64'')\<rparr>))) (initial_form [])"

theorem edit_of_binary_writes_base64_witness:
  "case snd (submit binary_form) of None \<Rightarrow> False | Some r \<Rightarrow> rq_body r = TextB (b64enc [255])"
proof -
  have "hasErrors binary_form = False"
    by code_simp
  then have "snd (submit binary_form) \<noteq> None"
    by (simp add: submit_def Let_def)
  then show ?thesis
    using edit_of_binary_writes_base64 [OF _ binary_form_def] by (auto split: option.split)
qed

end
