(* ===== verification/Js_Set.thy ===== *)
theory Js_Set
  imports Tuck_Prelude
begin

text \<open>
  \<open>Set\<close> of JavaScript as the pages use it for selections: a list without repetitions in insertion order. The locale
  \<open>selection\<close> states what the pages rely on, whatever the representation, and proves the laws of the two handlers that
  every page writes in the same way: toggling one element, and toggling all the elements that are shown.
\<close>

definition set_has :: "'a list \<Rightarrow> 'a \<Rightarrow> bool" where
  "set_has s x \<longleftrightarrow> x \<in> set s"

definition set_add :: "'a \<Rightarrow> 'a list \<Rightarrow> 'a list" where
  "set_add x s = (if x \<in> set s then s else s @ [x])"

definition set_delete :: "'a \<Rightarrow> 'a list \<Rightarrow> 'a list" where
  "set_delete x s = filter (\<lambda>y. y \<noteq> x) s"

locale selection =
  fixes has :: "'s \<Rightarrow> 'a \<Rightarrow> bool"
    and add :: "'a \<Rightarrow> 's \<Rightarrow> 's"
    and delete :: "'a \<Rightarrow> 's \<Rightarrow> 's"
    and wf :: "'s \<Rightarrow> bool"
  assumes has_add: "has (add x s) y \<longleftrightarrow> y = x \<or> has s y"
    and has_delete: "has (delete x s) y \<longleftrightarrow> y \<noteq> x \<and> has s y"
    and wf_add: "wf s \<Longrightarrow> wf (add x s)"
    and wf_delete: "wf s \<Longrightarrow> wf (delete x s)"
begin

text \<open>\<open>n.has(x) ? n.delete(x) : n.add(x)\<close>\<close>

definition toggled :: "'a \<Rightarrow> 's \<Rightarrow> 's" where
  "toggled x s = (if has s x then delete x s else add x s)"

text \<open>\<open>xs.forEach((x) => (every ? n.delete(x) : n.add(x)))\<close>\<close>

definition toggled_all :: "'a list \<Rightarrow> 's \<Rightarrow> 's" where
  "toggled_all xs s =
     (if xs \<noteq> [] \<and> list_all (has s) xs then fold delete xs s else fold add xs s)"

lemma has_toggled: "has (toggled x s) y \<longleftrightarrow> (if y = x then \<not> has s x else has s y)"
  by (simp add: toggled_def has_add has_delete)

lemma wf_toggled: "wf s \<Longrightarrow> wf (toggled x s)"
  by (simp add: toggled_def wf_add wf_delete)

lemma has_fold_add: "has (fold add xs s) y \<longleftrightarrow> y \<in> set xs \<or> has s y"
  by (induction xs arbitrary: s) (auto simp: has_add)

lemma has_fold_delete: "has (fold delete xs s) y \<longleftrightarrow> y \<notin> set xs \<and> has s y"
  by (induction xs arbitrary: s) (auto simp: has_delete)

lemma wf_fold: "wf s \<Longrightarrow> wf (fold add xs s)" "wf s \<Longrightarrow> wf (fold delete xs s)"
  by (induction xs arbitrary: s) (auto simp: wf_add wf_delete)

lemma wf_toggled_all: "wf s \<Longrightarrow> wf (toggled_all xs s)"
  by (simp add: toggled_all_def wf_fold)

text \<open>Toggling all leaves the elements that are not shown alone, and selects all or none of the shown ones.\<close>

lemma has_toggled_all:
  "has (toggled_all xs s) y \<longleftrightarrow> (if y \<in> set xs then \<not> (xs \<noteq> [] \<and> list_all (has s) xs) else has s y)"
  by (auto simp: toggled_all_def has_fold_add has_fold_delete)

end

interpretation jsset: selection set_has set_add set_delete distinct
  by unfold_locales (auto simp: set_has_def set_add_def set_delete_def)

text \<open>The two handlers on the sets of the pages.\<close>

definition set_toggle :: "'a \<Rightarrow> 'a list \<Rightarrow> 'a list" where
  "set_toggle x s = (if set_has s x then set_delete x s else set_add x s)"

definition set_toggle_all :: "'a list \<Rightarrow> 'a list \<Rightarrow> 'a list" where
  "set_toggle_all xs s =
     (if xs \<noteq> [] \<and> list_all (set_has s) xs then fold set_delete xs s else fold set_add xs s)"

lemma set_toggle_eq: "set_toggle = jsset.toggled" "set_toggle_all = jsset.toggled_all"
  by (auto simp: set_toggle_def set_toggle_all_def jsset.toggled_def jsset.toggled_all_def fun_eq_iff)

lemma set_toggle_laws:
  "set_has (set_toggle x s) y \<longleftrightarrow> (if y = x then \<not> set_has s x else set_has s y)"
  "set_has (set_toggle_all xs s) y \<longleftrightarrow> (if y \<in> set xs then \<not> list_all (set_has s) xs else set_has s y)"
  "distinct s \<Longrightarrow> distinct (set_toggle x s)" "distinct s \<Longrightarrow> distinct (set_toggle_all xs s)"
  by (auto simp: set_toggle_eq jsset.has_toggled jsset.has_toggled_all jsset.wf_toggled jsset.wf_toggled_all)

end
