(* ===== verification/Kv2_Page.thy ===== *)
theory Kv2_Page
  imports Kv2_Write Js_Set
begin

text \<open>
  The KV v2 page around the dialog: the list of one level, navigation, selection and bulk deletion of
  \<open>pages/dashboard/kv2/kv2.page.tsx\<close>, the retry rules of \<open>use-kv2.ts\<close>, and the reveal bookkeeping, version picking and
  metadata form of the drawer (\<open>secret-drawer.tsx\<close>, \<open>value-tab.tsx\<close>, \<open>diff-tab.tsx\<close>, \<open>versions-tab.tsx\<close>,
  \<open>meta-tab.tsx\<close>) with the key and value editor of the kit.

  \<open>lc\<close> is \<open>localeCompare\<close> of the browser. Times are milliseconds.
\<close>

section \<open>The list of a level\<close>

record kv2_entry =
  en_folder :: bool
  en_name :: jsstring
  en_path :: jsstring

datatype chip = ChipAll | ChipFolder | ChipSecret

definition mk_entry :: "jsstring \<Rightarrow> jsstring option \<Rightarrow> kv2_entry" where
  "mk_entry pfx name = (let n = nullish name [] in \<lparr>en_folder = ends_with n (js ''/''), en_name = n, en_path = pfx @ n\<rparr>)"

definition entry_cmp :: "(jsstring \<Rightarrow> jsstring \<Rightarrow> int) \<Rightarrow> kv2_entry \<Rightarrow> kv2_entry \<Rightarrow> int" where
  "entry_cmp lc a b = (if en_folder a = en_folder b then lc (en_name a) (en_name b) else if en_folder a then -1 else 1)"

definition all_entries :: "(jsstring \<Rightarrow> jsstring \<Rightarrow> int) \<Rightarrow> jsstring \<Rightarrow> jsstring option list option \<Rightarrow> kv2_entry list" where
  "all_entries lc pfx data = sort_by (entry_cmp lc) (map (mk_entry pfx) (nullish data []))"

datatype list_status = LLoading | LForbidden | LError | LReady

definition list_status_of :: "bool \<Rightarrow> failure option \<Rightarrow> list_status" where
  "list_status_of isPending err =
     (if isPending then LLoading
      else case err of Some e \<Rightarrow> if errStatus e = Some 403 then LForbidden else LError | None \<Rightarrow> LReady)"

definition shown_entries :: "chip \<Rightarrow> jsstring \<Rightarrow> kv2_entry list \<Rightarrow> kv2_entry list" where
  "shown_entries c flt es =
     (let q = lower (trim flt) in
      filter (\<lambda>e. (c = ChipAll \<or> (if c = ChipFolder then en_folder e else \<not> en_folder e)) \<and>
        (q = [] \<or> includes_str (lower (en_name e)) q)) es)"

definition folderSet :: "kv2_entry list \<Rightarrow> jsstring list" where
  "folderSet es = map en_path (filter en_folder es)"

text \<open>\<open>useKv2List\<close>: a missing level is an empty one; only an answer without a status is tried again, once.\<close>

definition list_result :: "failure + 'a list \<Rightarrow> failure + 'a list" where
  "list_result r = (case r of Inl e \<Rightarrow> if errStatus e = Some 404 then Inr [] else Inl e | Inr es \<Rightarrow> Inr es)"

definition list_retry :: "nat \<Rightarrow> failure \<Rightarrow> bool" where
  "list_retry n e \<longleftrightarrow> errStatus e = None \<and> n < 1"

section \<open>Navigation and selection\<close>

datatype slide = Back | Fwd

record kv2_page =
  pg_prefix :: jsstring
  pg_slide :: "slide option"
  pg_filter :: jsstring
  pg_chip :: chip
  pg_jump :: jsstring
  pg_selected :: "jsstring list"
  pg_drawer :: "jsstring option"
  pg_writeOpen :: bool
  pg_seed :: "edit_seed option"
  pg_flash :: "jsstring option"
  pg_bulkOpen :: bool

definition initial_page :: kv2_page where
  "initial_page = \<lparr>pg_prefix = [], pg_slide = None, pg_filter = [], pg_chip = ChipAll, pg_jump = [], pg_selected = [],
     pg_drawer = None, pg_writeOpen = False, pg_seed = None, pg_flash = None, pg_bulkOpen = False\<rparr>"

definition go :: "jsstring \<Rightarrow> slide \<Rightarrow> kv2_page \<Rightarrow> kv2_page" where
  "go next dir p = p\<lparr>pg_slide := Some dir, pg_prefix := next, pg_selected := [], pg_filter := [], pg_chip := ChipAll\<rparr>"

text \<open>\<open>prefix.split('/').filter(Boolean)\<close>\<close>

definition parts :: "jsstring \<Rightarrow> jsstring list" where
  "parts pfx = filter (\<lambda>w. w \<noteq> []) (split_on (jc CHR ''/'') pfx)"

definition folder_of :: "jsstring list \<Rightarrow> jsstring" where
  "folder_of ws = (if ws \<noteq> [] then join (js ''/'') ws @ js ''/'' else [])"

definition up :: "kv2_page \<Rightarrow> kv2_page" where
  "up p = (if pg_prefix p = [] then p else go (folder_of (butlast (parts (pg_prefix p)))) Back p)"

text \<open>The target of breadcrumb \<open>i\<close>; crumb 0 is the mount.\<close>

definition crumb_target :: "jsstring \<Rightarrow> nat \<Rightarrow> jsstring" where
  "crumb_target pfx i = (if i = 0 then [] else join (js ''/'') (take i (parts pfx)) @ js ''/'')"

text \<open>\<open>.replace(/^\/+/, '')\<close>, \<open>.replace(/\/+$/, '')\<close> and \<open>.replace(/^secret\//, '')\<close>.\<close>

definition strip_leading :: "jsstring \<Rightarrow> jsstring" where
  "strip_leading s = dropWhile (\<lambda>c. c = jc CHR ''/'') s"

definition strip_trailing :: "jsstring \<Rightarrow> jsstring" where
  "strip_trailing s = rev (dropWhile (\<lambda>c. c = jc CHR ''/'') (rev s))"

definition strip_mount :: "jsstring \<Rightarrow> jsstring" where
  "strip_mount s = (if starts_with s (js ''secret/'') then drop 7 s else s)"

definition jump_target :: "jsstring \<Rightarrow> jsstring" where
  "jump_target j = (let v = strip_mount (strip_leading (trim j)) in if v \<noteq> [] then strip_trailing v @ js ''/'' else [])"

definition doJump :: "kv2_page \<Rightarrow> kv2_page" where
  "doJump p = (go (jump_target (pg_jump p)) Fwd p)\<lparr>pg_jump := []\<rparr>"

definition openWrite :: "edit_seed option \<Rightarrow> kv2_page \<Rightarrow> kv2_page" where
  "openWrite s p = p\<lparr>pg_seed := s, pg_writeOpen := True\<rparr>"

definition toggle :: "jsstring \<Rightarrow> kv2_page \<Rightarrow> kv2_page" where
  "toggle path p = p\<lparr>pg_selected := set_toggle path (pg_selected p)\<rparr>"

definition toggleAll :: "kv2_entry list \<Rightarrow> kv2_page \<Rightarrow> kv2_page" where
  "toggleAll es p =
     p\<lparr>pg_selected := set_toggle_all (map en_path (filter (\<lambda>e. \<not> en_folder e) (shown_entries (pg_chip p) (pg_filter p) es)))
       (pg_selected p)\<rparr>"

definition onSaved :: "jsstring \<Rightarrow> kv2_page \<Rightarrow> kv2_page" where
  "onSaved path p =
     (if starts_with path (pg_prefix p) \<and> \<not> includes_str (drop (length (pg_prefix p)) path) (js ''/'')
      then p\<lparr>pg_flash := Some path\<rparr> else p)"

definition overlayOpen :: "kv2_page \<Rightarrow> bool" where
  "overlayOpen p \<longleftrightarrow> pg_writeOpen p \<or> pg_bulkOpen p \<or> pg_drawer p \<noteq> None"

text \<open>The keys of the page; focusing the filter does not change the state.\<close>

definition onKey :: "bool \<Rightarrow> bool \<Rightarrow> jsstring \<Rightarrow> kv2_page \<Rightarrow> kv2_page" where
  "onKey modifier typing key p =
     (if modifier \<or> overlayOpen p \<or> typing then p
      else if key = js ''/'' then p
      else if key = js ''n'' then openWrite None p
      else if key = js ''Backspace'' \<and> pg_prefix p \<noteq> [] then up p else p)"

text \<open>
  \<open>bulkDelete\<close>: one secret after the other, its metadata and then the deletion of its current version. \<open>meta\<close> and
  \<open>del\<close> are the answers of the server. The result holds the requests in order, the two counters and the
  path of the one failure that is reported.
\<close>

record bulk_run =
  bk_requests :: "request list"
  bk_ok :: nat
  bk_failed :: nat
  bk_toast :: "jsstring option"

definition bulk_fail :: "jsstring \<Rightarrow> bulk_run \<Rightarrow> bulk_run" where
  "bulk_fail path b = b\<lparr>bk_failed := bk_failed b + 1, bk_toast := (if bk_failed b = 0 then Some path else bk_toast b)\<rparr>"

definition bulk_one ::
  "(jsstring \<Rightarrow> failure + nat option) \<Rightarrow> (jsstring \<Rightarrow> nat \<Rightarrow> bool) \<Rightarrow> jsstring \<Rightarrow> bulk_run \<Rightarrow> bulk_run" where
  "bulk_one meta del path b =
     (let b1 = b\<lparr>bk_requests := bk_requests b @ [getKVv2Meta path]\<rparr> in
      case meta path of
        Inr (Some v) \<Rightarrow>
          (if v = 0 then bulk_fail path b1
           else let b2 = b1\<lparr>bk_requests := bk_requests b1 @ [softDeleteKVv2 path [v]]\<rparr>
                in if del path v then b2\<lparr>bk_ok := bk_ok b2 + 1\<rparr> else bulk_fail path b2)
      | _ \<Rightarrow> bulk_fail path b1)"

definition bulkDelete ::
  "(jsstring \<Rightarrow> failure + nat option) \<Rightarrow> (jsstring \<Rightarrow> nat \<Rightarrow> bool) \<Rightarrow> kv2_page \<Rightarrow> bulk_run \<times> kv2_page" where
  "bulkDelete meta del p =
     (fold (bulk_one meta del) (pg_selected p) \<lparr>bk_requests = [], bk_ok = 0, bk_failed = 0, bk_toast = None\<rparr>,
      p\<lparr>pg_selected := [], pg_bulkOpen := False\<rparr>)"

section \<open>The drawer\<close>

definition TTL_MS :: int where "TTL_MS = 30000"

datatype drawer_tab = TabValue | TabVersions | TabDiff | TabMeta

definition TEXT_KEY :: jsstring where "TEXT_KEY = js ''__text__''"

definition revealKeys :: "parsed_value option \<Rightarrow> jsstring list" where
  "revealKeys parsed = (case parsed of None \<Rightarrow> [] | Some (Pairs ps) \<Rightarrow> map fst ps | Some (Plain _) \<Rightarrow> [TEXT_KEY])"

definition shown_value :: "kv_response option \<Rightarrow> parsed_value option" where
  "shown_value resp = (case resp of None \<Rightarrow> None | Some r \<Rightarrow> (case kr_value r of None \<Rightarrow> None
     | Some v \<Rightarrow> if kr_encoding r = Some (js ''base64'') then Some (Plain v) else Some (parseValue v)))"

definition current_version :: "nat option \<Rightarrow> ver_row list \<Rightarrow> nat" where
  "current_version cv rows = nullish cv (if rows = [] then 0 else vr_version (last rows))"

record drawer =
  dr_tab :: drawer_tab
  dr_view :: "nat option"
  dr_rev :: "jsstring list"
  dr_end :: int
  dr_left :: int

definition hideAll :: "drawer \<Rightarrow> drawer" where
  "hideAll d = d\<lparr>dr_rev := [], dr_left := TTL_MS\<rparr>"

definition restart :: "int \<Rightarrow> drawer \<Rightarrow> drawer" where
  "restart now d = d\<lparr>dr_end := now + TTL_MS, dr_left := TTL_MS\<rparr>"

definition toggleKey :: "int \<Rightarrow> jsstring \<Rightarrow> drawer \<Rightarrow> drawer" where
  "toggleKey now k d = restart now (d\<lparr>dr_rev := set_toggle k (dr_rev d)\<rparr>)"

definition toggleAllKeys :: "int \<Rightarrow> jsstring list \<Rightarrow> drawer \<Rightarrow> drawer" where
  "toggleAllKeys now keys d =
     (if keys \<noteq> [] \<and> list_all (set_has (dr_rev d)) keys then hideAll d
      else restart now (d\<lparr>dr_rev := fold set_add keys []\<rparr>))"

text \<open>The interval runs every 250 ms while something is revealed.\<close>

definition tick :: "int \<Rightarrow> drawer \<Rightarrow> drawer" where
  "tick now d =
     (if dr_rev d = [] then d
      else if dr_end d - now \<le> 0 then hideAll d else d\<lparr>dr_left := dr_end d - now\<rparr>)"

definition readVersion :: "nat \<Rightarrow> nat \<Rightarrow> drawer \<Rightarrow> drawer" where
  "readVersion current v d = (hideAll (d\<lparr>dr_view := (if v = current then None else Some v)\<rparr>))\<lparr>dr_tab := TabValue\<rparr>"

definition backToCurrent :: "drawer \<Rightarrow> drawer" where
  "backToCurrent d = hideAll (d\<lparr>dr_view := None\<rparr>)"

datatype pending_kind = PSoft | PDestroy

text \<open>\<open>confirmAct\<close> after a successful call; destroying the version in view leaves it and hides everything.\<close>

definition confirmAct_request :: "jsstring \<Rightarrow> pending_kind \<Rightarrow> nat \<Rightarrow> request" where
  "confirmAct_request path kind v = (case kind of PSoft \<Rightarrow> softDeleteKVv2 path [v] | PDestroy \<Rightarrow> destroyKVv2 path [v])"

definition confirmAct_done :: "pending_kind \<Rightarrow> nat \<Rightarrow> drawer \<Rightarrow> drawer" where
  "confirmAct_done kind v d = (case kind of PSoft \<Rightarrow> d
     | PDestroy \<Rightarrow> hideAll (if dr_view d = Some v then d\<lparr>dr_view := None\<rparr> else d))"

text \<open>The pair of versions that the diff tab compares.\<close>

definition diff_pair :: "ver_row list \<Rightarrow> nat option \<Rightarrow> nat option \<Rightarrow> (nat \<times> nat) option" where
  "diff_pair rows a b =
     (let ok = map vr_version (filter (\<lambda>r. vr_state r = VActive) rows) in
      case (a, b) of
        (Some x, Some y) \<Rightarrow>
          if x \<noteq> y \<and> x \<in> set ok \<and> y \<in> set ok then Some (x, y)
          else if 2 \<le> length ok then Some (ok ! (length ok - 2), ok ! (length ok - 1)) else None
      | _ \<Rightarrow> if 2 \<le> length ok then Some (ok ! (length ok - 2), ok ! (length ok - 1)) else None)"

definition evicted :: "nat option \<Rightarrow> nat" where
  "evicted oldest = (case oldest of Some n \<Rightarrow> if 1 < n then n - 1 else 0 | None \<Rightarrow> 0)"

section \<open>Key and value editor\<close>

type_synonym kv_pair = "jsstring \<times> jsstring"

datatype kv_issue = BadKey | Duplicate | NoKey

definition KV_KEY_PATTERN :: re where
  "KV_KEY_PATTERN = anchored (Seq (Cls (\<lambda>c. in_range CHR ''A'' CHR ''Z'' c \<or> in_range CHR ''a'' CHR ''z'' c \<or> c = jc CHR ''_''))
     (Star (Cls (\<lambda>c. in_range CHR ''A'' CHR ''Z'' c \<or> in_range CHR ''a'' CHR ''z'' c \<or> is_digit c \<or> one_of ''_.-'' c))))"

definition kv_check :: "re \<Rightarrow> nat \<times> kv_pair \<Rightarrow> jsstring list \<times> (nat \<times> kv_issue) list \<Rightarrow> jsstring list \<times> (nat \<times> kv_issue) list" where
  "kv_check pat ip st = (case ip of (i, k, v) \<Rightarrow> case st of (seen, issues) \<Rightarrow>
     let key = trim k in
     if key = [] \<and> v = [] then (seen, issues)
     else (key # seen,
       if key = [] then issues @ [(i, NoKey)]
       else if \<not> test pat key then issues @ [(i, BadKey)]
       else if key \<in> set seen then issues @ [(i, Duplicate)] else issues))"

record kv_validation =
  kvv_issues :: "(nat \<times> kv_issue) list"
  kvv_problem :: "kv_issue option"
  kvv_valid :: bool

definition validateKv :: "re \<Rightarrow> kv_pair list \<Rightarrow> kv_validation" where
  "validateKv pat pairs =
     (let issues = snd (fold (kv_check pat) (enumerate 0 pairs) ([], []));
          problem = find (\<lambda>k. k \<in> set (map snd issues)) [Duplicate, BadKey, NoKey]
      in \<lparr>kvv_issues = issues, kvv_problem = problem, kvv_valid = (problem = None)\<rparr>)"

definition kv_patch :: "nat \<Rightarrow> (kv_pair \<Rightarrow> kv_pair) \<Rightarrow> kv_pair list \<Rightarrow> kv_pair list" where
  "kv_patch i f pairs = map (\<lambda>(n, p). if n = i then f p else p) (enumerate 0 pairs)"

definition kv_add :: "kv_pair list \<Rightarrow> kv_pair list" where
  "kv_add pairs = pairs @ [([], [])]"

definition kv_remove :: "nat \<Rightarrow> kv_pair list \<Rightarrow> kv_pair list" where
  "kv_remove i pairs = map snd (filter (\<lambda>(n, p). n \<noteq> i) (enumerate 0 pairs))"

section \<open>Metadata tab\<close>

definition META_KEY_RE :: re where
  "META_KEY_RE = anchored (Plus (Cls (\<lambda>c. \<not> is_line_terminator c)))"

definition LIMIT_customKey :: nat where "LIMIT_customKey = 128"
definition LIMIT_customValue :: nat where "LIMIT_customValue = 512"
definition LIMIT_maxVersions :: int where "LIMIT_maxVersions = 1000"

definition bytes :: "jsstring \<Rightarrow> nat" where
  "bytes s = length (text_encode s)"

definition stored_pairs :: "(jsstring \<Rightarrow> jsstring \<Rightarrow> int) \<Rightarrow> jsstring jsobj option \<Rightarrow> kv_pair list" where
  "stored_pairs lc custom = sort_by (\<lambda>a b. lc (fst a) (fst b)) (entries (nullish custom []))"

definition filled_pairs :: "kv_pair list \<Rightarrow> kv_pair list" where
  "filled_pairs ps = filter (\<lambda>(k, v). trim k \<noteq> [] \<or> v \<noteq> []) ps"

definition tooLong :: "kv_pair list \<Rightarrow> bool" where
  "tooLong ps = list_ex (\<lambda>(k, v). LIMIT_customKey < bytes (trim k) \<or> LIMIT_customValue < bytes v) ps"

definition customOk :: "kv_pair list \<Rightarrow> bool" where
  "customOk ps \<longleftrightarrow> kvv_valid (validateKv META_KEY_RE ps) \<and> \<not> tooLong ps"

definition normalized :: "kv_pair list \<Rightarrow> jsstring" where
  "normalized ps = stringify (\<lambda>x. x) (JArr (map (\<lambda>(k, v). JArr [JStr (trim k), JStr v]) (filled_pairs ps)))"

definition customDirty :: "kv_pair list \<Rightarrow> kv_pair list \<Rightarrow> bool" where
  "customDirty ps stored \<longleftrightarrow> normalized ps \<noteq> normalized stored"

definition saveCustom_map :: "kv_pair list \<Rightarrow> jsstring jsobj" where
  "saveCustom_map ps = fold (\<lambda>(k, v). obj_assign (trim k) v) (filled_pairs ps) []"

definition saveCustom_request :: "jsstring \<Rightarrow> kv_pair list \<Rightarrow> request" where
  "saveCustom_request path ps =
     putMetadata path (obj_lit [(''custom_metadata'', Some (JObj (map (\<lambda>(k, v). (k, JStr v)) (saveCustom_map ps))))])"

text \<open>The stepper of \<open>max_versions\<close>.\<close>

definition fewer_versions :: "int \<Rightarrow> int" where "fewer_versions n = max 0 (n - 1)"

definition more_versions :: "int \<Rightarrow> int" where "more_versions n = min LIMIT_maxVersions (n + 1)"

section \<open>Where the page can be\<close>

datatype page_op =
    OpenFolder jsstring | Up | Crumb nat | TypeJump jsstring | Jump | Toggle jsstring | ToggleAll | ClearSelection
  | TypeFilter jsstring | SetChip chip | Key bool bool jsstring | Saved jsstring | OpenSecret jsstring
  | BulkDelete "jsstring \<Rightarrow> failure + nat option" "jsstring \<Rightarrow> nat \<Rightarrow> bool"

text \<open>\<open>ls\<close> is what the server lists for a prefix; rows of the list are the only source of paths.\<close>

definition rows_of :: "(jsstring \<Rightarrow> jsstring \<Rightarrow> int) \<Rightarrow> (jsstring \<Rightarrow> jsstring option list option) \<Rightarrow> kv2_page \<Rightarrow> kv2_entry list" where
  "rows_of lc ls p = all_entries lc (pg_prefix p) (ls (pg_prefix p))"

fun page_enabled :: "kv2_entry list \<Rightarrow> kv2_page \<Rightarrow> page_op \<Rightarrow> bool" where
  "page_enabled es p (OpenFolder path) = (path \<in> set (folderSet es))"
| "page_enabled es p (Crumb i) = (i < length (parts (pg_prefix p)))"
| "page_enabled es p (Toggle path) = (path \<in> set (map en_path (filter (\<lambda>e. \<not> en_folder e) es)))"
| "page_enabled es p _ = True"

fun page_step :: "kv2_entry list \<Rightarrow> page_op \<Rightarrow> kv2_page \<Rightarrow> kv2_page" where
  "page_step es (OpenFolder path) p = go path Fwd p"
| "page_step es Up p = up p"
| "page_step es (Crumb i) p = go (crumb_target (pg_prefix p) i) Back p"
| "page_step es (TypeJump s) p = p\<lparr>pg_jump := s\<rparr>"
| "page_step es Jump p = doJump p"
| "page_step es (Toggle path) p = toggle path p"
| "page_step es ToggleAll p = toggleAll es p"
| "page_step es ClearSelection p = p\<lparr>pg_selected := []\<rparr>"
| "page_step es (TypeFilter s) p = p\<lparr>pg_filter := s\<rparr>"
| "page_step es (SetChip c) p = p\<lparr>pg_chip := c\<rparr>"
| "page_step es (Key m t k) p = onKey m t k p"
| "page_step es (Saved path) p = onSaved path p"
| "page_step es (OpenSecret path) p = p\<lparr>pg_drawer := Some path\<rparr>"
| "page_step es (BulkDelete meta del) p = snd (bulkDelete meta del p)"

inductive page_reach :: "(jsstring \<Rightarrow> jsstring \<Rightarrow> int) \<Rightarrow> (jsstring \<Rightarrow> jsstring option list option) \<Rightarrow> kv2_page \<Rightarrow> bool"
  for lc ls where
  start: "page_reach lc ls initial_page"
| move: "page_reach lc ls p \<Longrightarrow> page_enabled (rows_of lc ls p) p op \<Longrightarrow> page_reach lc ls (page_step (rows_of lc ls p) op p)"

definition is_level :: "jsstring \<Rightarrow> bool" where
  "is_level pfx \<longleftrightarrow> pfx = [] \<or> ends_with pfx (js ''/'')"

text \<open>A path of a secret at the level \<open>pfx\<close>.\<close>

definition secret_at :: "jsstring \<Rightarrow> jsstring \<Rightarrow> bool" where
  "secret_at pfx path \<longleftrightarrow> (\<exists>n. path = pfx @ n \<and> \<not> ends_with n (js ''/''))"

definition page_ok :: "kv2_page \<Rightarrow> bool" where
  "page_ok p \<longleftrightarrow> is_level (pg_prefix p) \<and> distinct (pg_selected p) \<and> list_all (secret_at (pg_prefix p)) (pg_selected p)"

lemma is_level_slash: "is_level (w @ js ''/'')"
  by (auto simp: is_level_def ends_with_iff)

lemma is_level_targets: "is_level (folder_of ws)" "is_level (crumb_target pfx i)" "is_level (jump_target j)"
  unfolding folder_of_def crumb_target_def jump_target_def
  by (auto simp: is_level_slash Let_def simp del: js_simps) (simp_all add: is_level_def)

lemma entry_paths:
  "e \<in> set (all_entries lc pfx data) \<Longrightarrow> en_path e = pfx @ en_name e \<and> (en_folder e \<longleftrightarrow> ends_with (en_name e) (js ''/''))"
  by (auto simp: all_entries_def mk_entry_def Let_def)

lemma folder_is_level: "path \<in> set (folderSet (all_entries lc pfx data)) \<Longrightarrow> is_level path"
  using entry_paths by (fastforce simp: folderSet_def is_level_def ends_with_iff simp del: js_simps)

lemma secrets_at:
  "list_all (secret_at pfx) (map en_path (filter (\<lambda>e. \<not> en_folder e) (shown_entries c f (all_entries lc pfx data))))"
  "path \<in> set (map en_path (filter (\<lambda>e. \<not> en_folder e) (all_entries lc pfx data))) \<Longrightarrow> secret_at pfx path"
  by (auto simp: list_all_iff shown_entries_def secret_at_def Let_def simp del: js_simps dest!: entry_paths)

lemma toggle_subset: "set (set_toggle x s) \<subseteq> insert x (set s)" "set (set_toggle_all xs s) \<subseteq> set xs \<union> set s"
  using set_toggle_laws(1) [of x s] set_toggle_laws(2) [of xs s] by (auto simp: set_has_def split: if_splits)

lemma page_ok_go: "is_level pfx \<Longrightarrow> page_ok (go pfx d p)"
  by (simp add: page_ok_def go_def)

lemma page_ok_step:
  assumes ok: "page_ok p" and en: "page_enabled (rows_of lc ls p) p op"
  shows "page_ok (page_step (rows_of lc ls p) op p)"
proof (cases op)
  case (Toggle path)
  then have "secret_at (pg_prefix p) path"
    using en secrets_at(2) by (auto simp: rows_of_def)
  with ok Toggle toggle_subset(1) [of path "pg_selected p"] show ?thesis
    by (auto simp: page_ok_def toggle_def set_toggle_laws list_all_iff)
next
  case ToggleAll
  with ok secrets_at(1) toggle_subset(2) show ?thesis
    by (fastforce simp: page_ok_def toggleAll_def set_toggle_laws list_all_iff rows_of_def)
next
  case (OpenFolder path)
  with en show ?thesis
    by (auto simp: rows_of_def intro: page_ok_go folder_is_level)
next
  case Jump
  have "page_ok (q\<lparr>pg_jump := j\<rparr>) \<longleftrightarrow> page_ok q" for q j
    by (simp add: page_ok_def)
  with Jump show ?thesis
    by (simp add: doJump_def page_ok_go is_level_targets)
qed (use ok in \<open>auto simp: page_ok_go is_level_targets up_def onKey_def openWrite_def onSaved_def bulkDelete_def
      intro: page_ok_go simp: page_ok_def [of "_\<lparr>pg_filter := _\<rparr>"]\<close>, auto simp: page_ok_def)

text \<open>
  C25: wherever the user navigates, the prefix of the list is empty or ends with a slash, so the query of a level never
  shares its key with the query of the totals; and the selection holds paths of secrets of the level in view, each
  once, so a bulk deletion never touches another level or a folder.
\<close>
theorem page_prefix_and_selection:
  assumes "page_reach lc ls p"
  shows "(pg_prefix p = [] \<or> ends_with (pg_prefix p) (js ''/'')) \<and> pg_prefix p \<noteq> js ''totals'' \<and>
    distinct (pg_selected p) \<and>
    list_all (\<lambda>path. \<exists>n. path = pg_prefix p @ n \<and> \<not> ends_with n (js ''/'')) (pg_selected p)"
proof -
  have "page_ok initial_page"
    by (simp add: initial_page_def page_ok_def is_level_def)
  with assms have "page_ok p"
    by (induction rule: page_reach.induct) (simp_all add: page_ok_step)
  moreover have "\<not> ends_with (js ''totals'') (js ''/'')"
    by (simp add: ends_with_def)
  ultimately show ?thesis
    by (auto simp: page_ok_def is_level_def secret_at_def [abs_def] simp del: js_simps) simp
qed

theorem page_prefix_and_selection_witness:
  "let p = page_step [] Jump (page_step [] (TypeJump (js ''/secret/app//'')) initial_page) in pg_prefix p = js ''app/'' \<and>
     (pg_prefix p = [] \<or> ends_with (pg_prefix p) (js ''/''))"
proof -
  let ?lc = "\<lambda>_ _. 0" and ?ls = "\<lambda>_. None"
  let ?p = "page_step [] (TypeJump (js ''/secret/app//'')) initial_page"
  have r: "rows_of ?lc ?ls q = []" for q
    by (simp add: rows_of_def all_entries_def)
  have 1: "page_reach ?lc ?ls ?p"
    using page_reach.move [OF page_reach.start, where op = "TypeJump (js ''/secret/app//'')"] r by (metis page_enabled.simps(5))
  have "page_reach ?lc ?ls (page_step [] Jump ?p)"
    using page_reach.move [OF 1, where op = Jump] r by simp
  moreover have "pg_prefix (page_step [] Jump ?p) = js ''app/''"
    by (simp add: doJump_def go_def jump_target_def strip_mount_def strip_leading_def strip_trailing_def trim_def
        trim_start_def trim_end_def is_ws_def)
  ultimately show ?thesis
    using page_prefix_and_selection [of ?lc ?ls "page_step [] Jump ?p"] by (simp add: Let_def)
qed

section \<open>Bulk deletion\<close>

text \<open>A path for which the deletion is attempted, and one for which it succeeds.\<close>

definition deletable :: "(jsstring \<Rightarrow> failure + nat option) \<Rightarrow> jsstring \<Rightarrow> bool" where
  "deletable meta path \<longleftrightarrow> (case meta path of Inr (Some v) \<Rightarrow> v \<noteq> 0 | _ \<Rightarrow> False)"

definition version_of :: "(jsstring \<Rightarrow> failure + nat option) \<Rightarrow> jsstring \<Rightarrow> nat" where
  "version_of meta path = (case meta path of Inr (Some v) \<Rightarrow> v | _ \<Rightarrow> 0)"

lemma bulk_one_parts:
  "bk_requests (bulk_one meta del path b) = bk_requests b @ getKVv2Meta path #
     (if deletable meta path then [softDeleteKVv2 path [version_of meta path]] else [])"
  "bk_ok (bulk_one meta del path b) = bk_ok b + (if deletable meta path \<and> del path (version_of meta path) then 1 else 0)"
  "bk_failed (bulk_one meta del path b) = bk_failed b + (if deletable meta path \<and> del path (version_of meta path) then 0 else 1)"
  by (auto simp: bulk_one_def bulk_fail_def deletable_def version_of_def Let_def split: sum.split option.split)

lemma bulk_counts:
  "bk_ok (fold (bulk_one meta del) ps b) = bk_ok b + length (filter (\<lambda>x. deletable meta x \<and> del x (version_of meta x)) ps)"
  "bk_ok (fold (bulk_one meta del) ps b) + bk_failed (fold (bulk_one meta del) ps b) = bk_ok b + bk_failed b + length ps"
  by (induction ps arbitrary: b) (simp_all add: bulk_one_parts)

lemma bulk_requests:
  "bk_requests (fold (bulk_one meta del) ps b) = bk_requests b @ concat (map (\<lambda>x. getKVv2Meta x #
     (if deletable meta x then [softDeleteKVv2 x [version_of meta x]] else [])) ps)"
  by (induction ps arbitrary: b) (simp_all add: bulk_one_parts)

section \<open>Revealed values hide again\<close>

datatype drawer_op = RevealKey jsstring | RevealAll "jsstring list" | Tick | ReadVersion nat nat | BackToCurrent
  | ActDone pending_kind nat | SetTab drawer_tab

fun drawer_step :: "int \<times> drawer_op \<Rightarrow> drawer \<Rightarrow> drawer" where
  "drawer_step (now, RevealKey k) d = toggleKey now k d"
| "drawer_step (now, RevealAll ks) d = toggleAllKeys now ks d"
| "drawer_step (now, Tick) d = tick now d"
| "drawer_step (now, ReadVersion c v) d = readVersion c v d"
| "drawer_step (now, BackToCurrent) d = backToCurrent d"
| "drawer_step (now, ActDone k v) d = confirmAct_done k v d"
| "drawer_step (now, SetTab t) d = d\<lparr>dr_tab := t\<rparr>"

fun is_reveal :: "drawer_op \<Rightarrow> bool" where
  "is_reveal (RevealKey _) = True" | "is_reveal (RevealAll _) = True" | "is_reveal _ = False"

lemma drawer_step_end:
  assumes "dr_rev d = [] \<or> dr_end d \<le> t" "is_reveal (snd e) \<longrightarrow> fst e + TTL_MS \<le> t"
  shows "dr_rev (drawer_step e d) = [] \<or> dr_end (drawer_step e d) \<le> t"
  using assms
  by (cases e; cases "snd e")
     (auto simp: toggleKey_def toggleAllKeys_def tick_def readVersion_def backToCurrent_def confirmAct_done_def hideAll_def
        restart_def split: pending_kind.splits)


definition closed_drawer :: drawer where
  "closed_drawer = \<lparr>dr_tab = TabValue, dr_view = None, dr_rev = [], dr_end = 0, dr_left = TTL_MS\<rparr>"


section \<open>Custom metadata\<close>

lemma kv_check_issues_mono: "set (snd st) \<subseteq> set (snd (kv_check pat ip st))"
  by (auto simp: kv_check_def Let_def split: prod.split)

lemma kv_fold_issues_mono: "set (snd st) \<subseteq> set (snd (fold (kv_check pat) ips st))"
proof (induction ips arbitrary: st)
  case (Cons ip ips)
  have "set (snd st) \<subseteq> set (snd (kv_check pat ip st))"
    by (rule kv_check_issues_mono)
  also have "\<dots> \<subseteq> set (snd (fold (kv_check pat) ips (kv_check pat ip st)))"
    by (rule Cons.IH)
  finally show ?case by simp
qed simp

lemma kv_fold_fine:
  "snd (fold (kv_check pat) (enumerate n ps) (seen, [])) = [] \<Longrightarrow>
     list_all (\<lambda>(k, v). test pat (trim k)) (filled_pairs ps) \<and> distinct (map (\<lambda>p. trim (fst p)) (filled_pairs ps)) \<and>
     set (map (\<lambda>p. trim (fst p)) (filled_pairs ps)) \<inter> set seen = {}"
proof (induction ps arbitrary: n seen)
  case (Cons p ps)
  obtain k v where p: "p = (k, v)" by (cases p)
  let ?st = "kv_check pat (n, k, v) (seen, [])"
  have "snd ?st = []"
    using Cons.prems kv_fold_issues_mono [of ?st pat "enumerate (Suc n) ps"] p by simp
  then have st: "?st = (if trim k = [] \<and> v = [] then seen else trim k # seen, [])"
    and k: "trim k = [] \<and> v = [] \<or> test pat (trim k) \<and> trim k \<notin> set seen"
    by (auto simp: kv_check_def Let_def split: if_splits)
  have f: "filled_pairs (p # ps) = (if trim k = [] \<and> v = [] then filled_pairs ps else (k, v) # filled_pairs ps)"
    by (simp add: filled_pairs_def p)
  have "snd (fold (kv_check pat) (enumerate (Suc n) ps) (if trim k = [] \<and> v = [] then seen else trim k # seen, [])) = []"
    using Cons.prems p st by simp
  note ih = Cons.IH [OF this]
  show ?case
  proof (cases "trim k = [] \<and> v = []")
    case True
    with ih f show ?thesis by simp
  next
    case False
    with ih f k show ?thesis by auto
  qed
qed (simp add: filled_pairs_def)

lemma validateKv_valid:
  assumes "kvv_valid (validateKv pat ps)"
  shows "list_all (\<lambda>(k, v). test pat (trim k)) (filled_pairs ps) \<and> distinct (map (\<lambda>p. trim (fst p)) (filled_pairs ps))"
proof -
  let ?is = "snd (fold (kv_check pat) (enumerate 0 ps) ([], []))"
  have "find (\<lambda>k. k \<in> set (map snd ?is)) [Duplicate, BadKey, NoKey] = None"
    using assms by (simp add: validateKv_def Let_def)
  then have "k \<notin> snd ` set ?is" for k
    by (cases k) (auto split: if_splits)
  then have "?is = []"
    by (metis image_eqI list.set_sel(1))
  then show ?thesis
    using kv_fold_fine [of pat 0 ps "[]"] by simp
qed

text \<open>What the editor shows is what gets stored, as the comment in the drawer says, up to the key \<open>__proto__\<close>.\<close>

lemma saveCustom_stores_shown:
  assumes "customOk ps" "js ''__proto__'' \<notin> set (map (\<lambda>p. trim (fst p)) (filled_pairs ps))"
  shows "saveCustom_map ps = map (\<lambda>(k, v). (trim k, v)) (filled_pairs ps)"
  using assms validateKv_valid [of META_KEY_RE ps] pairs_obj_fresh [of "filled_pairs ps"]
  by (simp add: customOk_def saveCustom_map_def pairs_obj_def del: js_simps)

lemma stepper_bounds:
  "0 \<le> n \<Longrightarrow> n \<le> LIMIT_maxVersions \<Longrightarrow> 0 \<le> fewer_versions n \<and> fewer_versions n \<le> LIMIT_maxVersions \<and>
     0 \<le> more_versions n \<and> more_versions n \<le> LIMIT_maxVersions"
  by (simp add: fewer_versions_def more_versions_def LIMIT_maxVersions_def)

end
