(* ===== verification/Session_Run.thy ===== *)
theory Session_Run
  imports Session_Auth
begin

text \<open>
  The properties of the session machine of \<open>Session_Auth\<close>. \<open>session_inv\<close> is its invariant, preserved by every handler
  and by the render that follows, hence true of every state of \<open>reach\<close>: what is stored when the console is
  authenticated was accepted by lookup-self, and a suspended sign-in has the page and the location it will
  continue on. The last section puts the console beside the token check of the server.
\<close>

section \<open>The invariant of the session\<close>

definition carries :: "console \<Rightarrow> request \<Rightarrow> bool" where
  "carries c r \<longleftrightarrow> (\<forall>t. getToken c = Some t \<longrightarrow> t \<noteq> [] \<longrightarrow> get_header X_Tuck_Token r = Some t)"

definition page_phase :: "console \<Rightarrow> login_phase \<Rightarrow> bool" where
  "page_phase c ph \<longleftrightarrow> pathname c = AUTH_LOGIN \<and> (case login c of Some p \<Rightarrow> phase p = ph | None \<Rightarrow> False)"

definition page_at_rest :: "console \<Rightarrow> bool" where
  "page_at_rest c \<longleftrightarrow> isAuthenticated c \<or> (case login c of Some p \<Rightarrow> \<not> busy p \<or> assigned c \<noteq> None | None \<Rightarrow> True)"

definition signing_in :: "console \<Rightarrow> bool" where
  "signing_in c \<longleftrightarrow> isInitialized c \<and> \<not> isAuthenticated c"

fun task_ok :: "console \<Rightarrow> task \<Rightarrow> bool" where
  "task_ok c NoTask \<longleftrightarrow> isInitialized c \<and> page_at_rest c"
| "task_ok c (AwaitBoot r) \<longleftrightarrow> \<not> isInitialized c \<and> \<not> isAuthenticated c \<and> login c = None \<and> carries c r"
| "task_ok c (AwaitLdap r) \<longleftrightarrow> signing_in c \<and> page_phase c Busy"
| "task_ok c (AwaitLookup l r) \<longleftrightarrow> signing_in c \<and> page_phase c Busy \<and> carries c r"
| "task_ok c AwaitDoor \<longleftrightarrow> signing_in c \<and>
     (page_phase c Accepted \<or> pathname c = AUTH_OIDC_CALLBACK \<and> login c = None)"
| "task_ok c (AwaitSso r) \<longleftrightarrow> signing_in c \<and> page_phase c Busy"
| "task_ok c (AwaitExchange r) \<longleftrightarrow> signing_in c \<and> pathname c = AUTH_OIDC_CALLBACK \<and> login c = None"
| "task_ok c (AwaitOidcLookup r) \<longleftrightarrow>
     signing_in c \<and> pathname c = AUTH_OIDC_CALLBACK \<and> login c = None \<and> carries c r"

definition verified :: "request list \<Rightarrow> console \<Rightarrow> bool" where
  "verified log c \<longleftrightarrow> (isAuthenticated c \<or> task c = AwaitDoor \<longrightarrow>
     (\<forall>t. getToken c = Some t \<longrightarrow> t \<noteq> [] \<longrightarrow> (\<exists>r\<in>set log. get_header X_Tuck_Token r = Some t)))"

definition handler_inv :: "console \<Rightarrow> request list \<Rightarrow> bool" where
  "handler_inv c log \<longleftrightarrow>
     LogoutUser \<in> set (listeners c) \<and> pathname c \<in> set router \<and> task_ok c (task c) \<and> verified log c"

definition session_inv :: "console \<Rightarrow> request list \<Rightarrow> bool" where
  "session_inv c log \<longleftrightarrow> handler_inv c log \<and> (login c \<noteq> None \<longrightarrow> login_rendered c) \<and> (\<forall>p. rendered c \<noteq> Navigate p)"

lemma landing_router: "pathname c \<in> set router \<Longrightarrow> landing c \<in> set router"
proof -
  have "AUTH_LOGIN \<in> set router" "DASHBOARD_STATUS \<in> set router"
    by (simp_all add: router_def dashboard_routes_def DASHBOARD_STATUS_def del: js_simps)
  then show "pathname c \<in> set router \<Longrightarrow> landing c \<in> set router"
    by (auto simp: landing_def rendered_def AuthGuard_def split: view.split if_splits)
qed

lemma landing_sign_in:
  "signing_in c \<Longrightarrow> pathname c = AUTH_LOGIN \<or> pathname c = AUTH_OIDC_CALLBACK \<Longrightarrow> landing c = pathname c"
  by (auto simp: landing_def rendered_def AuthGuard_def signing_in_def AUTH_LOGIN_def AUTH_OIDC_CALLBACK_def AUTH_ROOT_def)

lemma landing_loading: "\<not> isInitialized c \<Longrightarrow> landing c = pathname c"
  by (simp add: landing_def rendered_def AuthGuard_def)

lemma paths_distinct [simp]: "AUTH_OIDC_CALLBACK \<noteq> AUTH_LOGIN" "AUTH_LOGIN \<noteq> AUTH_OIDC_CALLBACK"
  by (simp_all add: AUTH_LOGIN_def AUTH_OIDC_CALLBACK_def)

lemma task_ok_render: "task_ok c (task c) \<Longrightarrow> task_ok (render c) (task c)"
proof (cases "task c")
  case NoTask
  assume "task_ok c (task c)"
  with NoTask show ?thesis
    by (auto simp: page_at_rest_def login_render busy_def fresh_login_idle split: option.split)
next
  case (AwaitBoot r)
  assume "task_ok c (task c)"
  with AwaitBoot show ?thesis
    by (simp add: login_render login_rendered_def carries_def)
qed (auto simp: signing_in_def page_phase_def pathname_render landing_sign_in carries_def login_render login_rendered_def
      split: option.splits)

lemma session_inv_render:
  assumes "handler_inv c log"
  shows "session_inv (render c) log"
  using assms task_ok_render [of c]
  by (auto simp: session_inv_def handler_inv_def pathname_render landing_router verified_def login_render render_settled
      split: if_splits)

lemma handler_inv_load:
  assumes "path \<in> set router"
  shows "session_inv (load_page ls ss usable path) log"
  unfolding load_page_def using assms
  by (intro session_inv_render)
     (auto simp: handler_inv_def boot_def verified_def carries_def page_at_rest_def token_header getToken_def)

lemma session_inv_reload: "pathname c \<in> set router \<Longrightarrow> session_inv (reload c) log"
  by (simp add: reload_def handler_inv_load)

lemmas inv_defs = handler_inv_def verified_def carries_def signing_in_def page_phase_def page_at_rest_def

lemma verified_mono: "verified log c \<Longrightarrow> verified (rs @ log) c"
  by (auto simp: verified_def)

text \<open>A rejected request removes the session at most, whatever is suspended meanwhile.\<close>

lemma handler_inv_error:
  "handler_inv c log \<Longrightarrow> (login c \<noteq> None \<Longrightarrow> \<not> isAuthenticated c) \<Longrightarrow> handler_inv (on_error st e c) log"
  by (cases "task c") (auto simp: inv_defs on_error_session split: option.splits)

text \<open>Handlers of the login form change the page and leave the session alone.\<close>

lemma handler_inv_page:
  assumes inv: "handler_inv c log" and p: "\<And>p. login c = Some p \<Longrightarrow> (busy (f p) \<longleftrightarrow> busy p) \<and> (busy p \<longrightarrow> phase (f p) = phase p)"
  shows "handler_inv (on_page f c) log"
  using inv p by (cases "task c") (auto simp: inv_defs on_page_def getToken_def busy_def split: option.splits)

lemma busy_unfail: "busy (unfail p) \<longleftrightarrow> busy p" "busy p \<Longrightarrow> unfail p = p"
  by (auto simp: unfail_def busy_def)

lemma handler_inv_form:
  assumes "handler_inv c log" "form_enabled c" "\<And>p. \<not> busy p \<Longrightarrow> \<not> busy (f p)"
  shows "handler_inv (on_page f c) log"
  using assms by (intro handler_inv_page) (auto simp: form_enabled_def split: option.splits)

lemma handler_inv_typing:
  assumes "handler_inv c log" "form_enabled c"
  shows "handler_inv (on_page (onChange v) c) log" "handler_inv (on_page (paste w) c) log"
    "handler_inv (on_page (onUsername v) c) log" "handler_inv (on_page (onPassword v) c) log"
  by (rule handler_inv_form [OF assms],
      simp add: onChange_def paste_def onUsername_def onPassword_def busy_unfail fail_def busy_def unfail_def
        split: option.split)+

lemma handler_inv_signIn:
  assumes inv: "session_inv c log" and p: "login c = Some p"
  shows "handler_inv (signIn ns p c) log"
proof (cases "busy p \<or> sealed p")
  case True
  with inv show ?thesis by (auto simp: signIn_def session_inv_def)
next
  case False
  have l: "login_rendered c" and h: "handler_inv c log"
    using inv p by (auto simp: session_inv_def)
  have t: "task c = NoTask"
    using h p False by (cases "task c") (auto simp: inv_defs busy_def)
  from h l t p False show ?thesis
    by (auto simp: signIn_def inv_defs session_defs login_rendered_def busy_def fail_def token_header [unfolded getToken_def])
qed

lemma handler_inv_switchMode:
  assumes "session_inv c log" "login c = Some p"
  shows "handler_inv (switchMode m p c) log"
  using assms
  by (cases "task c") (auto simp: switchMode_def session_inv_def inv_defs session_defs busy_def)

lemma handler_inv_oidc_mount:
  assumes inv: "session_inv c log" and e: "enabled c (OidcMount a b e)"
  shows "handler_inv (oidc_mount a b e c) log"
proof -
  have "\<not> isAuthenticated c \<and> isInitialized c"
    using e by (auto simp: rendered_def AuthGuard_def AUTH_OIDC_CALLBACK_def AUTH_ROOT_def split: if_splits)
  moreover have "login c = None"
    using inv e by (cases "login c") (auto simp: session_inv_def login_rendered_def)
  ultimately show ?thesis
    using inv e by (auto simp: oidc_mount_def session_inv_def inv_defs session_defs)
qed

lemma busy_failed [simp]:
  "\<not> busy (fail a b p)" "\<not> busy (sign_in_message l e p)" "\<not> busy (p\<lparr>phase := Idle\<rparr>)" "\<not> busy (p\<lparr>nsChoices := x, phase := Idle\<rparr>)"
  by (auto simp: sign_in_message_def fail_def busy_def)

lemma handler_inv_failed:
  assumes "handler_inv c log" "signing_in c"
  shows "handler_inv (sign_in_failed l e c) log" "login c = None \<Longrightarrow> handler_inv (oidc_failed e c) log"
    "handler_inv (sso_failed e c) log"
  using assms
  by (auto simp: sign_in_failed_def oidc_failed_def sso_failed_def inv_defs removeToken_def on_page_def getToken_def Let_def
      split: option.splits)

text \<open>While a sign-in is suspended the provider is initialised and signed out.\<close>

lemma signing_in_task:
  assumes "handler_inv c log" "task c \<noteq> NoTask" "\<And>r. task c \<noteq> AwaitBoot r"
  shows "signing_in c"
  using assms by (cases "task c") (auto simp: handler_inv_def)

lemma signing_in_error: "signing_in c \<Longrightarrow> signing_in (on_error st e c)"
  by (simp add: signing_in_def on_error_session)

lemma clear_keeps [simp]:
  "local_storage (clearSessionExpired c) = local_storage c" "isAuthenticated (clearSessionExpired c) = isAuthenticated c"
  "isInitialized (clearSessionExpired c) = isInitialized c" "listeners (clearSessionExpired c) = listeners c"
  "pathname (clearSessionExpired c) = pathname c" "login (clearSessionExpired c) = login c"
  by (simp_all add: clearSessionExpired_def)

lemma handler_inv_answers:
  assumes inv: "handler_inv c log" and t: "task c = AwaitLookup l r \<or> task c = AwaitOidcLookup r"
  shows "handler_inv (react st LookupOk c) (accepted c LookupOk @ log)"
    "handler_inv (react st (LookupFail e) c) log"
proof -
  show "handler_inv (react st LookupOk c) (accepted c LookupOk @ log)"
    using inv t
    by (auto simp: sign_in_ok_def oidc_ok_def inv_defs on_page_def getToken_def split: option.splits)
  have "signing_in c"
    using t by (intro signing_in_task [OF inv]) auto
  then have "signing_in (on_error st e c)" "handler_inv (on_error st e c) log"
    using handler_inv_error [OF inv] signing_in_error by (auto simp: signing_in_def)
  moreover have "login c = None" if "task c = AwaitOidcLookup r"
    using inv that by (simp add: handler_inv_def)
  ultimately show "handler_inv (react st (LookupFail e) c) log"
    using t by (auto intro!: handler_inv_failed)
qed

lemma handler_inv_progress:
  assumes inv: "handler_inv c log"
  shows "task c = AwaitBoot r \<Longrightarrow> handler_inv (boot_ok c) (r # log)"
    "task c = AwaitBoot r \<Longrightarrow> handler_inv (boot_failed c) log"
    "task c = AwaitLdap r \<Longrightarrow> handler_inv (ldap_ok t c) log"
    "task c = AwaitExchange r \<Longrightarrow> handler_inv (exchange_ok t c) log"
    "task c = AwaitSso r \<Longrightarrow> handler_inv (sso_ok s u c) log"
    "task c = AwaitDoor \<Longrightarrow> handler_inv (door_shut c) log"
proof -
  have s: "DASHBOARD_STATUS \<in> set router"
    by (simp add: router_def dashboard_routes_def DASHBOARD_STATUS_def del: js_simps)
  show "task c = AwaitDoor \<Longrightarrow> handler_inv (door_shut c) log"
    using inv s by (auto simp: door_shut_def inv_defs getToken_def split: option.splits)
  show "task c = AwaitSso r \<Longrightarrow> handler_inv (sso_ok s u c) log"
    using inv by (auto simp: sso_ok_def inv_defs on_page_def getToken_def split: option.splits)
  show "task c = AwaitExchange r \<Longrightarrow> handler_inv (exchange_ok t c) log"
    using inv by (auto simp: exchange_ok_def inv_defs Let_def setToken_def token_header getToken_def)
  show "task c = AwaitLdap r \<Longrightarrow> handler_inv (ldap_ok t c) log"
    using inv by (auto simp: ldap_ok_def inv_defs Let_def setToken_def on_page_def token_header getToken_def split: option.splits)
  show "task c = AwaitBoot r \<Longrightarrow> handler_inv (boot_failed c) log" "task c = AwaitBoot r \<Longrightarrow> handler_inv (boot_ok c) (r # log)"
    using inv by (auto simp: boot_ok_def boot_failed_def logoutUser_def removeToken_def inv_defs getToken_def)
qed

lemma session_inv_mono: "session_inv c log \<Longrightarrow> session_inv c (rs @ log)"
  by (auto simp: session_inv_def handler_inv_def verified_mono)

lemma busy_updates [simp]:
  "busy (p\<lparr>ssoEnabled := b\<rparr>) = busy p" "busy (p\<lparr>sealed := b\<rparr>) = busy p" "busy (p\<lparr>expired := x\<rparr>) = busy p"
  by (simp_all add: busy_def)

lemma handler_inv_react:
  assumes inv: "session_inv c log" and e: "enabled c e"
  shows "handler_inv (react st e c) (accepted c e @ log)"
proof -
  have h: "handler_inv c log"
    using inv by (simp add: session_inv_def)
  have l: "login c \<noteq> None \<Longrightarrow> \<not> isAuthenticated c"
    using inv by (auto simp: session_inv_def login_rendered_def)
  have n: "task c = AwaitOidcLookup r \<or> task c = AwaitExchange r \<Longrightarrow> login c = None" for r
    using h by (auto simp: handler_inv_def)
  have he: "handler_inv (on_error st x c) log" for x
    using l by (intro handler_inv_error [OF h]) auto
  have f: "task c \<noteq> NoTask \<Longrightarrow> (\<And>r. task c \<noteq> AwaitBoot r) \<Longrightarrow> signing_in (on_error st x c)" for x
    by (intro signing_in_error signing_in_task [OF h])
  show ?thesis
  proof (cases e)
    case (Goto p)
    with h e show ?thesis by (auto simp: inv_defs getToken_def split: option.splits)
  next
    case (SwitchTo b ns)
    have "handler_inv (reload (setNamespace ns c)) log"
      using h session_inv_reload [of "setNamespace ns c"] by (auto simp: session_inv_def handler_inv_def setNamespace_def)
    with h SwitchTo show ?thesis by (simp add: switchTo_def)
  next
    case Logout
    with h e l show ?thesis
      by (cases "task c") (auto simp: useLogout_def inv_defs removeToken_def getToken_def split: option.splits)
  next
    case Reload
    then show ?thesis
      using h session_inv_reload [of c] by (auto simp: session_inv_def handler_inv_def)
  next
    case LookupOk
    then obtain b r where "task c = AwaitLookup b r \<or> task c = AwaitOidcLookup r"
      using e by (cases "task c") auto
    then show ?thesis
      unfolding LookupOk by (rule handler_inv_answers(1) [OF h])
  qed (use e h he f n in \<open>auto simp: handler_inv_typing handler_inv_progress session_inv_def handler_inv_answers
    split: task.splits option.splits intro!: handler_inv_page handler_inv_signIn [OF inv] handler_inv_switchMode [OF inv]
      handler_inv_oidc_mount [OF inv] handler_inv_failed\<close>)
qed

lemma session_inv_reach: "reach c log \<Longrightarrow> session_inv c log"
proof (induction rule: reach.induct)
  case (load path ls ss usable)
  then show ?case by (rule handler_inv_load)
next
  case (step c log e st)
  then show ?case
    unfolding handle_def by (intro session_inv_render handler_inv_react)
qed

lemma dashboard_path: "p \<in> set dashboard_routes \<Longrightarrow> \<not> starts_with p AUTH_ROOT"
  by (auto simp: dashboard_routes_def AUTH_ROOT_def)

lemma dashboard_authenticated: "dashboard_shown c \<Longrightarrow> isInitialized c \<and> isAuthenticated c"
  using dashboard_path [of "pathname c"]
  by (auto simp: dashboard_shown_def rendered_def AuthGuard_def split: if_splits)

section \<open>Properties of a session\<close>


lemma task_load_page:
  "task (load_page ls ss usable path) = (if truthy_str (ls TOKEN_KEY) then
     AwaitBoot (on_request \<lparr>local_storage = ls, session_storage = ss, session_usable = usable, isAuthenticated = False,
       isInitialized = False, listeners = [LogoutUser], pathname = path, login = None, oidc_started = False,
       oidc_error = None, task = NoTask, assigned = None\<rparr> lookupSelf) else NoTask)"
  by (simp add: load_page_def boot_def getToken_def)

definition stored_session :: "console" where
  "stored_session = load_page ((\<lambda>_. None)(TOKEN_KEY := Some (js ''tuck_a''))) (\<lambda>_. None) True (js ''/dashboard/tokens'')"

lemma reach_stored_session: "reach stored_session []"
  unfolding stored_session_def
  by (rule reach.load) (simp add: router_def dashboard_routes_def del: js_simps)

lemma boots_stored_session: "enabled stored_session BootOk"
  by (simp add: stored_session_def task_load_page)

lemma token_stored_session: "getToken (handle st BootOk stored_session) = Some (js ''tuck_a'')"
  by (simp add: handle_def boot_ok_def getToken_def stored_session_def load_page_def boot_def del: js_simps)


section \<open>Every sign-in comes to an end\<close>

fun is_answer :: "event \<Rightarrow> bool" where
  "is_answer BootOk = True" | "is_answer (BootFail e) = True" | "is_answer (LdapOk t) = True"
| "is_answer (LdapFail e) = True" | "is_answer LookupOk = True" | "is_answer (LookupFail e) = True"
| "is_answer DoorShut = True" | "is_answer (SsoOk s u) = True" | "is_answer (SsoFail e) = True"
| "is_answer (ExchangeOk t) = True" | "is_answer (ExchangeFail e) = True"
| "is_answer _ = False"

text \<open>Answer what is outstanding, at most \<open>n\<close> times, as the environment \<open>env\<close> chooses.\<close>

fun drive :: "(console \<Rightarrow> stamp \<times> event) \<Rightarrow> nat \<Rightarrow> console \<Rightarrow> console" where
  "drive env 0 c = c"
| "drive env (Suc n) c = (if task c = NoTask then c else drive env n (handle (fst (env c)) (snd (env c)) c))"

definition answering :: "(console \<Rightarrow> stamp \<times> event) \<Rightarrow> bool" where
  "answering env \<longleftrightarrow> (\<forall>d. task d \<noteq> NoTask \<longrightarrow> enabled d (snd (env d)) \<and> is_answer (snd (env d)))"

fun task_rank :: "task \<Rightarrow> nat" where
  "task_rank NoTask = 0" | "task_rank (AwaitBoot r) = 1" | "task_rank (AwaitLdap r) = 3"
| "task_rank (AwaitLookup l r) = 2" | "task_rank AwaitDoor = 1" | "task_rank (AwaitSso r) = 1"
| "task_rank (AwaitExchange r) = 3" | "task_rank (AwaitOidcLookup r) = 2"

lemma answer_progress:
  "enabled c e \<Longrightarrow> is_answer e \<Longrightarrow> task_rank (task (handle st e c)) < task_rank (task c)"
  by (cases e) (auto simp: handle_def session_defs split: task.splits)

lemma task_rank_0: "task_rank t = 0 \<longleftrightarrow> t = NoTask"
  by (cases t) simp_all

lemma drive_settles:
  assumes "session_inv c log" "answering env" "task_rank (task c) \<le> n"
  shows "task (drive env n c) = NoTask \<and> (\<exists>log'. session_inv (drive env n c) log')"
  using assms
proof (induction n arbitrary: c log)
  case (Suc n)
  show ?case
  proof (cases "task c = NoTask")
    case False
    let ?e = "snd (env c)" and ?d = "handle (fst (env c)) (snd (env c)) c"
    have e: "enabled c ?e" "is_answer ?e"
      using Suc.prems(2) False by (auto simp: answering_def)
    have "session_inv ?d (accepted c ?e @ log)"
      unfolding handle_def by (intro session_inv_render handler_inv_react Suc.prems(1) e(1))
    moreover have "task_rank (task ?d) \<le> n"
      using answer_progress [OF e, of "fst (env c)"] Suc.prems(3) by linarith
    ultimately show ?thesis
      using Suc.IH Suc.prems(2) False by simp
  qed (use Suc.prems in auto)
qed (auto simp: task_rank_0)


definition accept_all :: "console \<Rightarrow> stamp \<times> event" where
  "accept_all c = ((js ''now'', None), case task c of
      AwaitBoot _ \<Rightarrow> BootOk | AwaitLdap _ \<Rightarrow> LdapOk (js ''tuck_b'') | AwaitDoor \<Rightarrow> DoorShut
    | AwaitSso _ \<Rightarrow> SsoOk (js ''s'') (js ''https://idp'') | AwaitExchange _ \<Rightarrow> ExchangeOk (js ''tuck_b'') | _ \<Rightarrow> LookupOk)"

lemma answering_accept_all: "answering accept_all"
  by (auto simp: answering_def accept_all_def split: task.split)


section \<open>What a rejected request does\<close>

lemma render_signed_out:
  "isInitialized c \<Longrightarrow> \<not> isAuthenticated c \<Longrightarrow>
     pathname (render c) = (if starts_with (pathname c) AUTH_ROOT then pathname c else AUTH_LOGIN)"
  by (auto simp: pathname_render landing_def rendered_def AuthGuard_def AUTH_ROOT_def)

lemma landing_settled: "(\<And>p. rendered c \<noteq> Navigate p) \<Longrightarrow> landing c = pathname c"
  by (auto simp: landing_def split: view.split)



section \<open>What signing in sends\<close>

definition awaited :: "task \<Rightarrow> request option" where
  "awaited t = (case t of NoTask \<Rightarrow> None | AwaitDoor \<Rightarrow> None | AwaitBoot r \<Rightarrow> Some r | AwaitLdap r \<Rightarrow> Some r
    | AwaitLookup _ r \<Rightarrow> Some r | AwaitSso r \<Rightarrow> Some r | AwaitExchange r \<Rightarrow> Some r | AwaitOidcLookup r \<Rightarrow> Some r)"

lemma on_request_parts [simp]:
  "rq_url (on_request c r) = rq_url r" "rq_method (on_request c r) = rq_method r" "rq_body (on_request c r) = rq_body r"
  by (simp_all add: on_request_def set_if_def set_header_def split: option.split)

lemma url_lookupSelf: "rq_url lookupSelf = js ''/v1/auth/token/lookup-self''"
  by (simp add: lookupSelf_def)

text \<open>
  C20: the LDAP login and the OIDC code exchange are sent without the token that happens to be stored, and only a
  callback whose state is the one this browser stored sends the exchange; a token sign-in sends lookup-self with the
  token that was typed, without surrounding white space. Blank credentials send nothing.
\<close>
theorem sign_in_requests:
  assumes "\<not> busy p" "\<not> sealed p" "task c = NoTask"
  shows "(mode p = MLdap \<longrightarrow> (case awaited (task (signIn ns p c)) of
        None \<Rightarrow> trim (username p) = [] \<or> password p = []
      | Some r \<Rightarrow> get_header X_Tuck_Token r = None \<and> rq_body r = rq_body (loginLdap (trim (username p)) (password p) ns))) \<and>
    (mode p = MToken \<longrightarrow> (case awaited (task (signIn ns p c)) of
        None \<Rightarrow> trim (token_input p) = []
      | Some r \<Rightarrow> get_header X_Tuck_Token r = Some (trim (token_input p)) \<and> rq_url r = js ''/v1/auth/token/lookup-self'')) \<and>
    (case awaited (task (oidc_mount code state err c)) of None \<Rightarrow> True
      | Some r \<Rightarrow> get_header X_Tuck_Token r = None \<and> state \<noteq> None \<and> state = session_storage c OIDC_STATE_KEY)"
proof (intro conjI impI)
  assume "mode p = MLdap"
  then show "case awaited (task (signIn ns p c)) of
        None \<Rightarrow> trim (username p) = [] \<or> password p = []
      | Some r \<Rightarrow> get_header X_Tuck_Token r = None \<and> rq_body r = rq_body (loginLdap (trim (username p)) (password p) ns)"
    using assms by (auto simp: signIn_def awaited_def Let_def on_page_def removeToken_def token_header getToken_def)
next
  assume "mode p = MToken"
  then show "case awaited (task (signIn ns p c)) of
        None \<Rightarrow> trim (token_input p) = []
      | Some r \<Rightarrow> get_header X_Tuck_Token r = Some (trim (token_input p)) \<and> rq_url r = js ''/v1/auth/token/lookup-self''"
    using assms by (auto simp: signIn_def awaited_def Let_def on_page_def setToken_def token_header getToken_def url_lookupSelf
        simp del: js_simps)
next
  show "case awaited (task (oidc_mount code state err c)) of None \<Rightarrow> True
      | Some r \<Rightarrow> get_header X_Tuck_Token r = None \<and> state \<noteq> None \<and> state = session_storage c OIDC_STATE_KEY"
    using assms
    by (auto simp: oidc_mount_def awaited_def Let_def removeToken_def token_header getToken_def nullish_def
        dest: sym [of "Some _"] split: option.splits)
qed

definition login_form :: "console \<Rightarrow> login_page" where
  "login_form c = (the (login (mount_login c)))\<lparr>token_input := js '' tuck_a ''\<rparr>"

definition signed_out :: "console" where
  "signed_out = stored_session\<lparr>task := NoTask, local_storage := (\<lambda>_. None)\<rparr>"

theorem sign_in_requests_witness:
  "case awaited (task (signIn None (login_form signed_out) signed_out)) of
     None \<Rightarrow> False | Some r \<Rightarrow> get_header X_Tuck_Token r = Some (js ''tuck_a'')"
proof -
  let ?p = "login_form signed_out"
  have m: "mode ?p = MToken" "\<not> busy ?p" "\<not> sealed ?p" "task signed_out = NoTask"
    by (simp_all add: login_form_def signed_out_def mount_login_def Let_def savedMode_def mode_def busy_def
        clearSessionExpired_def)
  have t: "trim (token_input ?p) = js ''tuck_a''" "js ''tuck_a'' \<noteq> []"
    by (simp_all add: login_form_def trim_def trim_start_def trim_end_def is_ws_def)
  from sign_in_requests [OF m(2-4), of None] m(1) t show ?thesis
    by (cases "awaited (task (signIn None ?p signed_out))") (simp_all del: js_simps)
qed

section \<open>The token check of the server\<close>

text \<open>
  \<open>requireToken\<close> of \<open>internal/api/server.go\<close>: the token and namespace headers decide whether a handler runs and in
  which namespace. The core is an argument: what \<open>Authenticate\<close> answers for a token, whether \<open>TrackUse\<close> succeeds and
  which namespaces exist. A missing header reads as the empty string. \<open>Inl\<close> is the status of the rejection.
\<close>

datatype authentication = BarrierSealed | NotAuthenticated | BoundTo jsstring

definition header_or_empty :: "jsstring \<Rightarrow> request \<Rightarrow> jsstring" where
  "header_or_empty k r = nullish (get_header k r) []"

definition RootNamespace :: jsstring where "RootNamespace = js ''root''"

definition requireToken ::
  "(jsstring \<Rightarrow> authentication) \<Rightarrow> (jsstring \<Rightarrow> bool) \<Rightarrow> (jsstring \<Rightarrow> bool) \<Rightarrow> request \<Rightarrow> nat + jsstring option" where
  "requireToken authenticate track_use namespace_exists r =
     (let id = header_or_empty X_Tuck_Token r; ns = header_or_empty X_Tuck_Namespace r in
      if id = [] then Inl 401
      else case authenticate id of
          BarrierSealed \<Rightarrow> Inl 503
        | NotAuthenticated \<Rightarrow> Inl 401
        | BoundTo tn \<Rightarrow>
            if \<not> track_use id then Inl 401
            else if tn \<noteq> [] \<and> tn \<noteq> RootNamespace \<and> ns \<noteq> [] \<and> ns \<noteq> tn then Inl 403
            else let ns' = (if tn \<noteq> [] \<and> tn \<noteq> RootNamespace then tn else ns) in
              if ns' \<noteq> [] \<and> ns' \<noteq> RootNamespace then (if namespace_exists ns' then Inr (Some ns') else Inl 404)
              else Inr None)"

text \<open>A request of the console for a bound token, sent while another namespace is stored, is refused.\<close>

definition bound_elsewhere :: "(jsstring \<Rightarrow> authentication) \<Rightarrow> (jsstring \<Rightarrow> bool) \<Rightarrow> jsstring \<Rightarrow> jsstring \<Rightarrow> jsstring \<Rightarrow> bool" where
  "bound_elsewhere authenticate track_use t b ns \<longleftrightarrow>
     authenticate t = BoundTo b \<and> track_use t \<and> t \<noteq> [] \<and> b \<noteq> [] \<and> b \<noteq> RootNamespace \<and> ns \<noteq> [] \<and> ns \<noteq> b"

lemma refused_elsewhere:
  assumes "bound_elsewhere authenticate track_use t b ns" "rq_headers r = []"
    "getToken c = Some t" "getNamespace c = Some ns"
  shows "requireToken authenticate track_use namespace_exists (on_request c r) = Inl 403"
  using assms
  by (simp add: bound_elsewhere_def requireToken_def header_or_empty_def token_header namespace_header Let_def)

lemma reload_namespace:
  "ns \<noteq> [] \<Longrightarrow> getToken c = Some t \<Longrightarrow> t \<noteq> [] \<Longrightarrow>
     \<exists>d. getToken d = Some t \<and> getNamespace d = Some ns \<and> \<not> isInitialized d \<and> pathname d = pathname c \<and>
       reload (setNamespace ns c) = render (d\<lparr>task := AwaitBoot (on_request d lookupSelf)\<rparr>)"
  by (rule exI [of _ "\<lparr>local_storage = (local_storage c)(NAMESPACE_KEY := Some ns), session_storage = session_storage c,
        session_usable = session_usable c, isAuthenticated = False, isInitialized = False, listeners = [LogoutUser],
        pathname = pathname c, login = None, oidc_started = False, oidc_error = None, task = NoTask, assigned = None\<rparr>"])
     (simp add: reload_def load_page_def boot_def setNamespace_def getToken_def getNamespace_def)

lemma render_idem_loading:
  assumes "\<not> isInitialized c"
  shows "task (render (render c)) = task c" "getToken (render (render c)) = getToken c"
    "getNamespace (render (render c)) = getNamespace c" "pathname (render (render c)) = pathname c"
    "isInitialized (render (render c)) = isInitialized c"
  using assms by (simp_all add: pathname_render landing_loading)

lemma stale_namespace_refused:
  assumes "bound_elsewhere authenticate track_use t b ns" "getNamespace e = Some ns" "status err = Some 403"
    and p: "\<not> busy p" "\<not> sealed p" "mode p = MToken" "trim (token_input p) = t"
  shows "\<exists>r. task (signIn None p e) = AwaitLookup False r \<and>
      requireToken authenticate track_use namespace_exists r = Inl 403"
    and "getNamespace (sign_in_failed False err (on_error st err (signIn None p e))) = Some ns"
proof -
  let ?x = "setToken t (on_page (\<lambda>p. p\<lparr>phase := Busy, failMsg := None\<rparr>) e)"
  have s: "signIn None p e = ?x\<lparr>task := AwaitLookup False (on_request ?x lookupSelf)\<rparr>"
    using p assms(1) by (simp add: signIn_def Let_def bound_elsewhere_def)
  have x: "getToken ?x = Some t" "getNamespace ?x = Some ns"
    using assms(2) by (simp_all add: setToken_def on_page_def getToken_def getNamespace_def)
  show "\<exists>r. task (signIn None p e) = AwaitLookup False r \<and>
      requireToken authenticate track_use namespace_exists r = Inl 403"
    using refused_elsewhere [OF assms(1) _ x] s by simp
  show "getNamespace (sign_in_failed False err (on_error st err (signIn None p e))) = Some ns"
    using x(2) s assms(3) by (simp add: sign_in_failed_def on_error_def Let_def removeToken_def on_page_def getNamespace_def)
qed

text \<open>
  C21: the namespace switcher offers a token bound to a namespace the children of that namespace. Choosing one ends
  the session: the lookup-self request of the reload is refused with 403, the provider then removes the token and the
  guard shows the login page; and since the choice stays stored, signing in again with the same valid token is refused
  in the same way and leaves the choice stored.
\<close>
theorem child_namespace_ends_session:
  fixes st st' :: stamp
  assumes "bound_elsewhere authenticate track_use t b ns" "dashboard_shown c" "getToken c = Some t"
    "ns \<in> set (namespace_options b listed)" "ns \<noteq> current_namespace b c" "status err = Some 403"
  defines "d \<equiv> handle st (SwitchTo b ns) c"
  defines "e \<equiv> handle st' (BootFail err) d"
  shows "(\<exists>r. task d = AwaitBoot r \<and> requireToken authenticate track_use namespace_exists r = Inl 403) \<and>
    getToken e = None \<and> \<not> isAuthenticated e \<and> pathname e = AUTH_LOGIN \<and> getNamespace e = Some ns \<and>
    (\<forall>p. \<not> busy p \<longrightarrow> \<not> sealed p \<longrightarrow> mode p = MToken \<longrightarrow> trim (token_input p) = t \<longrightarrow>
      (\<exists>r. task (signIn None p e) = AwaitLookup False r \<and>
        requireToken authenticate track_use namespace_exists r = Inl 403) \<and>
      getNamespace (sign_in_failed False err (on_error st' err (signIn None p e))) = Some ns)"
proof -
  have t: "t \<noteq> []" "ns \<noteq> []"
    using assms(1) by (auto simp: bound_elsewhere_def)
  obtain c' where c': "getToken c' = Some t" "getNamespace c' = Some ns" "\<not> isInitialized c'" "pathname c' = pathname c"
    "reload (setNamespace ns c) = render (c'\<lparr>task := AwaitBoot (on_request c' lookupSelf)\<rparr>)"
    using reload_namespace [OF t(2) assms(3) t(1)] by blast
  have d: "d = render (render (c'\<lparr>task := AwaitBoot (on_request c' lookupSelf)\<rparr>))"
    using assms(5) c'(5) by (simp add: d_def handle_def switchTo_def)
  have dt: "task d = AwaitBoot (on_request c' lookupSelf)" "pathname d = pathname c" "getNamespace d = Some ns"
    using c' by (simp_all add: d render_idem_loading getNamespace_def)
  have r: "requireToken authenticate track_use namespace_exists (on_request c' lookupSelf) = Inl 403"
    using refused_elsewhere [OF assms(1) _ c'(1,2)] by simp
  have e: "getToken e = None" "\<not> isAuthenticated e" "getNamespace e = Some ns" "pathname e = AUTH_LOGIN"
    using dt assms(2,6) dashboard_path [of "pathname c"]
    by (simp_all add: e_def handle_def boot_failed_def logoutUser_def removeToken_def on_error_def getToken_def
        getNamespace_def render_signed_out dashboard_shown_def)
  with dt(1) r stale_namespace_refused [OF assms(1) e(3) assms(6)] show ?thesis
    by blast
qed

definition open_session :: "console" where
  "open_session = handle (js ''now'', None) BootOk stored_session"

lemma open_session_shown: "dashboard_shown open_session"
proof -
  have "pathname stored_session = js ''/dashboard/tokens''"
    by (simp add: stored_session_def load_page_def pathname_render landing_loading boot_def getToken_def)
  then have "rendered (boot_ok stored_session) = Outlet" "pathname (boot_ok stored_session) = js ''/dashboard/tokens''"
    by (simp_all add: rendered_def AuthGuard_def boot_ok_def AUTH_ROOT_def)
  then have "pathname open_session = js ''/dashboard/tokens''"
    by (simp add: open_session_def handle_def pathname_render landing_def del: js_simps)
  then show ?thesis
    by (simp add: dashboard_shown_def rendered_def AuthGuard_def AUTH_ROOT_def dashboard_routes_def)
       (simp add: open_session_def handle_def boot_ok_def)
qed

theorem child_namespace_ends_session_witness:
  "let d = handle (js ''now'', None) (SwitchTo (js ''team'') (js ''team/dev'')) open_session;
       e = handle (js ''now'', None) (BootFail (AxiosError (Some \<lparr>rs_status = 403, rs_error = None,
             rs_cas_required = False, rs_namespaces = None, rs_leader_addr = None\<rparr>) [])) d
   in pathname e = AUTH_LOGIN \<and> getNamespace e = Some (js ''team/dev'')"
proof -
  let ?err = "AxiosError (Some \<lparr>rs_status = 403, rs_error = None, rs_cas_required = False, rs_namespaces = None, rs_leader_addr = None\<rparr>) []"
  have 1: "bound_elsewhere (\<lambda>_. BoundTo (js ''team'')) (\<lambda>_. True) (js ''tuck_a'') (js ''team'') (js ''team/dev'')"
    by (simp add: bound_elsewhere_def RootNamespace_def)
  have 2: "getToken open_session = Some (js ''tuck_a'')"
    unfolding open_session_def by (rule token_stored_session)
  have 3: "js ''team/dev'' \<in> set (namespace_options (js ''team'') (Some [js ''team/dev'', js ''other'']))"
    by (simp add: namespace_options_def)
  have "getNamespace open_session = None"
    by (simp add: open_session_def handle_def boot_ok_def getNamespace_def stored_session_def load_page_def boot_def del: js_simps)
  then have 4: "js ''team/dev'' \<noteq> current_namespace (js ''team'') open_session"
    by (simp add: current_namespace_def)
  have 5: "status ?err = Some 403" by simp
  show ?thesis
    using child_namespace_ends_session [OF 1 open_session_shown 2 3 4 5, where st = "(js ''now'', None)" and st' = "(js ''now'', None)"]
    by (simp add: Let_def del: js_simps)
qed

end
