(* ===== verification/Cluster.thy ===== *)
theory Cluster
  imports Js_Number Js_Set Api_Client
begin

text \<open>
  The cluster page (\<open>pages/dashboard/cluster\<close>): the model of the Raft configuration that a poll shows, the events seen
  between two polls, the calculator of lost voters, the series of the sparklines and the labels of the panels. \<open>lc\<close> is
  \<open>localeCompare\<close> of the browser. Counts and indexes are whole numbers, and a text of the interface is its key.
\<close>

section \<open>What the server answers\<close>

datatype metrics_source = Heartbeat | Local

record cluster_metrics =
  cm_applied_index :: "nat option"
  cm_commit_index :: "nat option"
  cm_failures :: "nat option"
  cm_heartbeat_rtt_ms :: "rat option"
  cm_lag_entries :: "nat option"
  cm_last_contact_ms :: "nat option"
  cm_last_log_index :: nat
  cm_reachable :: "bool option"
  cm_source :: metrics_source
  cm_term :: nat

record cluster_server =
  sv_address :: jsstring
  sv_id :: jsstring
  sv_metrics :: "cluster_metrics option"
  sv_self :: "bool option"
  sv_suffrage :: jsstring

record cluster_peer =
  pr_lag :: int
  pr_rtt_ms :: "rat option"

record cluster_sample =
  sm_applied_index :: nat
  sm_commit_index :: nat
  sm_is_leader :: bool
  sm_last_log_index :: nat
  sm_peers :: "cluster_peer jsobj option"
  sm_t :: int
  sm_term :: nat

record cluster_tls =
  ct_ca_certs :: nat
  ct_days_left :: "int option"
  ct_error :: "jsstring option"
  ct_server_name :: "jsstring option"

text \<open>The fields of the answer that the page computes with; the others are only printed.\<close>

record cluster_status =
  cs_advertise_addr :: "jsstring option"
  cs_history :: "cluster_sample list option"
  cs_is_leader :: bool
  cs_leader :: jsstring
  cs_leader_addr :: jsstring
  cs_node_id :: "jsstring option"
  cs_servers :: "cluster_server list option"
  cs_state :: jsstring
  cs_term :: "nat option"
  cs_tls :: "cluster_tls option"

record cluster_snapshot =
  sn_created_at :: "jsstring option"
  sn_id :: jsstring
  sn_index :: nat
  sn_size :: nat
  sn_term :: nat
  sn_voters :: nat

record cluster_snapshot_result =
  sr_created :: bool
  sr_reason :: "jsstring option"
  sr_snapshot :: "cluster_snapshot option"

section \<open>The model of a poll\<close>

datatype node_role = Follower | Leader | Nonvoter

datatype health = Down | Electing | Nofault | Healthy

record node_vm =
  nv_address :: jsstring
  nv_id :: jsstring
  nv_isMe :: bool
  nv_metrics :: "cluster_metrics option"
  nv_role :: node_role
  nv_suffrage :: jsstring

record cluster_model =
  md_health :: health
  md_voters :: nat
  md_quorum :: nat
  md_tolerated :: nat
  md_nodes :: "node_vm list"

definition votes :: "jsstring \<Rightarrow> bool" where
  "votes suffrage \<longleftrightarrow> suffrage \<noteq> js ''Nonvoter''"

definition node_of :: "cluster_status \<Rightarrow> cluster_server \<Rightarrow> node_vm" where
  "node_of st s =
     (let isLeader = cs_leader st \<noteq> [] \<and> sv_id s = cs_leader st in
      \<lparr>nv_address = sv_address s, nv_id = sv_id s, nv_isMe = (isLeader \<and> cs_is_leader st), nv_metrics = sv_metrics s,
       nv_role = (if isLeader then Leader else if \<not> votes (sv_suffrage s) then Nonvoter else Follower),
       nv_suffrage = sv_suffrage s\<rparr>)"

definition buildModel :: "cluster_status \<Rightarrow> cluster_model" where
  "buildModel st =
     (let servers = nullish (cs_servers st) [];
          voters = length (filter (\<lambda>s. votes (sv_suffrage s)) servers);
          quorum = voters div 2 + 1;
          tolerated = nat (max 0 (int voters - int quorum)) in
      \<lparr>md_health = (if cs_state st = js ''Shutdown'' then Down
                    else if cs_leader st = [] \<or> cs_state st = js ''Candidate'' then Electing
                    else if tolerated < 1 then Nofault else Healthy),
       md_voters = voters, md_quorum = quorum, md_tolerated = tolerated, md_nodes = map (node_of st) servers\<rparr>)"

definition is_leader_role :: "node_vm \<Rightarrow> int" where
  "is_leader_role n = (if nv_role n = Leader then 1 else 0)"

definition sortNodes :: "(jsstring \<Rightarrow> jsstring \<Rightarrow> int) \<Rightarrow> node_vm list \<Rightarrow> node_vm list" where
  "sortNodes lc nodes = sort_by (\<lambda>a b. let d = is_leader_role b - is_leader_role a in
     if d \<noteq> 0 then d else lc (nv_id a) (nv_id b)) nodes"

section \<open>Events between two polls\<close>

datatype log_level = LvE | LvI | LvO | LvV | LvW

datatype log_param = PNum nat | PStr jsstring

record log_event =
  le_key :: string
  le_level :: log_level
  le_params :: "(string \<times> log_param) list"

record log_entry = log_event +
  le_id :: nat
  le_ts :: int

definition ev :: "string \<Rightarrow> log_level \<Rightarrow> (string \<times> log_param) list \<Rightarrow> log_event" where
  "ev k l ps = \<lparr>le_key = k, le_level = l, le_params = ps\<rparr>"

definition leader_events :: "cluster_status \<Rightarrow> cluster_status \<Rightarrow> log_event list" where
  "leader_events prev nxt =
     (if cs_leader prev = cs_leader nxt then []
      else if cs_leader nxt = [] then [ev ''leaderLost'' LvW [(''id'', PStr (cs_leader prev))]]
      else if cs_leader prev = [] then [ev ''leaderElected'' LvO [(''id'', PStr (cs_leader nxt))]]
      else [ev ''leaderChanged'' LvV [(''from'', PStr (cs_leader prev)), (''to'', PStr (cs_leader nxt))]])"

definition term_events :: "cluster_status \<Rightarrow> cluster_status \<Rightarrow> log_event list" where
  "term_events prev nxt = (case (cs_term prev, cs_term nxt) of
      (Some a, Some b) \<Rightarrow> if a < b then [ev ''termChanged'' LvV [(''from'', PNum a), (''to'', PNum b)]] else []
    | _ \<Rightarrow> [])"

definition state_events :: "cluster_status \<Rightarrow> cluster_status \<Rightarrow> log_event list" where
  "state_events prev nxt =
     (if cs_state prev = cs_state nxt then []
      else [ev ''stateChanged'' (if cs_state nxt = js ''Shutdown'' then LvE else LvI)
             [(''from'', PStr (cs_state prev)), (''to'', PStr (cs_state nxt))]])"

definition server_event :: "cluster_server list \<Rightarrow> cluster_server \<Rightarrow> log_event list" where
  "server_event prevServers s = (case find (\<lambda>p. sv_id p = sv_id s) prevServers of
      None \<Rightarrow> [ev ''nodeJoined'' LvO [(''addr'', PStr (sv_address s)), (''id'', PStr (sv_id s))]]
    | Some was \<Rightarrow> if sv_suffrage was \<noteq> sv_suffrage s
        then [ev ''suffrageChanged'' LvI [(''id'', PStr (sv_id s)), (''to'', PStr (sv_suffrage s))]] else [])"

definition left_event :: "cluster_server list \<Rightarrow> cluster_server \<Rightarrow> log_event list" where
  "left_event nextServers p =
     (if list_ex (\<lambda>s. sv_id s = sv_id p) nextServers then [] else [ev ''nodeLeft'' LvW [(''id'', PStr (sv_id p))]])"

definition diffStatus :: "cluster_status option \<Rightarrow> cluster_status \<Rightarrow> log_event list" where
  "diffStatus prev nxt =
     (let nextServers = nullish (cs_servers nxt) [] in
      case prev of
        None \<Rightarrow> [ev ''connected'' LvI [(''count'', PNum (length nextServers)), (''leader'', PStr (or_str (Some (cs_leader nxt)) em_dash))]]
      | Some p \<Rightarrow>
          (let prevServers = nullish (cs_servers p) [] in
           leader_events p nxt @ term_events p nxt @ state_events p nxt
             @ concat (map (server_event prevServers) nextServers) @ concat (map (left_event nextServers) prevServers)))"

section \<open>Errors and the join form\<close>

definition httpStatus :: "failure \<Rightarrow> nat option" where
  "httpStatus err = status err"

fun serverMessage_cluster :: "failure \<Rightarrow> jsstring option" where
  "serverMessage_cluster (AxiosError (Some r) m) =
     (if truthy_str (rs_error r)
      then Some (let e = nullish (rs_error r) [] in
        if truthy_str (rs_leader_addr r) then e @ js '' ('' @ nullish (rs_leader_addr r) [] @ js '')'' else e)
      else None)"
| "serverMessage_cluster _ = None"

text \<open>\<open>/^[a-z0-9.[\]:-]+:\d{2,5}$/i\<close>\<close>

definition addr_char :: "jschar \<Rightarrow> bool" where
  "addr_char c \<longleftrightarrow> in_range CHR ''a'' CHR ''z'' c \<or> in_range CHR ''A'' CHR ''Z'' c \<or> is_digit c \<or> one_of ''.[]:-'' c"

definition ADDR_RE :: re where
  "ADDR_RE = anchored (Seq (Plus (Cls addr_char)) (Seq (Lit (js '':''))
     (Seq (Cls is_digit) (Seq (Cls is_digit) (Upto 3 (Cls is_digit))))))"

section \<open>The calculator of lost voters\<close>

record loss_result =
  lr_alive :: nat
  lr_hasQuorum :: bool
  lr_quorum :: nat
  lr_spare :: int
  lr_total :: nat

definition simulateLoss :: "node_vm list \<Rightarrow> jsstring list \<Rightarrow> loss_result" where
  "simulateLoss nodes down =
     (let voters = filter (\<lambda>n. votes (nv_suffrage n)) nodes;
          total = length voters;
          quorum = total div 2 + 1;
          alive = length (filter (\<lambda>n. \<not> set_has down (nv_id n)) voters) in
      \<lparr>lr_alive = alive, lr_hasQuorum = (quorum \<le> alive), lr_quorum = quorum, lr_spare = int alive - int quorum,
       lr_total = total\<rparr>)"

text \<open>The effect that forgets the voters that left, which keeps the set when nothing goes.\<close>

definition keep_known :: "jsstring list \<Rightarrow> jsstring list \<Rightarrow> jsstring list" where
  "keep_known ids s = (let next = filter (\<lambda>i. i \<in> set ids) s in if length next = length s then s else next)"

definition calc_forget :: "node_vm list \<Rightarrow> jsstring list \<Rightarrow> jsstring list" where
  "calc_forget nodes down = keep_known (map nv_id (filter (\<lambda>n. votes (nv_suffrage n)) nodes)) down"

definition calc_toggle :: "jsstring \<Rightarrow> jsstring list \<Rightarrow> jsstring list" where
  "calc_toggle i down = (if set_has down i then set_delete i down else set_add i down)"

section \<open>Series and labels\<close>

fun commitRate :: "cluster_sample list \<Rightarrow> num list" where
  "commitRate (a # b # r) =
     (let dt = num_div (Fin (of_int (sm_t b - sm_t a))) 1000;
          di = int (sm_commit_index b) - int (sm_commit_index a) in
      (case dt of Fin d \<Rightarrow> if 0 < d \<and> 0 \<le> di then [num_div (Fin (of_int di)) d] else [] | _ \<Rightarrow> [])
      @ commitRate (b # r))"
| "commitRate _ = []"

definition maxLagSeries :: "cluster_sample list \<Rightarrow> int list" where
  "maxLagSeries history =
     map (\<lambda>h. fold max (map (\<lambda>(k, p). pr_lag p) (entries (nullish (sm_peers h) []))) 0)
       (filter (\<lambda>h. sm_is_leader h \<and> sm_peers h \<noteq> None) history)"

definition peer_own :: "cluster_sample \<Rightarrow> jsstring \<Rightarrow> cluster_peer option" where
  "peer_own h i = Option.bind (sm_peers h) (\<lambda>ps. map_of ps i)"

definition peerRttSeries :: "cluster_sample list \<Rightarrow> jsstring \<Rightarrow> rat list" where
  "peerRttSeries history i = List.map_filter (\<lambda>h. Option.bind (peer_own h i) pr_rtt_ms) history"

text \<open>Reading \<open>peers[id]\<close> also finds the inherited members of the object, which have no \<open>lag\<close>.\<close>

definition peerLagSeries :: "cluster_sample list \<Rightarrow> jsstring \<Rightarrow> int list" where
  "peerLagSeries history i =
     map (\<lambda>h. nullish (map_option pr_lag (peer_own h i)) 0)
       (filter (\<lambda>h. peer_own h i \<noteq> None \<or> sm_peers h \<noteq> None \<and> i \<in> set proto_keys) history)"

definition maxRttSeries :: "cluster_sample list \<Rightarrow> rat list" where
  "maxRttSeries history = List.map_filter (\<lambda>h.
     case List.map_filter (\<lambda>(k, p). pr_rtt_ms p) (entries (nullish (sm_peers h) [])) of
       [] \<Rightarrow> None | x # xs \<Rightarrow> Some (fold max xs x)) history"

definition fmtMs :: "rat \<Rightarrow> jsstring" where
  "fmtMs ms = (if ms < 10 then to_fixed1 ms else dec_int \<lfloor>ms + 1 / 2\<rfloor>)"

definition fmtAge :: "int \<Rightarrow> jsstring" where
  "fmtAge ms = (if ms < 1000 then dec_int ms @ js '' ms''
     else if ms < 60000 then (case num_div (Fin (of_int ms)) 1000 of Fin s \<Rightarrow> to_fixed1 s | _ \<Rightarrow> []) @ js '' s''
     else dec_int (round_div ms 60000) @ js '' min'')"

datatype cert_tone = CtBad | CtBrass | CtMute | CtOk

definition certTone :: "int option \<Rightarrow> cert_tone" where
  "certTone daysLeft = (case daysLeft of None \<Rightarrow> CtMute | Some d \<Rightarrow>
     if d < 0 then CtBad else if d < 14 then CtBrass else CtOk)"

section \<open>Facts of the model\<close>

definition servers_of :: "cluster_status \<Rightarrow> cluster_server list" where
  "servers_of st = nullish (cs_servers st) []"

definition voter_ids :: "cluster_status \<Rightarrow> jsstring set" where
  "voter_ids st = sv_id ` {s \<in> set (servers_of st). votes (sv_suffrage s)}"

lemma node_of_fields [simp]:
  "nv_id (node_of st s) = sv_id s" "nv_suffrage (node_of st s) = sv_suffrage s" "nv_address (node_of st s) = sv_address s"
  by (simp_all add: node_of_def Let_def)

lemma buildModel_fields:
  "md_nodes (buildModel st) = map (node_of st) (servers_of st)"
  "md_voters (buildModel st) = length (filter (\<lambda>s. votes (sv_suffrage s)) (servers_of st))"
  "md_quorum (buildModel st) = md_voters (buildModel st) div 2 + 1"
  "md_tolerated (buildModel st) = (md_voters (buildModel st) - 1) div 2"
  by (auto simp: buildModel_def servers_of_def Let_def max_def)

lemma node_of_role: "nv_role (node_of st s) = Leader \<longleftrightarrow> cs_leader st \<noteq> [] \<and> sv_id s = cs_leader st"
  by (auto simp: node_of_def Let_def)

text \<open>Names in the configuration are distinct in Raft; then at most one node of the model has the role of the leader.\<close>

lemma one_leader:
  assumes "distinct (map sv_id (servers_of st))"
  shows "length (filter (\<lambda>n. nv_role n = Leader) (md_nodes (buildModel st))) \<le> 1"
proof -
  have "filter (\<lambda>n. nv_role n = Leader) (md_nodes (buildModel st))
      = map (node_of st) (filter (\<lambda>s. cs_leader st \<noteq> [] \<and> sv_id s = cs_leader st) (servers_of st))"
    by (simp add: buildModel_fields filter_map comp_def node_of_role)
  moreover have "length (filter (\<lambda>s. sv_id s = x) ss) \<le> 1" if "distinct (map sv_id ss)" for x ss
    using that by (induction ss) (auto simp: filter_empty_conv intro: rev_image_eqI)
  then have "length (filter (\<lambda>s. cs_leader st \<noteq> [] \<and> sv_id s = cs_leader st) (servers_of st)) \<le> 1"
    using assms by (cases "cs_leader st = []") auto
  ultimately show ?thesis by simp
qed

text \<open>With a consistent collation the nodes are in order, the leader first.\<close>

definition node_cmp :: "(jsstring \<Rightarrow> jsstring \<Rightarrow> int) \<Rightarrow> node_vm \<Rightarrow> node_vm \<Rightarrow> int" where
  "node_cmp lc a b = (let d = is_leader_role b - is_leader_role a in if d \<noteq> 0 then d else lc (nv_id a) (nv_id b))"

lemma comparator_node_cmp: "comparator lc \<Longrightarrow> comparator (node_cmp lc)"
  unfolding comparator_def node_cmp_def is_leader_role_def by (auto simp: Let_def)

lemma sortNodes_leader_first:
  assumes "comparator lc"
  shows "sorted_wrt (\<lambda>a b. nv_role b = Leader \<longrightarrow> nv_role a = Leader) (sortNodes lc nodes)"
proof -
  have "sortNodes lc nodes = sort_by (node_cmp lc) nodes" by (simp add: sortNodes_def node_cmp_def [abs_def])
  then have "sorted_wrt (\<lambda>a b. node_cmp lc a b \<le> 0) (sortNodes lc nodes)"
    using comparator.sorted_sort_by [OF comparator_node_cmp [OF assms]] by simp
  then show ?thesis
    by (rule sorted_wrt_mono_rel [rotated]) (auto simp: node_cmp_def is_leader_role_def Let_def split: if_splits)
qed

text \<open>The voters that a set of lost servers takes away.\<close>

definition lost_voters :: "cluster_status \<Rightarrow> jsstring list \<Rightarrow> jsstring set" where
  "lost_voters st down = voter_ids st \<inter> set down"

lemma voter_ids_set: "voter_ids st = set (map sv_id (filter (\<lambda>s. votes (sv_suffrage s)) (servers_of st)))"
  by (auto simp: voter_ids_def)

lemma card_voter_ids:
  assumes "distinct (map sv_id (servers_of st))"
  shows "card (voter_ids st) = md_voters (buildModel st)"
  unfolding voter_ids_set using assms by (simp only: distinct_card distinct_map_filter) (simp add: buildModel_fields)

lemma simulateLoss_model:
  assumes "distinct (map sv_id (servers_of st))"
  shows "lr_total (simulateLoss (md_nodes (buildModel st)) down) = md_voters (buildModel st)"
    and "lr_quorum (simulateLoss (md_nodes (buildModel st)) down) = md_quorum (buildModel st)"
    and "lr_alive (simulateLoss (md_nodes (buildModel st)) down) = card (voter_ids st - set down)"
proof -
  let ?vs = "filter (\<lambda>s. votes (sv_suffrage s) \<and> sv_id s \<notin> set down) (servers_of st)"
  show "lr_total (simulateLoss (md_nodes (buildModel st)) down) = md_voters (buildModel st)"
    and "lr_quorum (simulateLoss (md_nodes (buildModel st)) down) = md_quorum (buildModel st)"
    by (simp_all add: simulateLoss_def Let_def buildModel_fields filter_map comp_def)
  have "lr_alive (simulateLoss (md_nodes (buildModel st)) down) = length ?vs"
    by (simp add: simulateLoss_def Let_def buildModel_fields filter_map comp_def set_has_def conj_commute)
  also have "\<dots> = card (set (map sv_id ?vs))" using assms by (simp only: distinct_card distinct_map_filter) simp
  also have "set (map sv_id ?vs) = voter_ids st - set down" by (auto simp: voter_ids_def)
  finally show "lr_alive (simulateLoss (md_nodes (buildModel st)) down) = card (voter_ids st - set down)" .
qed

text \<open>A size of groups that forces any two of them to share a member, and the size the page uses.\<close>

locale quorum_size =
  fixes needed :: "nat \<Rightarrow> nat"
  assumes more_than_half: "n < 2 * needed n"
begin

lemma quorums_meet:
  assumes "finite V" "A \<subseteq> V" "B \<subseteq> V" "needed (card V) \<le> card A" "needed (card V) \<le> card B"
  shows "A \<inter> B \<noteq> {}"
proof
  assume "A \<inter> B = {}"
  then have "card (A \<union> B) = card A + card B" using assms finite_subset by (metis card_Un_disjoint)
  moreover have "card (A \<union> B) \<le> card V" using assms by (intro card_mono) auto
  ultimately show False using assms(4,5) more_than_half [of "card V"] by linarith
qed

end

interpretation majority: quorum_size "\<lambda>n. n div 2 + 1"
  by unfold_locales simp

text \<open>
  C34: the fault tolerance that the page shows is the exact one. In a configuration with distinct names and at least one
  voter, the calculator reports a quorum for a set of lost servers exactly when the voters among them are at most the
  tolerated number, the spare number it prints is the difference of the two (negative when the quorum is gone), and the
  quorum is a majority: two groups of voters of that size always share a voter.
\<close>

theorem loss_calculator_exact:
  assumes "distinct (map sv_id (servers_of st))" and "0 < md_voters (buildModel st)"
  shows "(lr_hasQuorum (simulateLoss (md_nodes (buildModel st)) down)
           \<longleftrightarrow> card (lost_voters st down) \<le> md_tolerated (buildModel st)) \<and>
    lr_spare (simulateLoss (md_nodes (buildModel st)) down)
           = int (md_tolerated (buildModel st)) - int (card (lost_voters st down)) \<and>
    (\<forall>A B. A \<subseteq> voter_ids st \<and> B \<subseteq> voter_ids st \<and> md_quorum (buildModel st) \<le> card A \<and> md_quorum (buildModel st) \<le> card B
       \<longrightarrow> A \<inter> B \<noteq> {})"
proof -
  let ?r = "simulateLoss (md_nodes (buildModel st)) down" and ?n = "md_voters (buildModel st)"
  have fin: "finite (voter_ids st)" by (simp add: voter_ids_def)
  have "card (voter_ids st - set down) + card (lost_voters st down) = card (voter_ids st)"
    unfolding lost_voters_def using card_Diff_subset_Int [of "voter_ids st" "set down"] card_mono [OF fin, of "voter_ids st \<inter> set down"] by simp
  then have alive: "lr_alive ?r + card (lost_voters st down) = ?n"
    by (simp add: simulateLoss_model [OF assms(1)] card_voter_ids [OF assms(1)])
  have r: "lr_hasQuorum ?r \<longleftrightarrow> lr_quorum ?r \<le> lr_alive ?r" "lr_spare ?r = int (lr_alive ?r) - int (lr_quorum ?r)"
    by (simp_all add: simulateLoss_def Let_def)
  have q: "lr_quorum ?r = ?n div 2 + 1" "md_tolerated (buildModel st) = (?n - 1) div 2"
    using simulateLoss_model(2) [OF assms(1)] buildModel_fields(3,4) by simp_all
  have sum: "md_tolerated (buildModel st) + lr_quorum ?r = ?n" unfolding q using assms(2) by presburger
  have "\<forall>A B. A \<subseteq> voter_ids st \<and> B \<subseteq> voter_ids st \<and> md_quorum (buildModel st) \<le> card A \<and> md_quorum (buildModel st) \<le> card B
       \<longrightarrow> A \<inter> B \<noteq> {}"
    using majority.quorums_meet [OF fin] by (simp add: buildModel_fields(3) card_voter_ids [OF assms(1)])
  moreover have "lr_hasQuorum ?r \<longleftrightarrow> card (lost_voters st down) \<le> md_tolerated (buildModel st)"
    unfolding r(1) using alive sum by linarith
  moreover have "lr_spare ?r = int (md_tolerated (buildModel st)) - int (card (lost_voters st down))"
    unfolding r(2) using alive sum by linarith
  ultimately show ?thesis by blast
qed

definition demo_server :: "string \<Rightarrow> string \<Rightarrow> cluster_server" where
  "demo_server i sf = \<lparr>sv_address = js i @ js ''.tuck:8300'', sv_id = js i, sv_metrics = None, sv_self = None, sv_suffrage = js sf\<rparr>"

definition demo_cluster :: cluster_status where
  "demo_cluster = \<lparr>cs_advertise_addr = None, cs_history = None, cs_is_leader = True, cs_leader = js ''n1'', cs_leader_addr = js ''n1.tuck:8300'',
     cs_node_id = Some (js ''n1''), cs_servers = Some [demo_server ''n1'' ''Voter'', demo_server ''n2'' ''Voter'',
       demo_server ''n3'' ''Voter'', demo_server ''n4'' ''Nonvoter''], cs_state = js ''Leader'', cs_term = Some 3, cs_tls = None\<rparr>"

theorem loss_calculator_exact_witness:
  "(lr_hasQuorum (simulateLoss (md_nodes (buildModel demo_cluster)) [js ''n2''])
      \<longleftrightarrow> card (lost_voters demo_cluster [js ''n2'']) \<le> md_tolerated (buildModel demo_cluster))
    \<and> {js ''n1'', js ''n2''} \<inter> {js ''n2'', js ''n3''} \<noteq> {}"
proof -
  have 1: "distinct (map sv_id (servers_of demo_cluster))" "0 < md_voters (buildModel demo_cluster)" "md_quorum (buildModel demo_cluster) = 2"
    by (simp_all add: servers_of_def demo_cluster_def demo_server_def buildModel_def votes_def Let_def)
  have "{js ''n1'', js ''n2''} \<subseteq> voter_ids demo_cluster" "{js ''n2'', js ''n3''} \<subseteq> voter_ids demo_cluster"
    by (simp_all add: voter_ids_set servers_of_def demo_cluster_def demo_server_def votes_def)
  then show ?thesis using loss_calculator_exact [OF 1(1,2)] 1(3) by simp
qed


text \<open>
  A poll adds nothing to the log exactly when nothing that the log reports has changed: same leader, same state, no higher
  term, the same names, and every name with the suffrage it had.
\<close>

definition suffrages :: "cluster_status \<Rightarrow> jsstring \<rightharpoonup> jsstring" where
  "suffrages st = map_of (map (\<lambda>s. (sv_id s, sv_suffrage s)) (servers_of st))"

lemma map_of_find: "map_of (map (\<lambda>s. (k s, v s)) xs) i = map_option v (find (\<lambda>p. k p = i) xs)"
  by (induction xs) auto

lemma server_event_quiet:
  "server_event ps s = [] \<longleftrightarrow> map_of (map (\<lambda>s. (sv_id s, sv_suffrage s)) ps) (sv_id s) = Some (sv_suffrage s)"
  by (auto simp: server_event_def map_of_find split: option.splits)

lemma left_event_quiet: "left_event ns p = [] \<longleftrightarrow> sv_id p \<in> sv_id ` set ns"
  by (auto simp: left_event_def list_ex_iff intro: rev_image_eqI)

lemma map_le_dom_eq: "f \<subseteq>\<^sub>m g \<and> dom g \<subseteq> dom f \<longleftrightarrow> f = g"
proof
  assume a: "f \<subseteq>\<^sub>m g \<and> dom g \<subseteq> dom f"
  show "f = g"
  proof
    fix i
    show "f i = g i" using a by (metis domIff in_mono map_le_def)
  qed
qed simp

lemma diffStatus_quiet:
  assumes "distinct (map sv_id (servers_of nxt))"
  shows "diffStatus (Some prev) nxt = [] \<longleftrightarrow> cs_leader nxt = cs_leader prev \<and> cs_state nxt = cs_state prev
     \<and> \<not> (\<exists>a b. cs_term prev = Some a \<and> cs_term nxt = Some b \<and> a < b) \<and> suffrages nxt = suffrages prev"
proof -
  let ?S = "map (\<lambda>s. (sv_id s, sv_suffrage s))"
  have d: "distinct (map fst (?S (servers_of nxt)))" using assms by (simp add: comp_def)
  have "(\<forall>s\<in>set (servers_of nxt). server_event (servers_of prev) s = []) \<and> (\<forall>p\<in>set (servers_of prev). left_event (servers_of nxt) p = [])
      \<longleftrightarrow> suffrages nxt \<subseteq>\<^sub>m suffrages prev \<and> dom (suffrages prev) \<subseteq> dom (suffrages nxt)" (is "?L \<longleftrightarrow> ?R")
  proof -
    have "suffrages nxt \<subseteq>\<^sub>m suffrages prev \<longleftrightarrow> (\<forall>i v. suffrages nxt i = Some v \<longrightarrow> suffrages prev i = Some v)"
      by (auto simp: map_le_def dom_def)
    also have "\<dots> \<longleftrightarrow> (\<forall>s\<in>set (servers_of nxt). suffrages prev (sv_id s) = Some (sv_suffrage s))"
      unfolding suffrages_def map_of_eq_Some_iff [OF d] by auto
    finally have "suffrages nxt \<subseteq>\<^sub>m suffrages prev \<longleftrightarrow> (\<forall>s\<in>set (servers_of nxt). suffrages prev (sv_id s) = Some (sv_suffrage s))" .
    moreover have "dom (suffrages prev) \<subseteq> dom (suffrages nxt) \<longleftrightarrow> (\<forall>p\<in>set (servers_of prev). sv_id p \<in> sv_id ` set (servers_of nxt))"
      unfolding suffrages_def dom_map_of_conv_image_fst by (simp add: image_image image_subset_iff)
    ultimately show ?thesis by (simp add: server_event_quiet left_event_quiet suffrages_def)
  qed
  also have "?R \<longleftrightarrow> suffrages nxt = suffrages prev"
    by (rule map_le_dom_eq)
  finally have srv: "?L \<longleftrightarrow> suffrages nxt = suffrages prev" .
  show ?thesis unfolding srv [symmetric]
    by (auto simp: diffStatus_def Let_def leader_events_def term_events_def state_events_def servers_of_def [symmetric] split: option.splits)
qed

end
