(* ===== verification/Cluster_Page.thy ===== *)
theory Cluster_Page
  imports Cluster
begin

text \<open>
  The state and the handlers of the cluster page: the log of what this tab has seen, the leadership transfer, the
  selection, the removal of nodes, the snapshots, the join token and the join form. A handler that awaits a request is
  split at the await, or takes the answers of the requests it sends in order. A text of the interface is its key.
\<close>

section \<open>State\<close>

record transition =
  tr_from :: jsstring
  tr_newLeader :: "jsstring option"
  tr_since :: int

datatype node_filter = AllNodes | OnlyFollower | OnlyLeader

record join_token =
  jt_accessor :: jsstring
  jt_advertise_addr :: "jsstring option"
  jt_expires_at :: jsstring
  jt_leader_addr :: jsstring
  jt_node_id :: "jsstring option"
  jt_num_uses :: nat
  jt_policy :: jsstring
  jt_token :: jsstring
  jt_ttl_seconds :: nat

record progress =
  dl_bytes :: nat
  dl_ratio :: "num option"

datatype toast = Success string jsstring | Failure string jsstring | Info string | Warning string

record cluster_page =
  cp_status :: "cluster_status option"
  cp_openId :: "jsstring option"
  cp_joining :: bool
  cp_toRemove :: "jsstring list option"
  cp_selected :: "jsstring list"
  cp_filter :: node_filter
  cp_log :: "log_entry list"
  cp_dl :: "progress option"
  cp_stepOpen :: bool
  cp_transition :: "transition option"
  cp_dlStored :: "jsstring option"
  cp_prev :: "cluster_status option"
  cp_lastId :: nat
  cp_joinToken :: "join_token option"
  cp_joinTokenErr :: "jsstring option"
  cp_toasts :: "toast list"

definition cluster_page_init :: cluster_page where
  "cluster_page_init = \<lparr>cp_status = None, cp_openId = None, cp_joining = False, cp_toRemove = None, cp_selected = [],
     cp_filter = AllNodes, cp_log = [], cp_dl = None, cp_stepOpen = False, cp_transition = None, cp_dlStored = None,
     cp_prev = None, cp_lastId = 0, cp_joinToken = None, cp_joinTokenErr = None, cp_toasts = []\<rparr>"

definition toasted :: "toast \<Rightarrow> cluster_page \<Rightarrow> cluster_page" where
  "toasted m p = p\<lparr>cp_toasts := cp_toasts p @ [m]\<rparr>"

definition page_nodes :: "cluster_page \<Rightarrow> node_vm list" where
  "page_nodes p = (case cp_status p of None \<Rightarrow> [] | Some st \<Rightarrow> md_nodes (buildModel st))"

definition page_voters :: "cluster_page \<Rightarrow> nat" where
  "page_voters p = (case cp_status p of None \<Rightarrow> 0 | Some st \<Rightarrow> md_voters (buildModel st))"

section \<open>What is shown\<close>

datatype page_state = FaceForbidden | FaceNotEnabled | FaceFailed | FaceOther

definition page_face :: "cluster_page \<Rightarrow> failure option \<Rightarrow> page_state" where
  "page_face p error =
     (let code = (case (error, cp_status p) of (Some e, None) \<Rightarrow> httpStatus e | _ \<Rightarrow> None) in
      if code = Some 403 then FaceForbidden else if code = Some 501 then FaceNotEnabled
      else if error \<noteq> None \<and> cp_status p = None then FaceFailed else FaceOther)"

definition cluster_rows :: "(jsstring \<Rightarrow> jsstring \<Rightarrow> int) \<Rightarrow> cluster_page \<Rightarrow> node_vm list" where
  "cluster_rows lc p = filter (\<lambda>n. case cp_filter p of AllNodes \<Rightarrow> True
      | OnlyLeader \<Rightarrow> nv_role n = Leader | OnlyFollower \<Rightarrow> nv_role n \<noteq> Leader) (sortNodes lc (page_nodes p))"

definition openNode :: "(jsstring \<Rightarrow> jsstring \<Rightarrow> int) \<Rightarrow> cluster_page \<Rightarrow> node_vm option" where
  "openNode lc p = find (\<lambda>n. Some (nv_id n) = cp_openId p) (sortNodes lc (page_nodes p))"

definition lagScale :: "(jsstring \<Rightarrow> jsstring \<Rightarrow> int) \<Rightarrow> cluster_page \<Rightarrow> nat" where
  "lagScale lc p = fold max (map (\<lambda>n. nullish (Option.bind (nv_metrics n) cm_lag_entries) 0) (sortNodes lc (page_nodes p))) 20"

section \<open>The log of this tab\<close>

definition last_200 :: "'a list \<Rightarrow> 'a list" where
  "last_200 xs = drop (length xs - 200) xs"

definition log_stamp :: "int \<Rightarrow> nat \<Rightarrow> log_event \<Rightarrow> log_entry" where
  "log_stamp ts i e = \<lparr>le_key = le_key e, le_level = le_level e, le_params = le_params e, le_id = i, le_ts = ts\<rparr>"

definition append_events :: "int \<Rightarrow> log_event list \<Rightarrow> cluster_page \<Rightarrow> cluster_page" where
  "append_events ts es p =
     p\<lparr>cp_log := last_200 (cp_log p @ map2 (log_stamp ts) [cp_lastId p + 1..<cp_lastId p + 1 + length es] es),
       cp_lastId := cp_lastId p + length es\<rparr>"

definition observe :: "int \<Rightarrow> cluster_page \<Rightarrow> cluster_page" where
  "observe ts p = (case cp_status p of None \<Rightarrow> p | Some st \<Rightarrow>
     let events = diffStatus (cp_prev p) st; p1 = p\<lparr>cp_prev := Some st\<rparr> in
     if events = [] then p1 else append_events ts events p1)"

definition pushLog :: "int \<Rightarrow> log_event \<Rightarrow> cluster_page \<Rightarrow> cluster_page" where
  "pushLog ts e p = append_events ts [e] p"

section \<open>The leadership transfer\<close>

definition watch_transition :: "cluster_page \<Rightarrow> cluster_page" where
  "watch_transition p = (case (cp_status p, cp_transition p) of
      (Some st, Some tr) \<Rightarrow>
        if truthy_str (tr_newLeader tr) then p
        else if cs_leader st \<noteq> [] \<and> cs_leader st \<noteq> tr_from tr \<and> cs_state st \<noteq> js ''Candidate''
        then p\<lparr>cp_transition := Some (tr\<lparr>tr_newLeader := Some (cs_leader st)\<rparr>)\<rparr> else p
    | _ \<Rightarrow> p)"

definition transition_timeout :: "transition \<Rightarrow> int" where
  "transition_timeout tr = (if truthy_str (tr_newLeader tr) then 8000 else 45000)"

definition transition_over :: "cluster_page \<Rightarrow> cluster_page" where
  "transition_over p = p\<lparr>cp_transition := None\<rparr>"

definition candidates :: "node_vm list \<Rightarrow> node_vm list" where
  "candidates nodes = filter (\<lambda>n. nv_suffrage n = js ''Voter'' \<and> nv_role n \<noteq> Leader) nodes"

definition canStep :: "cluster_page \<Rightarrow> bool" where
  "canStep p \<longleftrightarrow> (case cp_status p of None \<Rightarrow> False | Some st \<Rightarrow> cs_is_leader st) \<and> 1 < page_voters p \<and> cp_transition p = None"

definition page_leader :: "cluster_page \<Rightarrow> jsstring" where
  "page_leader p = (case cp_status p of None \<Rightarrow> [] | Some st \<Rightarrow> cs_leader st)"

definition startStepDown :: "jsstring \<Rightarrow> int \<Rightarrow> cluster_page \<Rightarrow> request \<times> cluster_page" where
  "startStepDown target now p =
     (let from = page_leader p in
      (stepDownCluster (if target = [] then None else Some target),
       pushLog now (ev ''stepDownRequested'' LvV [(''from'', PStr from), (''target'', PStr (or_str (Some target) (js ''stepdown.autoShort'')))])
         (p\<lparr>cp_stepOpen := False, cp_transition := Some \<lparr>tr_from = from, tr_newLeader = None, tr_since = now\<rparr>\<rparr>)))"

definition stepDown_onError :: "int \<Rightarrow> failure \<Rightarrow> cluster_page \<Rightarrow> cluster_page" where
  "stepDown_onError now err p =
     (let reason = nullish (serverMessage_cluster err) (js ''stepdown.failedHint'') in
      toasted (Failure ''stepdown.failed'' reason)
        (pushLog now (ev ''stepDownFailed'' LvE [(''reason'', PStr reason)]) (p\<lparr>cp_transition := None\<rparr>)))"

definition stepDown_onSuccess :: "int \<Rightarrow> jsstring \<Rightarrow> cluster_page \<Rightarrow> cluster_page" where
  "stepDown_onSuccess now from p =
     toasted (Success ''stepdown.done'' (js ''stepdown.doneMsg'')) (pushLog now (ev ''stepDownDone'' LvO [(''from'', PStr from)]) p)"

text \<open>The steps of the live panel, and the index of the first one that is still open.\<close>

definition transition_steps :: "bool \<Rightarrow> transition \<Rightarrow> (bool \<times> string \<times> jsstring option) list" where
  "transition_steps isLeader tr =
     [(True, ''sent'', None), (\<not> isLeader, ''released'', Some (tr_from tr)),
      (truthy_str (tr_newLeader tr), ''elected'', Some (nullish (tr_newLeader tr) ellipsis))]"

definition firstOpen :: "(bool \<times> string \<times> jsstring option) list \<Rightarrow> nat option" where
  "firstOpen steps = find (\<lambda>i. \<not> fst (steps ! i)) [0..<length steps]"

section \<open>The join token\<close>

definition joinTokenLeftMs :: "(jsstring \<Rightarrow> int option) \<Rightarrow> int \<Rightarrow> cluster_page \<Rightarrow> int option" where
  "joinTokenLeftMs parse now p = (case cp_joinToken p of None \<Rightarrow> Some 0
     | Some j \<Rightarrow> map_option (\<lambda>e. e - now) (parse (jt_expires_at j)))"

text \<open>The effect that runs when \<open>joinTokenLeftMs <= 0\<close> changes; \<open>NaN <= 0\<close> is false.\<close>

definition expire_token :: "(jsstring \<Rightarrow> int option) \<Rightarrow> int \<Rightarrow> cluster_page \<Rightarrow> cluster_page" where
  "expire_token parse now p = (case (cp_joinToken p, joinTokenLeftMs parse now p) of
      (Some j, Some l) \<Rightarrow> if l \<le> 0 then (toasted (Warning ''add.tokenExpiredTitle'') p)\<lparr>cp_joinToken := None\<rparr> else p
    | _ \<Rightarrow> p)"

definition joinToken_request :: request where
  "joinToken_request = createClusterJoinToken None None"

definition joinToken_onError :: "failure \<Rightarrow> cluster_page \<Rightarrow> cluster_page" where
  "joinToken_onError err p =
     (let msg = (if httpStatus err = Some 403 then js ''add.tokenForbidden''
                 else nullish (serverMessage_cluster err) (js ''add.tokenFailedHint'')) in
      toasted (Failure ''add.tokenFailed'' msg) (p\<lparr>cp_joinTokenErr := Some msg\<rparr>))"

definition joinToken_onSuccess :: "join_token \<Rightarrow> cluster_page \<Rightarrow> cluster_page" where
  "joinToken_onSuccess data p = p\<lparr>cp_joinTokenErr := None, cp_joinToken := Some data\<rparr>"

section \<open>Selection and removal\<close>

definition drop_gone :: "cluster_page \<Rightarrow> cluster_page" where
  "drop_gone p = (if cp_status p = None then p
     else let ids = map nv_id (page_nodes p) in
       p\<lparr>cp_selected := keep_known ids (cp_selected p),
         cp_openId := (if truthy_str (cp_openId p) \<and> nullish (cp_openId p) [] \<notin> set ids then None else cp_openId p)\<rparr>)"

definition toggleSel :: "jsstring \<Rightarrow> cluster_page \<Rightarrow> cluster_page" where
  "toggleSel i p = p\<lparr>cp_selected := set_toggle i (cp_selected p)\<rparr>"

definition allChecked :: "(jsstring \<Rightarrow> jsstring \<Rightarrow> int) \<Rightarrow> cluster_page \<Rightarrow> bool" where
  "allChecked lc p \<longleftrightarrow> cluster_rows lc p \<noteq> [] \<and> list_all (\<lambda>r. set_has (cp_selected p) (nv_id r)) (cluster_rows lc p)"

definition cluster_toggleAll :: "(jsstring \<Rightarrow> jsstring \<Rightarrow> int) \<Rightarrow> cluster_page \<Rightarrow> cluster_page" where
  "cluster_toggleAll lc p = p\<lparr>cp_selected :=
     (if allChecked lc p then fold set_delete (map nv_id (cluster_rows lc p)) (cp_selected p)
      else fold set_add (map nv_id (cluster_rows lc p)) (cp_selected p))\<rparr>"

definition bulkIds :: "cluster_page \<Rightarrow> jsstring list" where
  "bulkIds p = filter (\<lambda>i. list_ex (\<lambda>n. nv_id n = i) (page_nodes p)) (cp_selected p)"

text \<open>The loop of awaited removals, with the answers of the server in order: the requests sent, the names done, and the
  failure that stopped it.\<close>

fun remove_loop :: "jsstring list \<Rightarrow> failure option list \<Rightarrow> request list \<times> jsstring list \<times> failure option" where
  "remove_loop (i # ids) (None # answers) =
     (case remove_loop ids answers of (rs, done, f) \<Rightarrow> (removeClusterNode i # rs, i # done, f))"
| "remove_loop (i # ids) (Some err # answers) = ([removeClusterNode i], [], Some err)"
| "remove_loop _ _ = ([], [], None)"

definition confirmRemove :: "jsstring list \<Rightarrow> failure option list \<Rightarrow> cluster_page \<Rightarrow> request list \<times> failure option \<times> cluster_page" where
  "confirmRemove ids answers p = (case remove_loop ids answers of (rs, done, f) \<Rightarrow>
     let p1 = (case f of None \<Rightarrow> p
            | Some err \<Rightarrow> toasted (Failure ''remove.failed'' (nullish (serverMessage_cluster err) (js ''remove.failedHint''))) p) in
     (rs, f, if done = [] then p1
        else (toasted (Success ''remove.done'' (join (js '', '') done)) p1)
          \<lparr>cp_selected := [],
            cp_openId := (if truthy_str (cp_openId p) \<and> nullish (cp_openId p) [] \<in> set done then None else cp_openId p)\<rparr>))"

definition removeNodes :: "cluster_page \<Rightarrow> node_vm list" where
  "removeNodes p = (case cp_toRemove p of None \<Rightarrow> [] | Some ids \<Rightarrow> filter (\<lambda>n. nv_id n \<in> set ids) (page_nodes p))"

definition remove_bulk :: "cluster_page \<Rightarrow> bool" where
  "remove_bulk p \<longleftrightarrow> (case cp_toRemove p of None \<Rightarrow> False | Some ids \<Rightarrow> 1 < length ids)"

definition removeVotersLeft :: "cluster_page \<Rightarrow> int" where
  "removeVotersLeft p = int (page_voters p) - int (length (filter (\<lambda>n. votes (nv_suffrage n)) (removeNodes p)))"

definition removeHasLeader :: "cluster_page \<Rightarrow> bool" where
  "removeHasLeader p = list_ex (\<lambda>n. nv_role n = Leader) (removeNodes p)"

definition remove_confirmText :: "cluster_page \<Rightarrow> jsstring option" where
  "remove_confirmText p = map_option (\<lambda>ids. if remove_bulk p then js ''bulk.word'' else hd ids) (cp_toRemove p)"

definition remove_warnings :: "cluster_page \<Rightarrow> string list" where
  "remove_warnings p =
     (if removeVotersLeft p < 3 then [''remove.warnLt3''] else if removeVotersLeft p mod 2 = 0 then [''remove.warnEven''] else [])
     @ (if removeHasLeader p then [''remove.warnLeader''] else [])
     @ (case cp_status p of Some st \<Rightarrow> if cs_is_leader st then [] else [''remove.warnNotLeader''] | None \<Rightarrow> [])"

section \<open>Snapshots\<close>

definition snapErr :: "failure \<Rightarrow> jsstring" where
  "snapErr err = (let code = httpStatus err in
     if code = Some 403 then js ''snap.forbidden'' else if code = Some 501 then js ''snap.unsupported''
     else nullish (serverMessage_cluster err) (js ''snap.failedHint''))"

definition snapshotNow_start :: "cluster_page \<Rightarrow> cluster_page option" where
  "snapshotNow_start p = (if cp_dl p \<noteq> None then None else Some (p\<lparr>cp_dl := Some \<lparr>dl_bytes = 0, dl_ratio = None\<rparr>\<rparr>))"

definition onProgress :: "nat \<Rightarrow> nat option \<Rightarrow> cluster_page \<Rightarrow> cluster_page" where
  "onProgress loaded size_opt p = p\<lparr>cp_dl := Some \<lparr>dl_bytes = loaded,
     dl_ratio = (case size_opt of Some n \<Rightarrow> if n \<noteq> 0 then Some (num_div (Fin (of_nat loaded)) (of_nat n)) else None | None \<Rightarrow> None)\<rparr>\<rparr>"

definition snapshotNow_end :: "failure + jsstring \<Rightarrow> cluster_page \<Rightarrow> cluster_page" where
  "snapshotNow_end r p = (case r of
      Inr filename \<Rightarrow> toasted (Success ''snap.done'' filename) p
    | Inl err \<Rightarrow> toasted (Failure ''snap.failed'' (snapErr err)) p)\<lparr>cp_dl := None\<rparr>"

definition createStored_end :: "failure + cluster_snapshot_result \<Rightarrow> cluster_page \<Rightarrow> cluster_page" where
  "createStored_end r p = (case r of
      Inr res \<Rightarrow> (case sr_snapshot res of
          Some s \<Rightarrow> if sr_created res then toasted (Success ''snap.created'' (dec (sn_index s))) p else toasted (Info ''snap.unchanged'') p
        | None \<Rightarrow> toasted (Info ''snap.unchanged'') p)
    | Inl err \<Rightarrow> toasted (Failure ''snap.failed'' (snapErr err)) p)"

definition stored_filename :: "cluster_snapshot \<Rightarrow> jsstring" where
  "stored_filename s = js ''tuck-snapshot-'' @ dec (sn_index s) @ js ''.db''"

definition downloadStored_start :: "cluster_snapshot \<Rightarrow> cluster_page \<Rightarrow> (request option \<times> cluster_page) option" where
  "downloadStored_start s p = (if truthy_str (cp_dlStored p) then None
     else Some (downloadStoredSnapshot (sn_id s), p\<lparr>cp_dlStored := Some (sn_id s)\<rparr>))"

definition downloadStored_end :: "cluster_snapshot \<Rightarrow> failure option \<Rightarrow> cluster_page \<Rightarrow> cluster_page" where
  "downloadStored_end s f p = (case f of
      None \<Rightarrow> toasted (Success ''snap.done'' (stored_filename s)) p
    | Some err \<Rightarrow> toasted (Failure ''snap.failed'' (snapErr err)) p)\<lparr>cp_dlStored := None\<rparr>"

section \<open>The join form\<close>

record join_form =
  jf_id :: jsstring
  jf_addr :: jsstring
  jf_serverErr :: jsstring
  jf_pending :: bool

definition join_reset :: "join_form \<Rightarrow> join_form" where
  "join_reset f = f\<lparr>jf_id := [], jf_addr := [], jf_serverErr := []\<rparr>"

definition idErr :: "node_vm list \<Rightarrow> join_form \<Rightarrow> string" where
  "idErr nodes f = (let nid = trim (jf_id f) in
     if nid = [] then [] else if list_ex is_ws nid then ''join.errIdSpaces''
     else if list_ex (\<lambda>n. nv_id n = nid) nodes then ''join.errIdExists'' else [])"

definition addrErr :: "node_vm list \<Rightarrow> join_form \<Rightarrow> string" where
  "addrErr nodes f = (let naddr = trim (jf_addr f) in
     if naddr = [] then [] else if \<not> test ADDR_RE naddr then ''join.errAddrFormat''
     else if list_ex (\<lambda>n. nv_address n = naddr) nodes then ''join.errAddrExists'' else [])"

definition join_valid :: "node_vm list \<Rightarrow> join_form \<Rightarrow> bool" where
  "join_valid nodes f \<longleftrightarrow> trim (jf_id f) \<noteq> [] \<and> trim (jf_addr f) \<noteq> [] \<and> idErr nodes f = [] \<and> addrErr nodes f = []"

definition join_submit :: "node_vm list \<Rightarrow> join_form \<Rightarrow> request option \<times> join_form" where
  "join_submit nodes f = (if \<not> join_valid nodes f \<or> jf_pending f then (None, f)
     else (Some (joinCluster (trim (jf_id f)) (trim (jf_addr f))), f\<lparr>jf_serverErr := [], jf_pending := True\<rparr>))"

definition join_onError :: "failure \<Rightarrow> join_form \<Rightarrow> cluster_page \<Rightarrow> join_form \<times> cluster_page" where
  "join_onError err f p = (let msg = serverMessage_cluster err in
     (f\<lparr>jf_serverErr := nullish msg [], jf_pending := False\<rparr>,
      toasted (Failure ''join.failed'' (nullish msg (js ''join.failedHint''))) p))"

definition onJoined :: "nat \<Rightarrow> cluster_page \<Rightarrow> cluster_page" where
  "onJoined votersAfter p = (if votersAfter mod 2 = 0 then toasted (Info ''toast.evenTitle'') p else p)"

definition join_onSuccess :: "node_vm list \<Rightarrow> join_form \<Rightarrow> cluster_page \<Rightarrow> join_form \<times> cluster_page" where
  "join_onSuccess nodes f p =
     (f\<lparr>jf_pending := False\<rparr>,
      (onJoined (length (filter (\<lambda>n. votes (nv_suffrage n)) nodes) + 1)
        (toasted (Success ''join.done'' (trim (jf_id f))) p))\<lparr>cp_joining := False\<rparr>)"

text \<open>A name that the form sends is new, has no blank in it, and goes with an address that is new.\<close>

lemma join_submit_sends:
  assumes "join_submit nodes f = (Some r, f')"
  shows "\<exists>nid naddr. r = joinCluster nid naddr \<and> nid \<noteq> [] \<and> (\<forall>c\<in>set nid. \<not> is_ws c) \<and> nid \<notin> nv_id ` set nodes
           \<and> test ADDR_RE naddr \<and> naddr \<notin> nv_address ` set nodes \<and> jf_pending f' \<and> \<not> jf_pending f"
  using assms
  by (intro exI [of _ "trim (jf_id f)"] exI [of _ "trim (jf_addr f)"])
    (auto simp: join_submit_def join_valid_def idErr_def addrErr_def Let_def list_ex_iff split: if_splits)

section \<open>The page as a machine\<close>

datatype cluster_input =
    Polled cluster_status int
  | TransitionTimeout
  | OpenNode "jsstring option"
  | SetFilter node_filter
  | ToggleSel jsstring
  | ToggleAll
  | ClearSel
  | StartRemove "jsstring list option"
  | ConfirmRemove "failure option list"
  | StepDown jsstring int
  | StepDownFailed int failure
  | StepDownDone int jsstring
  | TokenMinted join_token
  | TokenFailed failure
  | TokenTick int

fun cluster_step :: "(jsstring \<Rightarrow> jsstring \<Rightarrow> int) \<Rightarrow> (jsstring \<Rightarrow> int option) \<Rightarrow> cluster_input \<Rightarrow> cluster_page \<Rightarrow> cluster_page" where
  "cluster_step lc parse (Polled st now) p = drop_gone (watch_transition (observe now (p\<lparr>cp_status := Some st\<rparr>)))"
| "cluster_step lc parse TransitionTimeout p = transition_over p"
| "cluster_step lc parse (OpenNode i) p = p\<lparr>cp_openId := i\<rparr>"
| "cluster_step lc parse (SetFilter f) p = p\<lparr>cp_filter := f\<rparr>"
| "cluster_step lc parse (ToggleSel i) p = toggleSel i p"
| "cluster_step lc parse ToggleAll p = cluster_toggleAll lc p"
| "cluster_step lc parse ClearSel p = p\<lparr>cp_selected := []\<rparr>"
| "cluster_step lc parse (StartRemove ids) p = p\<lparr>cp_toRemove := ids\<rparr>"
| "cluster_step lc parse (ConfirmRemove answers) p = (case cp_toRemove p of None \<Rightarrow> p
     | Some ids \<Rightarrow> (case confirmRemove ids answers p of (rs, f, p1) \<Rightarrow> if f = None then p1\<lparr>cp_toRemove := None\<rparr> else p1))"
| "cluster_step lc parse (StepDown target now) p = (if canStep p then watch_transition (snd (startStepDown target now p)) else p)"
| "cluster_step lc parse (StepDownFailed now err) p = stepDown_onError now err p"
| "cluster_step lc parse (StepDownDone now from) p = stepDown_onSuccess now from p"
| "cluster_step lc parse (TokenMinted j) p = joinToken_onSuccess j p"
| "cluster_step lc parse (TokenFailed err) p = joinToken_onError err p"
| "cluster_step lc parse (TokenTick now) p = expire_token parse now p"

definition cluster_run :: "(jsstring \<Rightarrow> jsstring \<Rightarrow> int) \<Rightarrow> (jsstring \<Rightarrow> int option) \<Rightarrow> cluster_input list \<Rightarrow> cluster_page" where
  "cluster_run lc parse is = fold (cluster_step lc parse) is cluster_page_init"

text \<open>
  What holds in every state the page can reach: the log is bounded, its numbers grow strictly and never repeat, the
  selection is a set, and a transfer only names a new leader that is not the node that handed over.
\<close>

definition log_ok :: "nat \<Rightarrow> log_entry list \<Rightarrow> bool" where
  "log_ok n l \<longleftrightarrow> length l \<le> 200 \<and> sorted_wrt (<) (map le_id l) \<and> (\<forall>e\<in>set l. le_id e \<le> n)"

definition transition_ok :: "transition option \<Rightarrow> bool" where
  "transition_ok t \<longleftrightarrow> (case t of None \<Rightarrow> True | Some tr \<Rightarrow>
     (case tr_newLeader tr of None \<Rightarrow> True | Some l \<Rightarrow> l \<noteq> [] \<and> l \<noteq> tr_from tr))"

definition cluster_ok :: "cluster_page \<Rightarrow> bool" where
  "cluster_ok p \<longleftrightarrow> log_ok (cp_lastId p) (cp_log p) \<and> distinct (cp_selected p) \<and> transition_ok (cp_transition p)"

lemma sorted_wrt_drop: "sorted_wrt P xs \<Longrightarrow> sorted_wrt P (drop n xs)"
  by (metis append_take_drop_id sorted_wrt_append)

lemma map_stamp: "map le_id (map2 (log_stamp ts) is es) = take (length es) is"
proof (induction es arbitrary: "is")
  case (Cons e es) then show ?case by (cases "is") (auto simp: log_stamp_def)
qed simp

lemma log_ok_last_200:
  assumes "sorted_wrt (<) (map le_id xs)" "\<forall>e\<in>set xs. le_id e \<le> m"
  shows "log_ok m (last_200 xs)"
  using assms by (auto simp: log_ok_def last_200_def drop_map [symmetric] sorted_wrt_drop dest!: in_set_dropD)

lemma log_ok_append_new:
  assumes "log_ok n l" "sorted_wrt (<) (map le_id new)" "\<And>e. e \<in> set new \<Longrightarrow> n < le_id e \<and> le_id e \<le> m" "n \<le> m"
  shows "log_ok m (last_200 (l @ new))"
proof -
  have old: "le_id e \<le> n" if "e \<in> set l" for e using assms(1) that by (simp add: log_ok_def)
  have "le_id a < le_id b" if "a \<in> set l" "b \<in> set new" for a b
    using old [OF that(1)] assms(3) [OF that(2)] by linarith
  then have "sorted_wrt (<) (map le_id (l @ new))"
    using assms(1,2) by (auto simp: log_ok_def sorted_wrt_append)
  moreover have "le_id e \<le> m" if "e \<in> set (l @ new)" for e
    using that old [of e] assms(3) [of e] assms(4) by auto
  ultimately show ?thesis by (intro log_ok_last_200) auto
qed

lemma log_ok_append:
  assumes "log_ok n l"
  shows "log_ok (n + length es) (last_200 (l @ map2 (log_stamp ts) [n + 1..<n + 1 + length es] es))"
proof (rule log_ok_append_new [OF assms])
  let ?new = "map2 (log_stamp ts) [n + 1..<n + 1 + length es] es"
  have ids: "map le_id ?new = [n + 1..<n + 1 + length es]" unfolding map_stamp by (rule take_all, unfold length_upt, linarith)
  show "sorted_wrt (<) (map le_id ?new)" unfolding ids by (rule sorted_wrt_upt)
  show "n < le_id e \<and> le_id e \<le> n + length es" if "e \<in> set ?new" for e
  proof -
    have "le_id e \<in> set (map le_id ?new)" using that by (simp only: set_map imageI)
    then show ?thesis unfolding ids by (simp only: set_upt atLeastLessThan_iff) linarith
  qed
qed simp

lemma append_events_fields [simp]:
  "cp_selected (append_events ts es p) = cp_selected p" "cp_transition (append_events ts es p) = cp_transition p"
  "cp_status (append_events ts es p) = cp_status p" "cp_openId (append_events ts es p) = cp_openId p"
  by (simp_all add: append_events_def)

lemma cluster_ok_append: "cluster_ok p \<Longrightarrow> cluster_ok (append_events ts es p)"
  using log_ok_append [of "cp_lastId p" "cp_log p" es ts]
  by (simp add: cluster_ok_def append_events_def)

lemma cluster_ok_frame [simp]:
  "cluster_ok (p\<lparr>cp_prev := a\<rparr>) = cluster_ok p" "cluster_ok (p\<lparr>cp_status := a\<rparr>) = cluster_ok p"
  "cluster_ok (p\<lparr>cp_toRemove := b\<rparr>) = cluster_ok p" "cluster_ok (p\<lparr>cp_openId := c\<rparr>) = cluster_ok p"
  "cluster_ok (p\<lparr>cp_filter := d\<rparr>) = cluster_ok p" "cluster_ok (p\<lparr>cp_joinToken := e\<rparr>) = cluster_ok p"
  "cluster_ok (p\<lparr>cp_joinTokenErr := c\<rparr>) = cluster_ok p"
  by (simp_all add: cluster_ok_def)

lemma cluster_ok_clear: "cluster_ok p \<Longrightarrow> cluster_ok (p\<lparr>cp_selected := []\<rparr>)" "cluster_ok p \<Longrightarrow> cluster_ok (p\<lparr>cp_transition := None\<rparr>)"
  by (simp_all add: cluster_ok_def transition_ok_def)

lemma cluster_ok_toasted [simp]: "cluster_ok (toasted m p) = cluster_ok p"
  by (simp add: cluster_ok_def toasted_def)

lemma toasted_fields [simp]:
  "cp_openId (toasted m p) = cp_openId p" "cp_selected (toasted m p) = cp_selected p" "cp_log (toasted m p) = cp_log p"
  "cp_lastId (toasted m p) = cp_lastId p" "cp_transition (toasted m p) = cp_transition p" "cp_status (toasted m p) = cp_status p"
  by (simp_all add: toasted_def)

lemma cluster_ok_observe: "cluster_ok p \<Longrightarrow> cluster_ok (observe ts p)"
  by (cases "cp_status p") (auto simp: observe_def Let_def intro!: cluster_ok_append)

lemma cluster_ok_watch: "cluster_ok p \<Longrightarrow> cluster_ok (watch_transition p)"
  by (auto simp: watch_transition_def cluster_ok_def transition_ok_def split: option.splits)

lemma distinct_keep_known: "distinct s \<Longrightarrow> distinct (keep_known ids s)"
  by (simp add: keep_known_def Let_def)

lemma set_keep_known: "set (keep_known ids s) = set s \<inter> set ids"
proof (cases "length (filter (\<lambda>i. i \<in> set ids) s) = length s")
  case True
  then have "filter (\<lambda>i. i \<in> set ids) s = s"
    by (metis filter_id_conv length_filter_less nat_less_le)
  then show ?thesis using True by (auto simp: keep_known_def Let_def filter_id_conv)
qed (auto simp: keep_known_def Let_def)

lemma cluster_ok_drop: "cluster_ok p \<Longrightarrow> cluster_ok (drop_gone p)"
  by (auto simp: drop_gone_def cluster_ok_def Let_def distinct_keep_known)

lemma cluster_ok_remove: "cluster_ok p \<Longrightarrow> confirmRemove ids answers p = (rs, f, q) \<Longrightarrow> cluster_ok q"
  by (auto simp: confirmRemove_def Let_def cluster_ok_def split: prod.splits option.splits if_splits)

lemma cluster_ok_toggles: "cluster_ok p \<Longrightarrow> cluster_ok (toggleSel i p)" "cluster_ok p \<Longrightarrow> cluster_ok (cluster_toggleAll lc p)"
  by (auto simp: cluster_ok_def toggleSel_def cluster_toggleAll_def set_toggle_laws jsset.wf_fold)

lemma cluster_ok_step: "cluster_ok p \<Longrightarrow> cluster_ok (cluster_step lc parse i p)"
proof (cases i)
  case (Polled st now)
  assume "cluster_ok p"
  then show ?thesis by (simp add: Polled cluster_ok_drop cluster_ok_watch cluster_ok_observe)
next
  case (ConfirmRemove answers)
  assume "cluster_ok p"
  then show ?thesis
    by (auto simp: ConfirmRemove split: option.splits prod.splits dest: cluster_ok_remove)
next
  case (StepDown target now)
  assume "cluster_ok p"
  then have "cluster_ok (p\<lparr>cp_stepOpen := False, cp_transition := Some \<lparr>tr_from = page_leader p, tr_newLeader = None, tr_since = now\<rparr>\<rparr>)"
    by (simp add: cluster_ok_def transition_ok_def)
  then show ?thesis using \<open>cluster_ok p\<close>
    by (simp add: StepDown startStepDown_def Let_def pushLog_def cluster_ok_watch cluster_ok_append)
next
  case (StepDownFailed now err)
  assume "cluster_ok p"
  then show ?thesis by (simp add: cluster_ok_clear StepDownFailed stepDown_onError_def Let_def pushLog_def cluster_ok_append)
qed (auto simp: stepDown_onSuccess_def pushLog_def cluster_ok_append cluster_ok_toggles joinToken_onSuccess_def joinToken_onError_def
      expire_token_def transition_over_def cluster_ok_clear Let_def split: option.splits)

interpretation cluster_machine: machine "cluster_step lc parse" cluster_page_init cluster_ok for lc parse
  by unfold_locales (simp_all add: cluster_ok_step, simp add: cluster_ok_def cluster_page_init_def log_ok_def transition_ok_def)

lemma cluster_page_invariant: "cluster_ok (cluster_run lc parse is)"
  unfolding cluster_run_def by (rule cluster_machine.inv_run)

text \<open>After a poll nothing that left the configuration is selected or open.\<close>

lemma watch_fields [simp]:
  "cp_status (watch_transition p) = cp_status p" "cp_selected (watch_transition p) = cp_selected p" "cp_openId (watch_transition p) = cp_openId p"
  by (auto simp: watch_transition_def split: option.splits)

lemma observe_fields [simp]:
  "cp_status (observe now p) = cp_status p" "cp_selected (observe now p) = cp_selected p" "cp_openId (observe now p) = cp_openId p"
  by (auto simp: observe_def Let_def split: option.splits)

lemma poll_forgets:
  "let q = cluster_step lc parse (Polled st now) p in
     set (cp_selected q) \<subseteq> sv_id ` set (servers_of st) \<and> (\<forall>i. cp_openId q = Some i \<longrightarrow> i = [] \<or> i \<in> sv_id ` set (servers_of st))"
  by (auto simp: drop_gone_def Let_def set_keep_known page_nodes_def buildModel_fields split: if_splits option.splits)

text \<open>The removal stops at the first failure: the names done are the ones before it, in order, and nothing is sent after.\<close>

lemma remove_loop_prefix:
  assumes "length answers = length ids"
  shows "remove_loop ids answers =
     (let k = length (takeWhile (\<lambda>a. a = None) answers) in
      (map removeClusterNode (take (k + 1) ids), take k ids, if k < length ids then answers ! k else None))"
  using assms
proof (induction ids answers rule: remove_loop.induct)
  case (1 i ids answers) then show ?case by (auto simp: Let_def)
qed (auto simp: Let_def)


section \<open>The join command\<close>

record term_line =
  tl_after :: "jsstring option"
  tl_blank :: "bool option"
  tl_c :: "jsstring option"
  tl_p :: "jsstring option"
  tl_r :: "jsstring option"
  tl_s :: "jsstring option"
  tl_w :: "jsstring option"

definition comment_line :: "jsstring \<Rightarrow> term_line" where
  "comment_line c = \<lparr>tl_after = None, tl_blank = None, tl_c = Some c, tl_p = None, tl_r = None, tl_s = None, tl_w = None\<rparr>"

definition flag_line :: "string \<Rightarrow> jsstring \<Rightarrow> term_line" where
  "flag_line r s = \<lparr>tl_after = Some (js '' '' @ [0x5C]), tl_blank = None, tl_c = None, tl_p = None, tl_r = Some (js r), tl_s = Some s, tl_w = None\<rparr>"

definition port_of :: "jsstring option \<Rightarrow> jsstring" where
  "port_of addr = nullish (Option.bind addr (\<lambda>a. Option.bind
     (exec (Seq (Lit (js '':'')) (Seq (Grp 1 (Seq (Cls is_digit) (Seq (Cls is_digit) (Upto 3 (Cls is_digit))))) Eol)) a)
     (\<lambda>(_, _, _, c). c 1))) (js ''8201'')"

definition joinLines :: "jsstring \<Rightarrow> cluster_status \<Rightarrow> jsstring \<Rightarrow> jsstring \<Rightarrow> jsstring option \<Rightarrow> term_line list" where
  "joinLines origin st comment leaderNote token =
     (let tls = (case cs_tls st of Some t \<Rightarrow> if truthy_str (ct_error t) then None else Some t | None \<Rightarrow> None) in
      [comment_line comment]
      @ (if cs_is_leader st then [] else [comment_line leaderNote])
      @ (if truthy_str token
         then [(flag_line [] (nullish token []))\<lparr>tl_p := Some (js ''$''), tl_r := None, tl_w := Some (js ''TUCK_TOKEN='')\<rparr>,
               flag_line ''tuck --cluster --cluster-node-id '' (js ''<new-node-id>'')]
         else [(flag_line '' --cluster --cluster-node-id '' (js ''<new-node-id>''))\<lparr>tl_p := Some (js ''$''), tl_w := Some (js ''tuck'')\<rparr>])
      @ [flag_line ''    --cluster-bind-addr '' (js ''0.0.0.0:'' @ port_of (cs_advertise_addr st))]
      @ (case tls of None \<Rightarrow> []
         | Some t \<Rightarrow> [flag_line ''    --cluster-tls-cert '' (js ''<node.pem>''), flag_line ''    --cluster-tls-key '' (js ''<node-key.pem>''),
                       flag_line ''    --cluster-tls-ca '' (js ''<ca.pem>'')]
             @ (if truthy_str (ct_server_name t) then [flag_line ''    --cluster-tls-server-name '' (nullish (ct_server_name t) [])] else []))
      @ [(flag_line ''    --cluster-join '' (if cs_is_leader st then origin else js ''<leader-api-url>''))\<lparr>tl_after := None\<rparr>])"

definition line_text :: "term_line \<Rightarrow> jsstring" where
  "line_text l = (if tl_blank l = Some True then [] else nullish (tl_c l)
     ((if truthy_str (tl_p l) then js ''$ '' else []) @ nullish (tl_w l) [] @ nullish (tl_r l) [] @ nullish (tl_s l) [] @ nullish (tl_after l) []))"

definition termText :: "term_line list \<Rightarrow> jsstring" where
  "termText lines = join [0x0A] (map line_text lines)"

text \<open>The command that is shown never carries a secret unless a token was just minted: without one, the lines only depend
  on what the status says.\<close>

lemma joinLines_no_token: "joinLines origin st c n (Some []) = joinLines origin st c n None"
  by (simp add: joinLines_def)

lemma last_joinLines:
  "line_text (last (joinLines origin st c n token)) = js ''    --cluster-join '' @ (if cs_is_leader st then origin else js ''<leader-api-url>'')"
  by (simp add: joinLines_def Let_def line_text_def flag_line_def)

end
