(* ===== verification/Js_Pretty.thy ===== *)
theory Js_Pretty
  imports Js_Json
begin

text \<open>
  \<open>JSON.stringify(v, null, 2)\<close>, which the editors use for their text, and the round trip: what it prints is read back as
  the same value. \<open>gap\<close> is the number of spaces in front of the value.
\<close>

definition spaces :: "nat \<Rightarrow> jsstring" where
  "spaces n = replicate n 0x20"

definition newline_gap :: "nat \<Rightarrow> jsstring" where
  "newline_gap gap = 0x0A # spaces gap"

fun pretty :: "(jsstring \<Rightarrow> jsstring) \<Rightarrow> nat \<Rightarrow> json \<Rightarrow> jsstring" where
  "pretty nf gap JNull = js ''null''"
| "pretty nf gap (JBool b) = (if b then js ''true'' else js ''false'')"
| "pretty nf gap (JNum l) = nf l"
| "pretty nf gap (JStr s) = quote_json s"
| "pretty nf gap (JArr vs) = (if vs = [] then js ''[]''
     else js ''['' @ newline_gap (gap + 2) @ join (js '','' @ newline_gap (gap + 2)) (map (pretty nf (gap + 2)) vs)
       @ newline_gap gap @ js '']'')"
| "pretty nf gap (JObj o') = (if o' = [] then js ''{}''
     else js ''{'' @ newline_gap (gap + 2) @ join (js '','' @ newline_gap (gap + 2)) (map (\<lambda>(k, t). quote_json k @ js '': '' @ t)
       (entries (map (\<lambda>(k, v). (k, pretty nf (gap + 2) v)) o'))) @ newline_gap gap @ js ''}'')"

definition stringify2 :: "(jsstring \<Rightarrow> jsstring) \<Rightarrow> json \<Rightarrow> jsstring" where
  "stringify2 nf v = pretty nf 0 v"

definition blank :: "jsstring \<Rightarrow> bool" where
  "blank w \<longleftrightarrow> (\<forall>c\<in>set w. is_json_ws c)"

lemma blank_newline_gap [simp]: "blank (newline_gap n)"
  by (auto simp: blank_def newline_gap_def spaces_def is_json_ws_def)

lemma skip_blank [simp]: "blank w \<Longrightarrow> skip (w @ s) = skip s"
  by (induction w) (auto simp: blank_def skip_def)

lemma skip_space [simp]: "skip (0x20 # s) = skip s"
  by (simp add: skip_def is_json_ws_def)

lemma je_join_ws:
  assumes "list_all2 reads ps vs" "vs \<noteq> []" "blank w" "blank w'"
  shows "je (join (js '','' @ w) ps @ w' @ jc CHR '']'' # r) = Some (vs, r)"
  using assms
proof (induction ps vs rule: list_all2_induct)
  case (Cons p ps v vs)
  have v: "jv (p @ x) = Some (v, x)" for x using Cons.hyps(1) by (simp add: reads_def)
  show ?case
  proof (cases ps)
    case Nil
    then have "vs = []" using Cons.hyps(2) by simp
    with Nil Cons.prems show ?thesis by (subst je_unfold) (simp add: v expect_Cons)
  next
    case ps: (Cons q qs)
    let ?X = "join (js '','' @ w) ps @ w' @ jc CHR '']'' # r"
    obtain y ws where vs: "vs = y # ws" "reads q y" using ps Cons.hyps(2) by (auto simp: list_all2_Cons1)
    then have "skip ?X = ?X"
      using join_hd [of ps "js '','' @ w"] ps by (intro skip_append) (auto simp: reads_def)
    moreover have "join (js '','' @ w) (p # ps) = p @ jc CHR '','' # w @ join (js '','' @ w) ps" using ps by simp
    ultimately show ?thesis
      using Cons.IH Cons.prems vs by (subst je_unfold) (simp add: v expect_Cons)
  qed
qed simp

definition member2 :: "jsstring \<times> jsstring \<Rightarrow> jsstring" where
  "member2 e = quote_json (fst e) @ js '': '' @ snd e"

lemma member2_shape: "member2 (k, t) @ r = quote # esc k @ quote # jc CHR '':'' # 0x20 # t @ r"
  by (simp add: member2_def quote_json_def)

lemma jm_join_ws:
  assumes "list_all2 (\<lambda>e f. fst e = fst f \<and> reads (snd e) (snd f)) es fs" "fs \<noteq> []" "blank w" "blank w'"
  shows "jm (join (js '','' @ w) (map member2 es) @ w' @ jc CHR ''}'' # r) = Some (fs, r)"
  using assms
proof (induction es fs rule: list_all2_induct)
  case (Cons e es f fs)
  obtain k t v where e: "e = (k, t)" "f = (k, v)" "reads t v" using Cons.hyps(1) by (cases e; cases f) auto
  have v: "skip (t @ x) = t @ x" "jv (t @ x) = Some (v, x)" for x
    using e(3) by (auto simp: reads_def intro: skip_append)
  show ?case
  proof (cases es)
    case Nil
    then have "fs = []" using Cons.hyps(2) by simp
    with Nil e Cons.prems show ?thesis by (subst jm_unfold) (simp add: member2_shape v jstr_esc expect_Cons)
  next
    case es: (Cons q qs)
    let ?X = "join (js '','' @ w) (map member2 es) @ w' @ jc CHR ''}'' # r"
    have "member2 q \<noteq> []" "hd (member2 q) = quote" by (simp_all add: member2_def quote_json_def)
    then have "skip ?X = ?X"
      using join_hd [of "map member2 es" "js '','' @ w"] es by (intro skip_append) auto
    moreover have "join (js '','' @ w) (map member2 (e # es)) = member2 e @ jc CHR '','' # w @ join (js '','' @ w) (map member2 es)"
      using es by simp
    moreover have "fs \<noteq> []" using es Cons.hyps(2) by auto
    ultimately show ?thesis
      using Cons.IH Cons.prems e by (subst jm_unfold) (simp add: member2_shape v jstr_esc expect_Cons)
  qed
qed simp

lemma reads_array_ws:
  assumes "list_all2 reads ps vs" "vs \<noteq> []" "blank w" "blank w'"
  shows "reads (js ''['' @ w @ join (js '','' @ w) ps @ w' @ js '']'') (JArr vs)"
proof -
  have "jv (jc CHR ''['' # w @ join (js '','' @ w) ps @ w' @ jc CHR '']'' # r) = Some (JArr vs, r)" for r
  proof -
    let ?X = "join (js '','' @ w) ps @ w' @ jc CHR '']'' # r"
    obtain p qs where ps: "ps = p # qs" using assms(1,2) by (cases ps) auto
    have "reads p (hd vs)" using ps assms by (auto simp: list_all2_Cons1)
    then have hd: "join (js '','' @ w) ps \<noteq> []" "\<not> is_json_ws (hd ?X)" "hd ?X \<noteq> jc CHR '']''"
      using join_hd [of ps "js '','' @ w"] ps by (auto simp: reads_def)
    then have "skip ?X = ?X" by (intro skip_append) auto
    moreover have "expect (jc CHR '']'') ?X = None" using hd(3) by (rule expect_None)
    ultimately show ?thesis
      using je_join_ws [OF assms, of r] assms(3) by (subst jv_array [OF refl]) (simp del: js_simps)
  qed
  then show ?thesis by (simp add: reads_def is_json_ws_def)
qed

lemma reads_object_ws:
  assumes "list_all2 (\<lambda>e f. fst e = fst f \<and> reads (snd e) (snd f)) es fs" "fs \<noteq> []" "blank w" "blank w'" "distinct (map fst fs)"
  shows "reads (js ''{'' @ w @ join (js '','' @ w) (map member2 es) @ w' @ js ''}'') (JObj fs)"
proof -
  have own: "own fs = fs" using fold_obj_put_new [of fs "[]"] assms(5) by (simp add: own_def)
  have "jv (jc CHR ''{'' # w @ join (js '','' @ w) (map member2 es) @ w' @ jc CHR ''}'' # r) = Some (JObj fs, r)" for r
  proof -
    let ?X = "join (js '','' @ w) (map member2 es) @ w' @ jc CHR ''}'' # r"
    obtain e es' where es: "es = e # es'" using assms(1,2) by (cases es) auto
    have "member2 e \<noteq> []" "hd (member2 e) = quote" by (simp_all add: member2_def quote_json_def)
    then have hd: "join (js '','' @ w) (map member2 es) \<noteq> []" "hd ?X = quote"
      using join_hd [of "map member2 es" "js '','' @ w"] es by auto
    then have "skip ?X = ?X" by (intro skip_append) auto
    moreover have "expect (jc CHR ''}'') ?X = None"
      using hd(2) by (intro expect_None) (simp add: quote_def)
    ultimately show ?thesis
      using jm_join_ws [OF assms(1-4), of r] own assms(3) by (subst jv_object [OF refl]) (simp del: js_simps)
  qed
  then show ?thesis by (simp add: reads_def is_json_ws_def)
qed

lemma reads_empty: "reads (js ''[]'') (JArr [])" "reads (js ''{}'') (JObj [])"
  using reads_array [of "[]" "[]"] reads_object [of "[]" "[]"] by simp_all

theorem reads_pretty: "wf_json v \<Longrightarrow> reads (pretty nf gap v) (in_order v)"
proof (induction v arbitrary: gap)
  case JNull
  then show ?case using reads_word by simp
next
  case (JBool b)
  then show ?case using reads_word by (cases b) simp_all
next
  case (JStr t)
  then show ?case by (simp add: reads_string)
next
  case (JArr vs)
  then have "list_all2 reads (map (pretty nf (gap + 2)) vs) (map in_order vs)"
    by (auto simp: list_all2_map1 list_all2_map2 list_all_iff intro!: list.rel_refl_strong)
  from reads_array_ws [OF this, of "newline_gap (gap + 2)" "newline_gap gap"] show ?case using reads_empty(1) by (simp del: js_simps)
next
  case (JObj o')
  have "reads (pretty nf (gap + 2) (snd e)) (in_order (snd e))" if "e \<in> set (entries o')" for e
    using JObj.IH [of e "snd e"] JObj.prems that by (cases e) (auto simp: list_all_iff)
  then have 1: "list_all2 (\<lambda>e f. fst e = fst f \<and> reads (snd e) (snd f))
      (map (\<lambda>(k, v). (k, pretty nf (gap + 2) v)) (entries o')) (map (\<lambda>(k, v). (k, in_order v)) (entries o'))"
    by (auto simp: list_all2_map1 list_all2_map2 case_prod_beta intro!: list.rel_refl_strong)
  have 2: "distinct (map fst (map (\<lambda>(k, v). (k, in_order v)) (entries o')))"
    using distinct_entries [of o'] JObj.prems by (simp add: comp_def case_prod_beta)
  show ?case
  proof (cases "o' = []")
    case True then show ?thesis using reads_empty(2) by (simp add: entries_Nil_iff [THEN iffD2, OF refl] del: js_simps)
  next
    case False
    then have "map (\<lambda>(k, v). (k, in_order v)) (entries o') \<noteq> []" by simp
    from reads_object_ws [OF 1 this _ _ 2, of "newline_gap (gap + 2)" "newline_gap gap"] False show ?thesis
      by (simp add: entries_map member2_def comp_def case_prod_beta del: js_simps)
  qed
qed simp

lemma JSON_parse_reads:
  assumes "reads p v"
  shows "JSON_parse p = Some v"
proof -
  have "jv (p @ []) = Some (v, [])" using assms by (simp only: reads_def)
  moreover have "skip p = p" using assms skip_append [of p "[]"] by (simp add: reads_def)
  moreover have "skip [] = []" by (simp add: skip_def)
  ultimately show ?thesis by (simp add: JSON_parse_jv)
qed

theorem JSON_parse_stringify2: "wf_json v \<Longrightarrow> JSON_parse (stringify2 nf v) = Some (in_order v)"
  unfolding stringify2_def by (rule JSON_parse_reads [OF reads_pretty])

end
