(* ===== verification/Kit.thy ===== *)
theory Kit
  imports Js_Pretty Js_Set
begin

text \<open>
  The shared widgets of the console (\<open>shared/ui/kit\<close>) that hold state or compute: the confirmation dialog, sorting and
  selection of tables, the pager, the masked value and the code editor. \<open>lc\<close> is \<open>localeCompare\<close> of the browser.
\<close>

section \<open>Confirmation dialog\<close>

record confirm_modal =
  cf_typed :: jsstring
  cf_pending :: bool

definition cf_busy :: "bool \<Rightarrow> confirm_modal \<Rightarrow> bool" where
  "cf_busy loading d \<longleftrightarrow> loading \<or> cf_pending d"

definition cf_matches :: "jsstring option \<Rightarrow> confirm_modal \<Rightarrow> bool" where
  "cf_matches confirmText d \<longleftrightarrow> confirmText = None \<or> Some (cf_typed d) = confirmText"

definition cf_opened :: "confirm_modal \<Rightarrow> confirm_modal" where
  "cf_opened d = d\<lparr>cf_typed := []\<rparr>"

text \<open>\<open>submit\<close> up to its await: whether \<open>onConfirm\<close> is called, and the dialog after it when it returned a promise or not.\<close>

definition cf_submit :: "jsstring option \<Rightarrow> bool \<Rightarrow> bool \<Rightarrow> confirm_modal \<Rightarrow> bool \<times> confirm_modal" where
  "cf_submit confirmText loading returns_promise d =
     (if \<not> cf_matches confirmText d \<or> cf_busy loading d then (False, d)
      else (True, if returns_promise then d\<lparr>cf_pending := True\<rparr> else d))"

text \<open>The promise settles: the dialog is closed on success only.\<close>

definition cf_settle :: "bool \<Rightarrow> confirm_modal \<Rightarrow> bool \<times> confirm_modal" where
  "cf_settle ok d = (ok, d\<lparr>cf_pending := False\<rparr>)"

datatype confirm_input = CfOpen | CfType jsstring | CfSubmit | CfSettle bool

text \<open>One dialog with an asynchronous \<open>onConfirm\<close>: the number of calls so far, and the dialog.\<close>

fun cf_step :: "jsstring option \<Rightarrow> confirm_input \<Rightarrow> nat \<times> confirm_modal \<Rightarrow> nat \<times> confirm_modal" where
  "cf_step ct CfOpen (n, d) = (n, cf_opened d)"
| "cf_step ct (CfType s) (n, d) = (n, d\<lparr>cf_typed := s\<rparr>)"
| "cf_step ct CfSubmit (n, d) = (case cf_submit ct False True d of (called, d') \<Rightarrow> (if called then n + 1 else n, d'))"
| "cf_step ct (CfSettle ok) (n, d) = (n, snd (cf_settle ok d))"

lemma cf_called: "fst (cf_submit ct l p d) \<Longrightarrow> (\<forall>s. ct = Some s \<longrightarrow> cf_typed d = s) \<and> \<not> cf_pending d"
  by (auto simp: cf_submit_def cf_matches_def cf_busy_def split: if_splits)

text \<open>While one call runs, no sequence of clicks and edits makes a second one.\<close>

lemma cf_no_second_call:
  assumes "cf_pending d" "\<forall>i\<in>set is. \<forall>ok. i \<noteq> CfSettle ok"
  shows "fst (fold (cf_step ct) is (n, d)) = n \<and> cf_pending (snd (fold (cf_step ct) is (n, d)))"
  using assms
proof (induction "is" arbitrary: d)
  case (Cons i "is")
  then show ?case by (cases i) (auto simp: cf_opened_def cf_submit_def cf_busy_def)
qed simp

section \<open>Sorting a table\<close>

datatype sort_dir = Asc | Desc

datatype cell = CNum int | CStr jsstring

definition cell_str :: "cell \<Rightarrow> jsstring" where
  "cell_str x = (case x of CNum n \<Rightarrow> dec_int n | CStr s \<Rightarrow> s)"

definition cell_cmp :: "(jsstring \<Rightarrow> jsstring \<Rightarrow> int) \<Rightarrow> cell \<Rightarrow> cell \<Rightarrow> int" where
  "cell_cmp lc x y = (case (x, y) of (CNum a, CNum b) \<Rightarrow> a - b | _ \<Rightarrow> lc (cell_str x) (cell_str y))"

record sort_state =
  so_key :: jsstring
  so_dir :: sort_dir

definition useSort :: "(jsstring \<Rightarrow> jsstring \<Rightarrow> int) \<Rightarrow> (jsstring \<Rightarrow> 'r \<Rightarrow> cell) \<Rightarrow> sort_state \<Rightarrow> 'r list \<Rightarrow> 'r list" where
  "useSort lc get st rows = sort_by (\<lambda>a b. let cmp = cell_cmp lc (get (so_key st) a) (get (so_key st) b) in
     if so_dir st = Asc then cmp else - cmp) rows"

definition sort_toggle :: "jsstring \<Rightarrow> sort_state \<Rightarrow> sort_state" where
  "sort_toggle k st = (if k = so_key st then st\<lparr>so_dir := (if so_dir st = Asc then Desc else Asc)\<rparr>
     else st\<lparr>so_key := k, so_dir := Asc\<rparr>)"

definition sort_prop_dir :: "jsstring \<Rightarrow> sort_state \<Rightarrow> sort_dir option" where
  "sort_prop_dir k st = (if k = so_key st then Some (so_dir st) else None)"

lemma useSort_rows: "mset (useSort lc get st rows) = mset rows"
  by (simp add: useSort_def)

lemma sort_toggle_twice: "sort_toggle k (sort_toggle k (sort_toggle k st)) = sort_toggle k st \<or> so_key st = k"
  by (cases st) (auto simp: sort_toggle_def)

text \<open>A column of numbers ends up in the order of the chosen direction.\<close>

lemma sort_by_num_dir:
  assumes "\<And>r. \<exists>n. get (so_key st) r = CNum n"
  shows "sorted_wrt (\<lambda>a b. \<exists>x y. get (so_key st) a = CNum x \<and> get (so_key st) b = CNum y \<and> (if so_dir st = Asc then x \<le> y else y \<le> x))
    (useSort lc get st rows)"
proof -
  define v where "v r = (case get (so_key st) r of CNum n \<Rightarrow> n | _ \<Rightarrow> 0)" for r
  have g: "get (so_key st) r = CNum (v r)" for r using assms [of r] by (auto simp: v_def)
  let ?c = "\<lambda>a b. if so_dir st = Asc then v a - v b else - (v a - v b)"
  have "comparator ?c" by unfold_locales auto
  then have "sorted_wrt (\<lambda>a b. ?c a b \<le> 0) (sort_by ?c rows)" by (rule comparator.sorted_sort_by)
  then show ?thesis
    by (auto simp: useSort_def g cell_cmp_def Let_def cong: if_cong elim: sorted_wrt_mono_rel [rotated])
qed

section \<open>Selection of rows and the pager\<close>

definition row_toggle :: "'a \<Rightarrow> 'a list \<Rightarrow> 'a list" where
  "row_toggle i s = (if set_has s i then set_delete i s else set_add i s)"

definition row_toggleAll :: "'a list \<Rightarrow> 'a list \<Rightarrow> 'a list" where
  "row_toggleAll all s = (let every = all \<noteq> [] \<and> list_all (set_has s) all in
     fold (if every then set_delete else set_add) all s)"

definition row_onPage :: "'a list \<Rightarrow> 'a list \<Rightarrow> nat" where
  "row_onPage all s = length (filter (set_has s) all)"

definition row_allChecked :: "'a list \<Rightarrow> 'a list \<Rightarrow> bool" where
  "row_allChecked all s \<longleftrightarrow> all \<noteq> [] \<and> row_onPage all s = length all"

definition row_someChecked :: "'a list \<Rightarrow> 'a list \<Rightarrow> bool" where
  "row_someChecked all s \<longleftrightarrow> 0 < row_onPage all s \<and> row_onPage all s < length all"

lemma row_handlers: "row_toggle = set_toggle" "row_toggleAll = set_toggle_all"
  by (auto simp: fun_eq_iff row_toggle_def set_toggle_def row_toggleAll_def set_toggle_all_def Let_def)

lemma length_filter_all: "length (filter P xs) = length xs \<longleftrightarrow> list_all P xs"
  by (metis filter_id_conv length_filter_less list_all_iff nat_less_le)

text \<open>Toggling the header checkbox flips what it shows.\<close>

lemma header_checkbox: "all \<noteq> [] \<Longrightarrow> row_allChecked all (row_toggleAll all s) \<longleftrightarrow> \<not> row_allChecked all s"
  by (auto simp: row_allChecked_def row_onPage_def length_filter_all row_handlers set_toggle_laws list_all_iff neq_Nil_conv)

definition pager_pages :: "nat \<Rightarrow> nat \<Rightarrow> nat" where
  "pager_pages perPage n = max 1 ((n + perPage - 1) div perPage)"

definition TablePager :: "nat \<Rightarrow> nat \<Rightarrow> nat \<Rightarrow> (nat \<times> nat \<times> nat \<times> nat) option" where
  "TablePager page perPage size_all = (if size_all \<le> perPage then None
     else Some ((page - 1) * perPage + 1, min (page * perPage) size_all, size_all, pager_pages perPage size_all))"

text \<open>The ranges of the pages cover every row once.\<close>

lemma pager_covers:
  assumes "0 < perPage" "1 \<le> k" "k \<le> size_all"
  shows "\<exists>!page. 1 \<le> page \<and> page \<le> pager_pages perPage size_all \<and> (page - 1) * perPage + 1 \<le> k \<and> k \<le> min (page * perPage) size_all"
proof
  let ?p = "(k - 1) div perPage + 1"
  have q: "(k - 1) div perPage * perPage + 1 \<le> k" "k \<le> ((k - 1) div perPage + 1) * perPage"
    using div_times_less_eq_dividend [of "k - 1" perPage] dividend_less_div_times [OF assms(1), of "k - 1"] assms(2)
    by (linarith, simp add: add.commute)
  have "(k - 1) div perPage \<le> (size_all - 1) div perPage" using assms by (intro div_le_mono) simp
  moreover have "(size_all + perPage - 1) div perPage = (size_all - 1) div perPage + 1"
  proof -
    have "size_all + perPage - 1 = (size_all - 1) + perPage" using assms by simp
    then show ?thesis using assms(1) by (simp only: div_add_self2)
  qed
  ultimately show "1 \<le> ?p \<and> ?p \<le> pager_pages perPage size_all \<and> (?p - 1) * perPage + 1 \<le> k \<and> k \<le> min (?p * perPage) size_all"
    unfolding pager_pages_def add_diff_cancel_right' min.bounded_iff le_max_iff_disj using q assms(3) by linarith
  fix page assume "1 \<le> page \<and> page \<le> pager_pages perPage size_all \<and> (page - 1) * perPage + 1 \<le> k \<and> k \<le> min (page * perPage) size_all"
  then obtain m where m: "page = Suc m" "m * perPage + 1 \<le> k" "k \<le> Suc m * perPage" by (cases page) auto
  have "perPage * m \<le> k - 1" "k - 1 < perPage * Suc m" using m(2,3) assms(2) by (simp_all add: mult.commute)
  then have "(k - 1) div perPage = m" by (rule div_nat_eqI)
  then show "page = ?p" using m(1) by simp
qed

section \<open>Masked value\<close>

record reveal =
  rv_shown :: bool
  rv_text :: jsstring
  rv_left :: nat

text \<open>\<open>value.replace(/\s+/g, ' ')\<close>\<close>

fun flat :: "jsstring \<Rightarrow> jsstring" where
  "flat [] = []"
| "flat (c # s) = (if is_ws c then (if s \<noteq> [] \<and> is_ws (hd s) then flat s else 0x20 # flat s) else c # flat s)"

definition scrambled :: "(nat \<Rightarrow> jschar) \<Rightarrow> jsstring \<Rightarrow> nat \<Rightarrow> jsstring" where
  "scrambled glyph real resolved = map (\<lambda>(i, ch). if i < resolved \<or> is_ws ch then ch else glyph i) (zip [0..<length real] real)"

definition mask_of :: "nat \<Rightarrow> jsstring \<Rightarrow> jsstring" where
  "mask_of maskLength v = replicate (min (max (length (flat v)) 1) maskLength) bullet"

datatype reveal_input = RvValue | RvClick | RvTick | RvFrame "(nat \<Rightarrow> jschar) option" nat

text \<open>Clicking the eye starts the animation, or puts the text at once, and starts the countdown. A frame of the animation
  either is the last one (no glyphs) or shows the first \<open>resolved\<close> characters.\<close>

fun reveal_step :: "nat \<Rightarrow> bool \<Rightarrow> jsstring \<Rightarrow> reveal_input \<Rightarrow> reveal \<Rightarrow> reveal" where
  "reveal_step autoMask animated v RvValue r = r\<lparr>rv_shown := False\<rparr>"
| "reveal_step autoMask animated v RvClick r =
     (if rv_shown r then r\<lparr>rv_shown := False\<rparr>
      else r\<lparr>rv_shown := True, rv_text := (if \<not> animated \<or> flat v = [] then flat v else rv_text r),
             rv_left := (if autoMask = 0 then rv_left r else autoMask)\<rparr>)"
| "reveal_step autoMask animated v RvTick r =
     (if \<not> rv_shown r \<or> autoMask = 0 then r
      else if rv_left r \<le> 1 then r\<lparr>rv_shown := False, rv_left := autoMask\<rparr> else r\<lparr>rv_left := rv_left r - 1\<rparr>)"
| "reveal_step autoMask animated v (RvFrame g resolved) r =
     (if rv_shown r \<and> animated
      then r\<lparr>rv_text := (case g of None \<Rightarrow> flat v | Some glyph \<Rightarrow> scrambled glyph (flat v) resolved)\<rparr> else r)"

definition reveal_view :: "nat \<Rightarrow> jsstring \<Rightarrow> reveal \<Rightarrow> jsstring" where
  "reveal_view maskLength v r = (if rv_shown r then rv_text r else mask_of maskLength v)"

text \<open>While it is hidden the view depends on the length of the value only, and on that only up to \<open>maskLength\<close>.\<close>

lemma hidden_view:
  assumes "\<not> rv_shown r" "maskLength \<le> length (flat v)" "maskLength \<le> length (flat u)"
  shows "reveal_view maskLength v r = reveal_view maskLength u r"
  using assms by (simp add: reveal_view_def mask_of_def min_def max_def)

lemma ticks_count_down:
  assumes "rv_shown r" "0 < autoMask" "k < rv_left r"
  shows "rv_shown ((reveal_step autoMask animated v RvTick ^^ k) r) \<and> rv_left ((reveal_step autoMask animated v RvTick ^^ k) r) = rv_left r - k"
  using assms by (induction k) auto

text \<open>A value that was shown is hidden again after \<open>autoMask\<close> ticks, and not before.\<close>

lemma auto_mask:
  assumes "\<not> rv_shown r" "0 < autoMask"
  shows "rv_shown ((reveal_step autoMask animated v RvTick ^^ k) (reveal_step autoMask animated v RvClick r)) \<longleftrightarrow> k < autoMask"
proof -
  define t where "t = reveal_step autoMask animated v RvTick"
  define q where "q = reveal_step autoMask animated v RvClick r"
  have q: "rv_shown q" "rv_left q = autoMask" using assms by (simp_all add: q_def)
  have down: "k < autoMask \<Longrightarrow> rv_shown ((t ^^ k) q) \<and> rv_left ((t ^^ k) q) = autoMask - k" for k
    using ticks_count_down [OF q(1) assms(2), of k animated v] q(2) by (simp add: t_def)
  have hidden: "\<not> rv_shown x \<Longrightarrow> t x = x" "rv_left x \<le> 1 \<Longrightarrow> \<not> rv_shown (t x)" for x
    using assms(2) by (auto simp: t_def)
  obtain m where m: "autoMask = Suc m" using assms(2) by (cases autoMask) auto
  have "\<not> rv_shown ((t ^^ autoMask) q)" using hidden(2) [of "(t ^^ m) q"] down [of m] by (simp add: m)
  then have "\<not> rv_shown ((t ^^ j) ((t ^^ autoMask) q))" for j
    by (induction j) (simp_all add: hidden(1))
  then have "\<not> rv_shown ((t ^^ (j + autoMask)) q)" for j by (simp only: funpow_add comp_apply not_False_eq_True)
  then show ?thesis using down [of k] le_Suc_ex [of autoMask k] unfolding t_def [symmetric] q_def [symmetric]
    by (metis add.commute not_le)
qed

lemma length_scrambled: "length (scrambled g s n) = length s"
  by (simp add: scrambled_def)

lemma scrambled_all: "length s \<le> n \<Longrightarrow> scrambled g s n = s"
  by (auto simp: scrambled_def intro!: nth_equalityI)

text \<open>The text of the animation is not cleared: a new value that is revealed shows the old one until the first frame.\<close>

lemma revealed_value_is_stale:
  assumes "\<not> rv_shown r" "flat v2 \<noteq> []"
  shows "reveal_view ml v2 (reveal_step am True v2 RvClick (reveal_step am True v2 RvValue
     (reveal_step am True v1 (RvFrame None n) (reveal_step am True v1 RvClick r)))) = flat v1"
  using assms by (simp add: reveal_view_def)

section \<open>Code editor\<close>

record json_check =
  jk_line :: "nat option"
  jk_message :: "jsstring option"
  jk_ok :: bool

definition number_after :: "string \<Rightarrow> jsstring \<Rightarrow> nat option" where
  "number_after word msg = Option.bind (exec (Seq (Lit (js word)) (Grp 1 (Plus (Cls is_digit)))) msg)
     (\<lambda>(_, _, _, c). map_option undec (c 1))"

definition cut_first :: "re \<Rightarrow> jsstring \<Rightarrow> jsstring" where
  "cut_first r s = (case exec r s of None \<Rightarrow> s | Some (b, w, a, c) \<Rightarrow> rev b @ a)"

definition lines_of :: "jsstring \<Rightarrow> nat" where
  "lines_of s = length (split_on 0x0A s)"

text \<open>\<open>msg\<close> is the message of the error that \<open>JSON.parse\<close> throws, which each engine words in its own way.\<close>

definition checkJson :: "(jsstring \<Rightarrow> jsstring) \<Rightarrow> jsstring \<Rightarrow> json_check" where
  "checkJson msg s =
     (if trim s = [] \<or> JSON_parse s \<noteq> None then \<lparr>jk_line = None, jk_message = None, jk_ok = True\<rparr>
      else let m = msg s;
               line = (case number_after ''line '' m of Some n \<Rightarrow> n | None \<Rightarrow>
                 (case number_after ''position '' m of Some p \<Rightarrow> lines_of (take p s) | None \<Rightarrow> lines_of s));
               shown = take 80 (trim (cut_first (Seq (Lit (js ''(line'')) (Seq (Star (Cls (\<lambda>c. \<not> is_line_terminator c))) (Lit (js '')''))))
                 (cut_first (Seq (Lit (js '' in JSON'')) (Seq (Star (Cls (\<lambda>c. \<not> is_line_terminator c))) Eol)) m)))
           in \<lparr>jk_line = Some line, jk_message = Some shown, jk_ok = False\<rparr>)"

datatype tok_cls = ClsKey | ClsStr | ClsPunc | ClsNum | ClsLit

type_synonym token = "tok_cls option \<times> jsstring"

text \<open>\<open>/("(?:\\.|[^"\\])*")(\s*:)?|(-?\d+(?:\.\d+)?(?:[eE][+-]?\d+)?)|\b(true|false|null)\b|([{}[\],])/g\<close>\<close>

definition json_str_re :: re where
  "json_str_re = Seq (Lit [quote]) (Seq (Star (Alt (Seq (Lit [backslash]) (Cls (\<lambda>c. \<not> is_line_terminator c)))
     (Cls (\<lambda>c. c \<noteq> quote \<and> c \<noteq> backslash)))) (Lit [quote]))"

definition json_num_re :: re where
  "json_num_re = Seq (Opt (Cls (one_of ''-''))) (Seq (Plus (Cls is_digit)) (Seq (Opt (Seq (Lit (js ''.'')) (Plus (Cls is_digit))))
     (Opt (Seq (Cls (one_of ''eE'')) (Seq (Opt (Cls (one_of ''+-''))) (Plus (Cls is_digit)))))))"

definition json_word_re :: re where
  "json_word_re = Alt (Lit (js ''true'')) (Alt (Lit (js ''false'')) (Lit (js ''null'')))"

definition colon_re :: re where
  "colon_re = Seq (Star (Cls is_ws)) (Lit (js '':''))"

definition TOKEN :: re where
  "TOKEN = Alt (Seq (Grp 1 json_str_re) (Opt (Grp 2 colon_re)))
     (Alt (Grp 3 json_num_re) (Alt (Seq WordB (Seq (Grp 4 json_word_re) WordB)) (Grp 5 (Cls (one_of ''{}[],'')))))"

definition tok_of :: "captures \<Rightarrow> token list" where
  "tok_of c =
     (if truthy_str (c 1) then (if truthy_str (c 2) then Some ClsKey else Some ClsStr, the (c 1)) # (if truthy_str (c 2) then [(Some ClsPunc, the (c 2))] else [])
      else if truthy_str (c 3) then [(Some ClsNum, the (c 3))]
      else if truthy_str (c 4) then [(Some ClsLit, the (c 4))]
      else [(Some ClsPunc, nullish (c 5) [])])"

definition text_tok :: "jsstring \<Rightarrow> token list" where
  "text_tok s = (if s = [] then [] else [(None, s)])"

text \<open>The loop over \<open>matchAll\<close>; no match of the pattern is empty (\<open>TOKEN_matches\<close>), so the text left always gets shorter.\<close>

function tokenize_from :: "jsstring \<Rightarrow> jsstring \<Rightarrow> token list" where
  "tokenize_from b a = (case exec_at TOKEN b a of
      None \<Rightarrow> text_tok a
    | Some (b', w, a', c) \<Rightarrow> text_tok (rev (take (length b' - length b) b')) @ tok_of c @
        (if length a' < length a then tokenize_from (rev w @ b') a' else text_tok a'))"
  by pat_completeness auto

termination
  by (relation "measure (\<lambda>(b, a). length a)") auto

declare tokenize_from.simps [simp del]

definition tokenize :: "jsstring \<Rightarrow> token list" where
  "tokenize s = tokenize_from [] s"

lemma consumes_Seq2:
  assumes "consumes s"
  shows "consumes (Seq r s)"
  unfolding consumes_def
proof (intro allI impI)
  fix b a b' a' :: jsstring and c c' :: captures
  assume "(b', a', c') \<in> set (matches (Seq r s) (b, a, c))"
  then obtain k1 k2 k3 where k: "(k1, k2, k3) \<in> set (matches r (b, a, c))" "(b', a', c') \<in> set (matches s (k1, k2, k3))"
    by auto
  then show "length a' < length a"
    using assms advances_length [OF matches_advances [OF k(1)]] unfolding consumes_def by (meson less_le_trans)
qed

lemma consumes_parts: "consumes json_str_re" "consumes json_num_re" "consumes json_word_re" "consumes colon_re"
  unfolding json_str_re_def json_num_re_def json_word_re_def colon_re_def Plus_def
  by (simp_all add: consumes_Seq consumes_Seq2 consumes_Lit consumes_Alt del: matches.simps Lit.simps)

lemma groups_parts: "re_groups json_str_re = []" "re_groups json_num_re = []" "re_groups json_word_re = []" "re_groups colon_re = []"
  by (simp_all add: json_str_re_def json_num_re_def json_word_re_def colon_re_def Plus_def Opt_def)

lemma Grp_step:
  assumes "(b', a', c') \<in> set (matches (Grp n r) (b, a, c))" "re_groups r = []" "consumes r"
  shows "\<exists>w. w \<noteq> [] \<and> a = w @ a' \<and> b' = rev w @ b \<and> c' = c(n \<mapsto> w)"
proof -
  obtain c1 where c1: "(b', a', c1) \<in> set (matches r (b, a, c))" "c' = c1(n \<mapsto> rev (take (length b' - length b) b'))"
    using assms(1) by auto
  obtain w where w: "a = w @ a'" "b' = rev w @ b" "c1 = c"
    using matches_advances [OF c1(1)] assms(2) by (auto simp: advances_def)
  moreover have "length a' < length a" using assms(3) c1(1) unfolding consumes_def by blast
  ultimately show ?thesis using c1(2) by auto
qed

text \<open>Every token is a non-empty text, and its parts are the text.\<close>

lemma TOKEN_matches:
  assumes "(rev w @ b, a, c) \<in> set (matches TOKEN (b, w @ a, Map.empty))"
  shows "w \<noteq> [] \<and> concat (map snd (tok_of c)) = w"
proof -
  let ?m = "(b, w @ a, Map.empty)" and ?m' = "(rev w @ b, a, c)"
  consider "?m' \<in> set (matches (Seq (Grp 1 json_str_re) (Opt (Grp 2 colon_re))) ?m)" | "?m' \<in> set (matches (Grp 3 json_num_re) ?m)"
    | "?m' \<in> set (matches (Seq WordB (Seq (Grp 4 json_word_re) WordB)) ?m)" | "?m' \<in> set (matches (Grp 5 (Cls (one_of ''{}[],''))) ?m)"
    using assms unfolding TOKEN_def matches.simps(4) set_append Un_iff by blast
  then show ?thesis
  proof cases
    case 1
    then obtain k1 k2 k3 where k: "(k1, k2, k3) \<in> set (matches (Grp 1 json_str_re) ?m)"
        "?m' \<in> set (matches (Opt (Grp 2 colon_re)) (k1, k2, k3))"
      unfolding matches.simps(3) by (auto simp del: matches.simps)
    obtain u where u: "u \<noteq> []" "w @ a = u @ k2" "k1 = rev u @ b" "k3 = [1 \<mapsto> u]"
      using Grp_step [OF k(1) groups_parts(1) consumes_parts(1)] by auto
    from k(2) consider "?m' = (k1, k2, k3)" | "?m' \<in> set (matches (Grp 2 colon_re) (k1, k2, k3))"
      unfolding Opt_def matches.simps(1,4) set_append Un_iff by (auto simp del: matches.simps)
    then show ?thesis
    proof cases
      case 1 then show ?thesis using u by (auto simp: tok_of_def)
    next
      case 2
      from Grp_step [OF 2 groups_parts(4) consumes_parts(4)]
      obtain v where "v \<noteq> []" "k2 = v @ a" "rev w @ b = rev v @ k1" "c = k3(2 \<mapsto> v)" by auto
      then show ?thesis using u by (auto simp: tok_of_def)
    qed
  next
    case 2 from Grp_matches [OF this groups_parts(2) consumes_parts(2)] show ?thesis by (auto simp: tok_of_def)
  next
    case 3
    then have "?m' \<in> set (matches (Grp 4 json_word_re) ?m)"
      unfolding matches.simps(3,9) set_concat set_map by (auto simp del: matches.simps split: if_splits)
    from Grp_matches [OF this groups_parts(3) consumes_parts(3)] show ?thesis by (auto simp: tok_of_def)
  next
    case 4 from Grp_matches [OF this] show ?thesis by (auto simp: tok_of_def)
  qed
qed

lemma exec_TOKEN:
  assumes "exec_at TOKEN b a = Some (b', w, a', c)"
  shows "\<exists>skipped. a = skipped @ w @ a' \<and> b' = rev skipped @ b \<and> w \<noteq> [] \<and> concat (map snd (tok_of c)) = w"
  using exec_at_result [OF assms] TOKEN_matches by metis

lemma text_tok_text [simp]: "concat (map snd (text_tok s)) = s"
  by (simp add: text_tok_def)

text \<open>The layer of colours shows exactly the text of the editor behind it.\<close>

lemma tokenize_from_text: "concat (map snd (tokenize_from b a)) = a"
proof (induction b a rule: tokenize_from.induct)
  case (1 b a)
  show ?case
  proof (cases "exec_at TOKEN b a")
    case None
    then show ?thesis by (subst tokenize_from.simps) simp
  next
    case (Some m)
    obtain b' w a' c where m: "m = (b', w, a', c)" by (cases m)
    obtain sk where s: "a = sk @ w @ a'" "b' = rev sk @ b" "w \<noteq> []" "concat (map snd (tok_of c)) = w"
      using exec_TOKEN Some m by blast
    then have "length a' < length a" by simp
    then have "concat (map snd (tokenize_from (rev w @ b') a')) = a'" using 1 [OF Some m [symmetric] refl refl] by simp
    then show ?thesis using Some m s by (subst tokenize_from.simps) simp
  qed
qed

lemma tokenize_text: "concat (map snd (tokenize s)) = s"
  by (simp add: tokenize_def tokenize_from_text)

text \<open>The format and minify buttons. \<open>Inl\<close> is the toast that says to fix the text first; \<open>Inr None\<close> is the exception of
  \<open>JSON.parse\<close>, which nothing catches.\<close>

definition code_rewrite :: "(jsstring \<Rightarrow> jsstring) \<Rightarrow> (jsstring \<Rightarrow> jsstring) \<Rightarrow> bool \<Rightarrow> jsstring \<Rightarrow> string + jsstring option" where
  "code_rewrite msg nf prettily s = (if \<not> jk_ok (checkJson msg s) then Inl ''code.cannotFormat''
     else Inr (map_option (\<lambda>v. if prettily then stringify2 nf v else stringify nf v) (JSON_parse s)))"

definition code_tab :: "nat \<Rightarrow> nat \<Rightarrow> jsstring \<Rightarrow> jsstring \<times> nat" where
  "code_tab selectionStart selectionEnd s = (take selectionStart s @ js ''  '' @ drop selectionEnd s, selectionStart + 2)"

text \<open>Both buttons keep the value.\<close>

lemma rewrite_keeps_value:
  assumes "JSON_parse s = Some v" "wf_json v"
  shows "\<exists>t. code_rewrite msg nf p s = Inr (Some t) \<and> JSON_parse t = Some (in_order v)"
  using assms JSON_parse_stringify [OF assms(2)] JSON_parse_stringify2 [OF assms(2)]
  by (simp add: code_rewrite_def checkJson_def)

text \<open>Blank text counts as valid, and then the button throws.\<close>

lemma JSON_parse_blank: "JSON_parse [] = None"
  by (simp add: JSON_parse_def skip_def jval.simps(2) expect_def word_lit_def num_lit_def exec_def NUM_RE_def exec_at.simps Plus_def Opt_def)

lemma rewrite_blank_throws: "jk_ok (checkJson msg []) \<and> code_rewrite msg nf p [] = Inr None"
  by (simp add: checkJson_def code_rewrite_def JSON_parse_blank)

end
