(* ===== verification/Wrapping.thy ===== *)
theory Wrapping
  imports Durations Kit Api_Client
begin

text \<open>
  Response wrapping (\<open>pages/dashboard/wrapping\<close>): the capsules this tab knows, the handlers of the three panels and of the
  list of live capsules, and what the stage shows. \<open>parse\<close> is \<open>Date.parse\<close>, whose result is \<open>NaN\<close> for a text it does not
  read. A capsule's times are numbers because of that. Texts of the interface are their keys.
\<close>

section \<open>Capsules\<close>

datatype wstatus = Active | Expired | Missing | Revoked | Used

datatype wop = OpLookup | OpRevoke | OpUnwrap | OpWrap

datatype wtab = TabLook | TabUnwrap | TabWrap

record capsule =
  cc_created :: "num option"
  cc_delivered :: "num option"
  cc_expires :: "num option"
  cc_revokedAt :: "num option"
  cc_status :: wstatus
  cc_token :: jsstring
  cc_ttl :: "num option"
  cc_usedAt :: "num option"

record wproblem =
  wp_message :: "jsstring option"
  wp_status :: "nat option"

fun OP_PATH :: "wop \<Rightarrow> string" where
  "OP_PATH OpLookup = ''sys/wrapping/lookup''"
| "OP_PATH OpRevoke = ''sys/wrapping/revoke''"
| "OP_PATH OpUnwrap = ''sys/wrapping/unwrap''"
| "OP_PATH OpWrap = ''sys/wrapping/wrap''"

fun STATUS_TONE :: "wstatus \<Rightarrow> char" where
  "STATUS_TONE Active = CHR ''g''"
| "STATUS_TONE Expired = CHR ''r''"
| "STATUS_TONE Missing = CHR ''n''"
| "STATUS_TONE Revoked = CHR ''r''"
| "STATUS_TONE Used = CHR ''b''"

text \<open>\<open>x > y\<close> on numbers, false with \<open>NaN\<close>.\<close>

definition num_gt :: "num \<Rightarrow> num \<Rightarrow> bool" where
  "num_gt x y \<longleftrightarrow> num_le y x \<and> \<not> num_le x y"

definition statusOf :: "capsule option \<Rightarrow> num \<Rightarrow> wstatus option" where
  "statusOf c now = (case c of None \<Rightarrow> None | Some c \<Rightarrow>
     Some (if cc_status c = Active \<and> (case cc_expires c of Some e \<Rightarrow> num_gt now e | None \<Rightarrow> False) then Expired else cc_status c))"

record wrapped_capsule =
  wc_accessor :: jsstring
  wc_creation_time :: jsstring
  wc_creation_ttl :: num
  wc_creator_name :: "jsstring option"
  wc_creation_path :: "jsstring option"
  wc_expires_at :: jsstring
  wc_namespace :: jsstring
  wc_size :: nat

definition new_capsule :: "jsstring \<Rightarrow> capsule" where
  "new_capsule token = \<lparr>cc_created = None, cc_delivered = None, cc_expires = None, cc_revokedAt = None, cc_status = Active,
     cc_token = token, cc_ttl = None, cc_usedAt = None\<rparr>"

definition fromServer :: "(jsstring \<Rightarrow> num) \<Rightarrow> wrapped_capsule \<Rightarrow> capsule" where
  "fromServer parse c = (new_capsule [])\<lparr>cc_created := Some (parse (wc_creation_time c)),
     cc_expires := Some (parse (wc_expires_at c)), cc_ttl := Some (wc_creation_ttl c)\<rparr>"

definition short_token :: "jsstring \<Rightarrow> jsstring" where
  "short_token t = (if 20 < length t then take 14 t @ ellipsis @ drop (length t - 4) t else t)"

fun problemOf :: "failure \<Rightarrow> wproblem" where
  "problemOf (AxiosError r m) = \<lparr>wp_message = (case Option.bind r rs_error of Some e \<Rightarrow> Some e | None \<Rightarrow> if r = None then Some m else None),
     wp_status = map_option rs_status r\<rparr>"
| "problemOf (OtherError m) = \<lparr>wp_message = Some m, wp_status = None\<rparr>"
| "problemOf (Thrown x) = \<lparr>wp_message = None, wp_status = None\<rparr>"

datatype template_key = TplApi | TplDb | TplOtp

fun TEMPLATES :: "template_key \<Rightarrow> json" where
  "TEMPLATES TplApi = JObj [(js ''api_key'', JStr (js ''<api-key>'')), (js ''scope'', JStr (js ''<scope>'')), (js ''service'', JStr (js ''<service-name>''))]"
| "TEMPLATES TplDb = JObj [(js ''db_host'', JStr (js ''<host>'')), (js ''db_password'', JStr (js ''<password>'')), (js ''db_port'', JNum (js ''5432'')), (js ''db_user'', JStr (js ''<user>''))]"
| "TEMPLATES TplOtp = JObj [(js ''force_change'', JBool True), (js ''one_time_password'', JStr (js ''<one-time-password>'')), (js ''user'', JStr (js ''<user>''))]"

definition to_fixed0 :: "rat \<Rightarrow> jsstring" where
  "to_fixed0 x = dec (nat \<lfloor>x + 1 / 2\<rfloor>)"

definition fmtBytes_wrap :: "nat \<Rightarrow> jsstring \<Rightarrow> jsstring" where
  "fmtBytes_wrap n u = (if n < 1024 then dec n @ js '' '' @ u
     else (if n < 10240 then to_fixed1 else to_fixed0) (of_nat n / 1024) @ js '' K'' @ u)"

section \<open>The page\<close>

datatype stage_state = Breaking | Dissolved | Forbidden | Idle | Low | Sealed | Sealing | Void

record wpick =
  pk_gone :: "wstatus option"
  pk_goneAt :: "num option"
  pk_snap :: wrapped_capsule

record wrapping_page =
  wr_capsules :: "capsule jsobj"
  wr_cur :: "jsstring option"
  wr_now :: num
  wr_noted :: "jsstring list"
  wr_pick :: "wpick option"
  wr_tab :: wtab
  wr_look :: jsstring
  wr_unwrap :: jsstring
  wr_problems :: "wop \<Rightarrow> wproblem option"
  wr_override :: "stage_state option"
  wr_toasts :: "string list"

definition capsule_of :: "wrapping_page \<Rightarrow> jsstring \<Rightarrow> capsule option" where
  "capsule_of p token = map_of (wr_capsules p) token"

definition upsert :: "jsstring \<Rightarrow> (capsule \<Rightarrow> capsule) \<Rightarrow> wrapping_page \<Rightarrow> wrapping_page" where
  "upsert token patch p = p\<lparr>wr_capsules := obj_put token ((patch (nullish (capsule_of p token) (new_capsule token)))\<lparr>cc_token := token\<rparr>) (wr_capsules p)\<rparr>"

definition setCur :: "jsstring option \<Rightarrow> wrapping_page \<Rightarrow> wrapping_page" where
  "setCur c p = p\<lparr>wr_cur := c, wr_pick := (if truthy_str c then None else wr_pick p)\<rparr>"

text \<open>The effect that reports an expired capsule once.\<close>

definition note_one :: "capsule \<Rightarrow> wrapping_page \<Rightarrow> wrapping_page" where
  "note_one c p = (if statusOf (Some c) (wr_now p) = Some Expired \<and> cc_status c = Active \<and> \<not> set_has (wr_noted p) (cc_token c)
     then p\<lparr>wr_noted := set_add (cc_token c) (wr_noted p), wr_toasts := wr_toasts p @ [''toast.expired'']\<rparr> else p)"

definition note_expired :: "wrapping_page \<Rightarrow> wrapping_page" where
  "note_expired p = fold note_one (map snd (entries (wr_capsules p))) p"

definition clearProblem :: "wop \<Rightarrow> wrapping_page \<Rightarrow> wrapping_page" where
  "clearProblem op p = p\<lparr>wr_problems := (wr_problems p)(op := None)\<rparr>"

definition setProblem :: "wop \<Rightarrow> wproblem \<Rightarrow> wrapping_page \<Rightarrow> wrapping_page" where
  "setProblem op pr p = p\<lparr>wr_problems := (wr_problems p)(op \<mapsto> pr)\<rparr>"

definition wtoast :: "string \<Rightarrow> wrapping_page \<Rightarrow> wrapping_page" where
  "wtoast k p = p\<lparr>wr_toasts := wr_toasts p @ [k]\<rparr>"

definition wfailed :: "jsstring \<Rightarrow> nat option \<Rightarrow> wrapping_page \<Rightarrow> wrapping_page" where
  "wfailed token st p =
     (let not_used = (\<forall>c\<in>set_option (capsule_of p token). cc_status c \<noteq> Used) in
      if st = Some 404 then (if not_used then upsert token (\<lambda>c. c\<lparr>cc_status := Missing\<rparr>) p else p)
      else if st = Some 410 then (if not_used then upsert token (\<lambda>c. c\<lparr>cc_status := Expired\<rparr>) p else p)
      else p)"

definition wgoto :: "wtab \<Rightarrow> jsstring option \<Rightarrow> wrapping_page \<Rightarrow> wrapping_page" where
  "wgoto to token p = (let p1 = p\<lparr>wr_tab := to\<rparr> in
     if truthy_str token
     then setCur token (case to of TabWrap \<Rightarrow> p1 | TabLook \<Rightarrow> p1\<lparr>wr_look := nullish token []\<rparr> | TabUnwrap \<Rightarrow> p1\<lparr>wr_unwrap := nullish token []\<rparr>)
     else p1)"

definition stage_seal :: "bool \<Rightarrow> wrapping_page \<Rightarrow> wrapping_page" where
  "stage_seal on p = p\<lparr>wr_override := (if on then Some Sealing else None)\<rparr>"

text \<open>The two timers of the animation are inputs of the machine below.\<close>

definition playUnwrap :: "bool \<Rightarrow> wrapping_page \<Rightarrow> wrapping_page" where
  "playUnwrap reduced p = (if reduced then p else p\<lparr>wr_override := Some Breaking\<rparr>)"

definition TABS :: "wtab list" where
  "TABS = [TabWrap, TabLook, TabUnwrap]"

definition tab_index :: "wtab \<Rightarrow> nat" where
  "tab_index t = (case t of TabWrap \<Rightarrow> 0 | TabLook \<Rightarrow> 1 | TabUnwrap \<Rightarrow> 2)"

definition onTabKey :: "string \<Rightarrow> wrapping_page \<Rightarrow> wrapping_page" where
  "onTabKey key p =
     (let i = tab_index (wr_tab p);
          n = (if key = ''ArrowRight'' then Some ((i + 1) mod 3) else if key = ''ArrowLeft'' then Some ((i + 3 - 1) mod 3)
               else if key = ''Home'' then Some 0 else if key = ''End'' then Some (3 - 1) else None) in
      case n of None \<Rightarrow> p | Some n \<Rightarrow> p\<lparr>wr_tab := TABS ! n\<rparr>)"

section \<open>What the stage shows\<close>

definition stage_capsule :: "(jsstring \<Rightarrow> num) \<Rightarrow> wrapped_capsule list \<Rightarrow> wrapping_page \<Rightarrow> capsule option" where
  "stage_capsule parse live p =
     (if truthy_str (wr_cur p) then capsule_of p (nullish (wr_cur p) [])
      else case wr_pick p of None \<Rightarrow> None | Some k \<Rightarrow>
        (case find (\<lambda>c. wc_accessor c = wc_accessor (pk_snap k)) live of
           Some l \<Rightarrow> Some (fromServer parse l)
         | None \<Rightarrow>
             let c = fromServer parse (pk_snap k);
                 st = (case pk_gone k of Some g \<Rightarrow> g | None \<Rightarrow> if num_gt (wr_now p) (nullish (cc_expires c) (Fin 0)) then Expired else Missing);
                 c1 = c\<lparr>cc_status := st\<rparr>
             in Some (if pk_gone k = Some Revoked then c1\<lparr>cc_revokedAt := pk_goneAt k\<rparr> else c1)))"

definition stage_left :: "num \<Rightarrow> capsule option \<Rightarrow> num" where
  "stage_left now c = (case Option.bind c cc_expires of Some e \<Rightarrow> num_sub e now | None \<Rightarrow> Fin 0)"

definition stage_total :: "capsule option \<Rightarrow> num" where
  "stage_total c = (case (Option.bind c cc_expires, Option.bind c cc_created) of (Some e, Some b) \<Rightarrow> num_sub e b | _ \<Rightarrow> Fin 0)"

definition stage_low :: "num \<Rightarrow> num \<Rightarrow> bool" where
  "stage_low left total' \<longleftrightarrow> num_le left (Fin 30000) \<or>
     (case total' of Fin t \<Rightarrow> 0 < t \<and> num_le (num_div left t) (fl (15 / 100)) | PInf \<Rightarrow> left \<noteq> NaN \<and> left \<noteq> PInf | _ \<Rightarrow> False)"

definition stage_state_of :: "(jsstring \<Rightarrow> num) \<Rightarrow> wrapped_capsule list \<Rightarrow> wrapping_page \<Rightarrow> stage_state" where
  "stage_state_of parse live p =
     (let c = stage_capsule parse live p; st = statusOf c (wr_now p);
          forbidden = list_ex (\<lambda>op. Option.bind (wr_problems p op) wp_status = Some 403) [OpLookup, OpRevoke, OpUnwrap, OpWrap] in
      case wr_override p of Some s \<Rightarrow> s | None \<Rightarrow>
        if st = Some Active then (if stage_low (stage_left (wr_now p) c) (stage_total c) then Low else Sealed)
        else if st \<noteq> None then Void else if forbidden then Forbidden else Idle)"

record wrapping_stats =
  ws_active :: nat
  ws_expired :: nat
  ws_revoked :: nat
  ws_unwrapped :: nat
  ws_wrapped :: nat

datatype fact_key = FactWrapped | FactUnwrapped | FactExpired | FactRevoked | FactActive

definition wfact :: "wrapping_stats option \<Rightarrow> bool \<Rightarrow> wrapped_capsule list \<Rightarrow> fact_key \<Rightarrow> nat option" where
  "wfact st list_error live k = (case k of
      FactActive \<Rightarrow> (case st of Some s \<Rightarrow> Some (ws_active s) | None \<Rightarrow> if list_error then None else Some (length live))
    | FactWrapped \<Rightarrow> map_option ws_wrapped st | FactUnwrapped \<Rightarrow> map_option ws_unwrapped st
    | FactExpired \<Rightarrow> map_option ws_expired st | FactRevoked \<Rightarrow> map_option ws_revoked st)"

text \<open>The four nodes of the lifecycle: which are done, which one is current, and the tone.\<close>

definition opt_truthy :: "num option \<Rightarrow> bool" where
  "opt_truthy x \<longleftrightarrow> (case x of Some n \<Rightarrow> num_truthy n | None \<Rightarrow> False)"

definition lifecycle :: "capsule option \<Rightarrow> wstatus option \<Rightarrow> bool list \<times> nat option \<times> string" where
  "lifecycle c st = (case (c, st) of
      (Some c, Some s) \<Rightarrow>
        if s = Missing then ([False, False, False, False], None, '''')
        else if s = Active then ([True, opt_truthy (cc_delivered c), False, False], Some (if opt_truthy (cc_delivered c) then 1 else 0), '''')
        else if s = Used then ([True, True, True, False], Some 2, ''ok'')
        else ([True, True, False, True], Some 3, ''bad'')
    | _ \<Rightarrow> ([False, False, False, False], None, ''''))"

definition session_chips :: "wrapping_page \<Rightarrow> capsule list" where
  "session_chips p = take 4 (sort_by (\<lambda>a b. case num_sub (nullish (cc_created b) (Fin 0)) (nullish (cc_created a) (Fin 0)) of
     Fin d \<Rightarrow> if d < 0 then -1 else if 0 < d then 1 else 0 | PInf \<Rightarrow> 1 | NInf \<Rightarrow> -1 | NaN \<Rightarrow> 0) (map snd (entries (wr_capsules p))))"

section \<open>The panels\<close>

record wrap_form =
  wf_payload :: jsstring
  wf_ttl :: jsstring
  wf_path :: jsstring
  wf_jsonErr :: jsstring
  wf_ttlErr :: jsstring
  wf_result :: "(num \<times> jsstring) option"
  wf_pending :: bool

text \<open>\<open>submit\<close> of the wrap panel: the request that goes out, the form and the page.\<close>

definition wrap_submit :: "(jsstring \<Rightarrow> jsstring) \<Rightarrow> wrap_form \<Rightarrow> wrapping_page \<Rightarrow> request option \<times> wrap_form \<times> wrapping_page" where
  "wrap_submit msg f p =
     (if wf_pending f then (None, f, p)
      else case JSON_parse (or_str (Some (trim (wf_payload f))) (js ''{}'')) of
        None \<Rightarrow> (None, f\<lparr>wf_jsonErr := nullish (jk_message (checkJson msg (wf_payload f))) (msg (wf_payload f))\<rparr>, wtoast ''toast.wrapFailed'' p)
      | Some data \<Rightarrow>
          (if parseTtl (wf_ttl f) = None then (None, f\<lparr>wf_ttlErr := js ''wrap.errTtl''\<rparr>, p)
           else (Some (wrap (Some data) (Some (trim (wf_ttl f))) (Some (trim (wf_path f)))), f\<lparr>wf_result := None, wf_pending := True\<rparr>,
                 stage_seal True (clearProblem OpWrap p))))"

definition wrap_onError :: "failure \<Rightarrow> wrapping_page \<Rightarrow> wrapping_page" where
  "wrap_onError err p = wtoast ''toast.wrapFailed'' (setProblem OpWrap (problemOf err) (stage_seal False p))"

definition wrap_expires :: "(jsstring \<Rightarrow> num) \<Rightarrow> num \<Rightarrow> jsstring \<Rightarrow> jsstring \<Rightarrow> num" where
  "wrap_expires parse created ttl expires_at = (let e = parse expires_at in
     if e = NaN then num_add created (num_mul (nullish (parseTtl ttl) (Fin 0)) (Fin 1000)) else e)"

definition wrap_onSuccess :: "(jsstring \<Rightarrow> num) \<Rightarrow> num \<Rightarrow> jsstring \<Rightarrow> jsstring \<Rightarrow> jsstring \<Rightarrow> wrapping_page \<Rightarrow> wrapping_page" where
  "wrap_onSuccess parse now token expires_at ttl p =
     wtoast ''toast.wrapped'' (stage_seal False (setCur (Some token)
       (upsert token (\<lambda>c. c\<lparr>cc_created := Some now, cc_expires := Some (wrap_expires parse now ttl expires_at), cc_status := Active,
          cc_ttl := parseTtl ttl\<rparr>) p)))"

definition wrap_result :: "(jsstring \<Rightarrow> num) \<Rightarrow> num \<Rightarrow> jsstring \<Rightarrow> jsstring \<Rightarrow> wrap_form \<Rightarrow> wrap_form" where
  "wrap_result parse now token expires_at f = f\<lparr>wf_pending := False,
     wf_result := Some (if parse expires_at = NaN then now else parse expires_at, token)\<rparr>"

definition wrap_copied :: "num \<Rightarrow> jsstring \<Rightarrow> wrapping_page \<Rightarrow> wrapping_page" where
  "wrap_copied now token p = (case capsule_of p token of
      Some c \<Rightarrow> if opt_truthy (cc_delivered c) then p
        else wtoast ''toast.delivered'' (upsert token (\<lambda>c. c\<lparr>cc_delivered := Some now\<rparr>) p)
    | None \<Rightarrow> p)"

definition wrap_pick :: "(jsstring \<Rightarrow> jsstring) \<Rightarrow> template_key \<Rightarrow> wrap_form \<Rightarrow> wrap_form" where
  "wrap_pick nf k f = f\<lparr>wf_payload := stringify2 nf (TEMPLATES k), wf_jsonErr := []\<rparr>"

record unwrap_panel =
  up_msg :: jsstring
  up_confirm :: bool
  up_data :: "jsstring option"
  up_revealed :: bool
  up_pending :: bool

definition unwrap_ask :: "wrapping_page \<Rightarrow> unwrap_panel \<Rightarrow> unwrap_panel" where
  "unwrap_ask p u = (if trim (wr_unwrap p) = [] then u\<lparr>up_msg := js ''unwrap.errEmpty''\<rparr>
     else if up_pending u then u else u\<lparr>up_confirm := True\<rparr>)"

definition unwrap_run :: "jsstring \<Rightarrow> wrapping_page \<times> unwrap_panel \<Rightarrow> request \<times> wrapping_page \<times> unwrap_panel" where
  "unwrap_run tok s = (unwrap tok, clearProblem OpUnwrap (fst s), (snd s)\<lparr>up_data := None, up_pending := True\<rparr>)"

definition unwrap_confirmed :: "wrapping_page \<times> unwrap_panel \<Rightarrow> request \<times> wrapping_page \<times> unwrap_panel" where
  "unwrap_confirmed s = unwrap_run (trim (wr_unwrap (fst s))) (fst s, (snd s)\<lparr>up_confirm := False\<rparr>)"

definition unwrap_onError :: "failure \<Rightarrow> jsstring \<Rightarrow> wrapping_page \<Rightarrow> wrapping_page" where
  "unwrap_onError err tok p = (let pr = problemOf err in
     wtoast ''toast.unwrapFailed'' (setCur (Some tok) (wfailed tok (wp_status pr) (setProblem OpUnwrap pr p))))"

definition unwrap_onSuccess :: "bool \<Rightarrow> num \<Rightarrow> jsstring \<Rightarrow> wrapping_page \<Rightarrow> wrapping_page" where
  "unwrap_onSuccess reduced now tok p =
     wtoast ''toast.unwrapped'' (playUnwrap reduced (clearProblem OpUnwrap (setCur (Some tok)
       (upsert tok (\<lambda>c. c\<lparr>cc_delivered := Some (nullish (Option.bind (capsule_of p tok) cc_delivered) now), cc_status := Used, cc_usedAt := Some now\<rparr>) p))))"

definition unwrap_shown :: "(jsstring \<Rightarrow> jsstring) \<Rightarrow> json option \<Rightarrow> unwrap_panel \<Rightarrow> unwrap_panel" where
  "unwrap_shown nf res u = u\<lparr>up_revealed := False, up_data := Some (stringify2 nf (nullish res JNull)), up_pending := False\<rparr>"

record look_panel =
  lp_msg :: jsstring
  lp_info :: "(jsstring \<times> jsstring) option"
  lp_confirm :: bool
  lp_pending :: bool

definition look_submit :: "wrapping_page \<times> look_panel \<Rightarrow> request option \<times> wrapping_page \<times> look_panel" where
  "look_submit s = (case s of (p, l) \<Rightarrow>
     let token = trim (wr_look p) in
     if token = [] then (None, p, l\<lparr>lp_msg := js ''look.errEmpty''\<rparr>)
     else if lp_pending l then (None, p, l)
     else (Some (lookupWrap token), clearProblem OpRevoke (clearProblem OpLookup p), l\<lparr>lp_info := None, lp_pending := True\<rparr>))"

definition look_onError :: "failure \<Rightarrow> jsstring \<Rightarrow> wrapping_page \<Rightarrow> wrapping_page" where
  "look_onError err tok p = (let pr = problemOf err in
     wtoast ''toast.lookupFailed'' (setCur (Some tok) (wfailed tok (wp_status pr) (setProblem OpLookup pr p))))"

record wrap_lookup =
  wl_creation_time :: jsstring
  wl_expires_at :: jsstring
  wl_creation_ttl :: num

definition look_onSuccess :: "(jsstring \<Rightarrow> num) \<Rightarrow> wrap_lookup \<Rightarrow> jsstring \<Rightarrow> wrapping_page \<Rightarrow> wrapping_page" where
  "look_onSuccess parse res tok p = clearProblem OpLookup (setCur (Some tok)
     (upsert tok (\<lambda>c. c\<lparr>cc_created := Some (parse (wl_creation_time res)), cc_expires := Some (parse (wl_expires_at res)),
        cc_status := Active, cc_ttl := Some (wl_creation_ttl res)\<rparr>) p))"

definition revoke_onError :: "failure \<Rightarrow> jsstring \<Rightarrow> wrapping_page \<Rightarrow> wrapping_page" where
  "revoke_onError err tok p = (let pr = problemOf err in
     wtoast ''toast.revokeFailed'' (setCur (Some tok) (wfailed tok (wp_status pr) (setProblem OpRevoke pr p))))"

definition revoke_onSuccess :: "num \<Rightarrow> jsstring \<Rightarrow> wrapping_page \<Rightarrow> wrapping_page" where
  "revoke_onSuccess now tok p = wtoast ''toast.revoked'' (setCur (Some tok)
     (upsert tok (\<lambda>c. c\<lparr>cc_revokedAt := Some now, cc_status := Revoked\<rparr>) p))"

text \<open>The list of live capsules: rows are picked by accessor, and revoked in bulk with \<open>Promise.allSettled\<close>.\<close>

definition live_checked :: "wrapped_capsule list \<Rightarrow> jsstring list \<Rightarrow> jsstring list" where
  "live_checked rows sel = filter (\<lambda>a. list_ex (\<lambda>r. wc_accessor r = a) rows) sel"

definition live_allChecked :: "wrapped_capsule list \<Rightarrow> jsstring list \<Rightarrow> bool" where
  "live_allChecked rows sel \<longleftrightarrow> rows \<noteq> [] \<and> length (live_checked rows sel) = length rows"

definition live_toggle :: "jsstring \<Rightarrow> jsstring list \<Rightarrow> jsstring list" where
  "live_toggle acc s = (if set_has s acc then set_delete acc s else set_add acc s)"

definition live_onSelect :: "wrapped_capsule \<Rightarrow> wrapping_page \<Rightarrow> wrapping_page" where
  "live_onSelect c p = (setCur None p)\<lparr>wr_pick := Some \<lparr>pk_gone = None, pk_goneAt = None, pk_snap = c\<rparr>\<rparr>"

definition live_onRevoked :: "num \<Rightarrow> jsstring list \<Rightarrow> wrapping_page \<Rightarrow> wrapping_page" where
  "live_onRevoked now accs p = (case wr_pick p of
      Some k \<Rightarrow> if wc_accessor (pk_snap k) \<in> set accs then p\<lparr>wr_pick := Some (k\<lparr>pk_gone := Some Revoked, pk_goneAt := Some now\<rparr>)\<rparr> else p
    | None \<Rightarrow> p)"

definition live_done :: "jsstring list \<Rightarrow> bool list \<Rightarrow> jsstring list" where
  "live_done accs fulfilled = map fst (filter snd (zip accs fulfilled))"

definition live_revoke :: "num \<Rightarrow> jsstring list \<Rightarrow> bool list \<Rightarrow> wrapping_page \<Rightarrow> wrapping_page" where
  "live_revoke now accs fulfilled p =
     (let done' = live_done accs fulfilled;
          p1 = (if done' = [] then p else live_onRevoked now done' (wtoast ''toast.revoked'' p)) in
      if length done' < length accs then wtoast ''toast.revokeFailed'' p1 else p1)"

section \<open>The page as a machine\<close>

datatype wrapping_input =
    WTick num
  | WWrapStart
  | WWrapped num jsstring jsstring jsstring
  | WWrapFailed failure
  | WCopied num jsstring
  | WUnwrapStart
  | WUnwrapped bool num jsstring
  | WUnwrapFailed failure jsstring
  | WAnimation "stage_state option"
  | WLookStart
  | WLooked wrap_lookup jsstring
  | WLookFailed failure jsstring
  | WRevokeStart
  | WRevoked num jsstring
  | WRevokeFailed failure jsstring
  | WSelect wrapped_capsule
  | WLiveRevoked num "jsstring list" "bool list"
  | WGoto wtab "jsstring option"
  | WTabKey string

fun wrapping_handle :: "(jsstring \<Rightarrow> num) \<Rightarrow> wrapping_input \<Rightarrow> wrapping_page \<Rightarrow> wrapping_page" where
  "wrapping_handle parse (WTick t) p = p\<lparr>wr_now := t\<rparr>"
| "wrapping_handle parse WWrapStart p = stage_seal True (clearProblem OpWrap p)"
| "wrapping_handle parse (WWrapped now tok expires_at ttl) p = wrap_onSuccess parse now tok expires_at ttl p"
| "wrapping_handle parse (WWrapFailed err) p = wrap_onError err p"
| "wrapping_handle parse (WCopied now tok) p = wrap_copied now tok p"
| "wrapping_handle parse WUnwrapStart p = clearProblem OpUnwrap p"
| "wrapping_handle parse (WUnwrapped reduced now tok) p = unwrap_onSuccess reduced now tok p"
| "wrapping_handle parse (WUnwrapFailed err tok) p = unwrap_onError err tok p"
| "wrapping_handle parse (WAnimation s) p = p\<lparr>wr_override := s\<rparr>"
| "wrapping_handle parse WLookStart p = clearProblem OpRevoke (clearProblem OpLookup p)"
| "wrapping_handle parse (WLooked res tok) p = look_onSuccess parse res tok p"
| "wrapping_handle parse (WLookFailed err tok) p = look_onError err tok p"
| "wrapping_handle parse WRevokeStart p = clearProblem OpRevoke p"
| "wrapping_handle parse (WRevoked now tok) p = revoke_onSuccess now tok p"
| "wrapping_handle parse (WRevokeFailed err tok) p = revoke_onError err tok p"
| "wrapping_handle parse (WSelect c) p = live_onSelect c p"
| "wrapping_handle parse (WLiveRevoked now accs ok) p = live_revoke now accs ok p"
| "wrapping_handle parse (WGoto to tok) p = wgoto to tok p"
| "wrapping_handle parse (WTabKey k) p = onTabKey k p"

text \<open>The effect that reports expired capsules runs after every change of the clock or the capsules.\<close>

definition wrapping_step :: "(jsstring \<Rightarrow> num) \<Rightarrow> wrapping_input \<Rightarrow> wrapping_page \<Rightarrow> wrapping_page" where
  "wrapping_step parse i p = note_expired (wrapping_handle parse i p)"

definition wrapping_init :: "num \<Rightarrow> wrapping_page" where
  "wrapping_init now = \<lparr>wr_capsules = [], wr_cur = None, wr_now = now, wr_noted = [], wr_pick = None, wr_tab = TabWrap, wr_look = [],
     wr_unwrap = [], wr_problems = Map.empty, wr_override = None, wr_toasts = []\<rparr>"

definition wrapping_run :: "(jsstring \<Rightarrow> num) \<Rightarrow> num \<Rightarrow> wrapping_input list \<Rightarrow> wrapping_page" where
  "wrapping_run parse now is = fold (wrapping_step parse) is (wrapping_init now)"

section \<open>The life of one capsule\<close>

text \<open>
  The specification: what one token goes through, without the page around it. A success of the server decides the status; a
  \<open>404\<close> and a \<open>410\<close> end it unless it was used here; nothing else counts.
\<close>

datatype life_event = Opened | Consumed | Withdrawn | Rejected "nat option"

fun life :: "life_event \<Rightarrow> wstatus option \<Rightarrow> wstatus option" where
  "life Opened s = Some Active"
| "life Consumed s = Some Used"
| "life Withdrawn s = Some Revoked"
| "life (Rejected c) s = (if s = Some Used then s else if c = Some 404 then Some Missing else if c = Some 410 then Some Expired else s)"

fun about :: "jsstring \<Rightarrow> wrapping_input \<Rightarrow> life_event list" where
  "about t (WWrapped now tok e ttl) = (if tok = t then [Opened] else [])"
| "about t (WUnwrapped r now tok) = (if tok = t then [Consumed] else [])"
| "about t (WUnwrapFailed err tok) = (if tok = t then [Rejected (status err)] else [])"
| "about t (WLooked res tok) = (if tok = t then [Opened] else [])"
| "about t (WLookFailed err tok) = (if tok = t then [Rejected (status err)] else [])"
| "about t (WRevoked now tok) = (if tok = t then [Withdrawn] else [])"
| "about t (WRevokeFailed err tok) = (if tok = t then [Rejected (status err)] else [])"
| "about t _ = []"

definition token_status :: "wrapping_page \<Rightarrow> jsstring \<Rightarrow> wstatus option" where
  "token_status p t = map_option cc_status (capsule_of p t)"

lemma capsule_of_frame [simp]:
  "capsule_of (p\<lparr>wr_cur := a\<rparr>) = capsule_of p" "capsule_of (p\<lparr>wr_now := b\<rparr>) = capsule_of p"
  "capsule_of (p\<lparr>wr_noted := c\<rparr>) = capsule_of p" "capsule_of (p\<lparr>wr_pick := d\<rparr>) = capsule_of p"
  "capsule_of (p\<lparr>wr_tab := e\<rparr>) = capsule_of p" "capsule_of (p\<lparr>wr_look := f\<rparr>) = capsule_of p"
  "capsule_of (p\<lparr>wr_unwrap := f\<rparr>) = capsule_of p" "capsule_of (p\<lparr>wr_problems := g\<rparr>) = capsule_of p"
  "capsule_of (p\<lparr>wr_override := h\<rparr>) = capsule_of p" "capsule_of (p\<lparr>wr_toasts := i\<rparr>) = capsule_of p"
  by (simp_all add: capsule_of_def fun_eq_iff)

lemma capsule_of_helpers [simp]:
  "capsule_of (setCur a p) = capsule_of p" "capsule_of (clearProblem op p) = capsule_of p" "capsule_of (setProblem op pr p) = capsule_of p"
  "capsule_of (wtoast k p) = capsule_of p" "capsule_of (stage_seal b p) = capsule_of p" "capsule_of (playUnwrap b p) = capsule_of p"
  "capsule_of (note_one c p) = capsule_of p" "capsule_of (onTabKey k p) = capsule_of p" "capsule_of (wgoto to tok p) = capsule_of p"
  "capsule_of (live_onRevoked now accs p) = capsule_of p" "capsule_of (live_onSelect w p) = capsule_of p"
  by (simp_all add: setCur_def clearProblem_def setProblem_def wtoast_def stage_seal_def playUnwrap_def note_one_def onTabKey_def wgoto_def
      live_onRevoked_def live_onSelect_def Let_def split: option.split wtab.split)

lemma capsule_of_notes [simp]: "capsule_of (fold note_one cs p) = capsule_of p" "capsule_of (note_expired p) = capsule_of p"
proof -
  show "capsule_of (fold note_one cs p) = capsule_of p" for cs by (induction cs arbitrary: p) simp_all
  then show "capsule_of (note_expired p) = capsule_of p" by (simp add: note_expired_def)
qed

lemma capsule_of_upsert [simp]:
  "capsule_of (upsert t f p) u = (if u = t then Some ((f (nullish (capsule_of p t) (new_capsule t)))\<lparr>cc_token := t\<rparr>) else capsule_of p u)"
  by (simp add: upsert_def capsule_of_def)

lemma status_wfailed: "token_status (wfailed t c p) u = (if u = t then life (Rejected c) (token_status p t) else token_status p u)"
  by (cases "capsule_of p t") (auto simp: wfailed_def token_status_def Let_def)

lemma status_problemOf [simp]: "wp_status (problemOf err) = status err"
  by (cases err) simp_all

lemma token_status_helpers [simp]:
  "token_status (setCur a p) = token_status p" "token_status (clearProblem op p) = token_status p" "token_status (setProblem op pr p) = token_status p"
  "token_status (wtoast k p) = token_status p" "token_status (stage_seal b p) = token_status p" "token_status (playUnwrap b p) = token_status p"
  "token_status (onTabKey k p) = token_status p" "token_status (wgoto to tok p) = token_status p" "token_status (note_expired p) = token_status p"
  "token_status (live_onRevoked now accs p) = token_status p" "token_status (live_onSelect w p) = token_status p"
  "token_status (p\<lparr>wr_now := x\<rparr>) = token_status p" "token_status (p\<lparr>wr_override := y\<rparr>) = token_status p"
  by (simp_all add: token_status_def fun_eq_iff)

lemma token_status_upsert:
  "token_status (upsert t f p) u = (if u = t then Some (cc_status (f (nullish (capsule_of p t) (new_capsule t)))) else token_status p u)"
  by (simp add: token_status_def)

lemma token_status_copied: "token_status (wrap_copied now t p) = token_status p"
  by (auto simp: wrap_copied_def fun_eq_iff token_status_upsert token_status_def split: option.split)

lemma status_step: "token_status (wrapping_step parse i p) t = fold life (about t i) (token_status p t)"
  unfolding wrapping_step_def
  by (cases i) (simp_all add: status_wfailed unwrap_onError_def look_onError_def revoke_onError_def Let_def token_status_upsert token_status_copied
      wrap_onSuccess_def unwrap_onSuccess_def look_onSuccess_def revoke_onSuccess_def wrap_onError_def live_revoke_def del: life.simps(4))


text \<open>A capsule that was unwrapped here stays used until the server says that it is open or revoked.\<close>

lemma used_is_kept:
  assumes "list_all (\<lambda>e. \<exists>c. e = Rejected c) es"
  shows "fold life es (Some Used) = Some Used"
  using assms by (induction es) auto

text \<open>A revoked one is not kept: a rejected lookup makes the page show it as unknown.\<close>

lemma revoked_is_lost: "life (Rejected (Some 404)) (Some Revoked) = Some Missing"
  by simp

text \<open>The two ends of the lifecycle exclude each other, and an end is reached only after the start and the delivery.\<close>

lemma lifecycle_ends:
  "case lifecycle c st of (done', now, tone) \<Rightarrow> length done' = 4 \<and> \<not> (done' ! 2 \<and> done' ! 3) \<and> (done' ! 2 \<or> done' ! 3 \<longrightarrow> done' ! 0 \<and> done' ! 1)
     \<and> (\<forall>n. now = Some n \<longrightarrow> n < 4 \<and> done' ! n)"
  by (auto simp: lifecycle_def split: option.splits)

section \<open>Invariants of the page\<close>

text \<open>Every capsule is kept under its own token, once, and every token is reported as expired at most once.\<close>

definition wrapping_ok :: "wrapping_page \<Rightarrow> bool" where
  "wrapping_ok p \<longleftrightarrow> distinct (map fst (wr_capsules p)) \<and> list_all (\<lambda>(t, c). cc_token c = t) (wr_capsules p) \<and> distinct (wr_noted p)
     \<and> length (filter (\<lambda>k. k = ''toast.expired'') (wr_toasts p)) = length (wr_noted p)
     \<and> (truthy_str (wr_cur p) \<longrightarrow> wr_pick p = None)"

lemma set_obj_put: "e \<in> set (obj_put k v o') \<Longrightarrow> e = (k, v) \<or> e \<in> set o'"
  by (induction k v o' rule: obj_put.induct) (auto split: if_splits)

lemma ok_upsert: "wrapping_ok p \<Longrightarrow> wrapping_ok (upsert t f p)"
  by (auto simp: wrapping_ok_def upsert_def distinct_obj_put list_all_iff dest!: set_obj_put)

lemma ok_setCur: "wrapping_ok p \<Longrightarrow> wrapping_ok (setCur c p)"
  by (auto simp: wrapping_ok_def setCur_def)

lemma ok_frame [simp]:
  "wrapping_ok (p\<lparr>wr_now := a\<rparr>) = wrapping_ok p" "wrapping_ok (p\<lparr>wr_tab := b\<rparr>) = wrapping_ok p" "wrapping_ok (p\<lparr>wr_look := c\<rparr>) = wrapping_ok p"
  "wrapping_ok (p\<lparr>wr_unwrap := c\<rparr>) = wrapping_ok p" "wrapping_ok (p\<lparr>wr_problems := d\<rparr>) = wrapping_ok p" "wrapping_ok (p\<lparr>wr_override := e\<rparr>) = wrapping_ok p"
  by (simp_all add: wrapping_ok_def)

lemma ok_helpers [simp]:
  "wrapping_ok (clearProblem op p) = wrapping_ok p" "wrapping_ok (setProblem op pr p) = wrapping_ok p" "wrapping_ok (stage_seal b p) = wrapping_ok p"
  "wrapping_ok (playUnwrap b p) = wrapping_ok p" "wrapping_ok (onTabKey k p) = wrapping_ok p"
  by (simp_all add: clearProblem_def setProblem_def stage_seal_def playUnwrap_def onTabKey_def Let_def split: option.split)

lemma ok_wtoast [simp]: "k \<noteq> ''toast.expired'' \<Longrightarrow> wrapping_ok (wtoast k p) = wrapping_ok p"
  by (simp add: wrapping_ok_def wtoast_def)

lemma ok_note_one: "wrapping_ok p \<Longrightarrow> wrapping_ok (note_one c p)"
  by (simp add: note_one_def wrapping_ok_def set_add_def set_has_def)

lemma ok_note_expired: "wrapping_ok p \<Longrightarrow> wrapping_ok (note_expired p)"
proof -
  have "wrapping_ok p \<Longrightarrow> wrapping_ok (fold note_one cs p)" for cs
    by (induction cs arbitrary: p) (simp_all add: ok_note_one)
  then show "wrapping_ok p \<Longrightarrow> wrapping_ok (note_expired p)" by (simp add: note_expired_def)
qed

lemma ok_wfailed: "wrapping_ok p \<Longrightarrow> wrapping_ok (wfailed t c p)"
  by (auto simp: wfailed_def Let_def ok_upsert)

lemma ok_live: "wrapping_ok p \<Longrightarrow> wrapping_ok (live_onRevoked now accs p)" "wrapping_ok p \<Longrightarrow> wrapping_ok (live_onSelect w p)"
  by (auto simp: live_onRevoked_def live_onSelect_def setCur_def wrapping_ok_def split: option.split)

lemma ok_wgoto: "wrapping_ok p \<Longrightarrow> wrapping_ok (wgoto to tok p)"
  by (auto simp: wgoto_def Let_def split: wtab.split intro!: ok_setCur)

lemmas ok_intros = ok_upsert ok_setCur ok_wfailed ok_live ok_wgoto ok_note_expired

lemma ok_step: "wrapping_ok p \<Longrightarrow> wrapping_ok (wrapping_step parse i p)"
  unfolding wrapping_step_def
  by (rule ok_note_expired, cases i)
    (simp_all add: wrap_onSuccess_def wrap_onError_def wrap_copied_def unwrap_onSuccess_def unwrap_onError_def look_onSuccess_def look_onError_def
      revoke_onSuccess_def revoke_onError_def live_revoke_def Let_def ok_intros split: option.split)

interpretation wrapping_machine: machine "wrapping_step parse" "wrapping_init now" wrapping_ok for parse now
  by unfold_locales (simp add: wrapping_ok_def wrapping_init_def, rule ok_step)

lemma wrapping_page_invariant: "wrapping_ok (wrapping_run parse now is)"
  unfolding wrapping_run_def by (rule wrapping_machine.inv_run)

text \<open>A capsule is low or sealed only while it is not expired.\<close>

lemma stage_open_iff:
  "wr_override p = None \<Longrightarrow> stage_state_of parse live p \<in> {Low, Sealed} \<longleftrightarrow> statusOf (stage_capsule parse live p) (wr_now p) = Some Active"
  by (auto simp: stage_state_of_def Let_def)

text \<open>What the wrap panel sends is valid JSON and a time to live of at least a second.\<close>

lemma wrap_submit_sends:
  assumes "wrap_submit msg f p = (Some r, f', p')"
  shows "\<exists>data n. JSON_parse (or_str (Some (trim (wf_payload f))) (js ''{}'')) = Some data \<and> parseTtl (wf_ttl f) = Some n
     \<and> r = wrap (Some data) (Some (trim (wf_ttl f))) (Some (trim (wf_path f))) \<and> \<not> wf_pending f \<and> wf_pending f' \<and> wr_override p' = Some Sealing"
  using assms by (auto simp: wrap_submit_def stage_seal_def split: if_splits option.splits)

end
