(* ===== verification/Tokens.thy ===== *)
theory Tokens
  imports Durations Kit Api_Client
begin

text \<open>
  The tokens page (\<open>pages/dashboard/tokens\<close>): the rows built from the list of ids and the lookups that have landed, filters
  and pages, selection, revocation, the sweep of expired tokens, and the dialogs that create a token and revoke by prefix.
  \<open>date\<close> gives the time and the local year of \<open>new Date(s)\<close>, or nothing when the text is not a date; \<open>lc\<close> is
  \<open>localeCompare\<close> and \<open>lw\<close> is \<open>toLowerCase\<close>. Texts of the interface are their keys.
\<close>

section \<open>Rows\<close>

record token_data =
  td_id :: jsstring
  td_accessor :: "jsstring option"
  td_display_name :: "jsstring option"
  td_policies :: "jsstring list option"
  td_max_uses :: "nat option"
  td_use_count :: "nat option"
  td_renewable :: "bool option"
  td_created_at :: "jsstring option"
  td_expires_at :: "jsstring option"
  td_namespace :: "jsstring option"

record token_row =
  tr_id :: jsstring
  tr_accessor :: "jsstring option"
  tr_name :: jsstring
  tr_policies :: "jsstring list"
  tr_createdAt :: "int option"
  tr_expiresAt :: "int option"
  tr_total :: int
  tr_ns :: jsstring
  tr_uses :: nat
  tr_maxUses :: nat
  tr_renewable :: bool
  tr_resolved :: bool
  tr_loading :: bool

definition token_ts :: "(jsstring \<Rightarrow> (int \<times> int) option) \<Rightarrow> jsstring option \<Rightarrow> int option" where
  "token_ts date s = (if \<not> truthy_str s then None
     else case date (nullish s []) of None \<Rightarrow> None | Some (t, year) \<Rightarrow> if year \<le> 1 then None else Some t)"

definition toRow :: "(jsstring \<Rightarrow> (int \<times> int) option) \<Rightarrow> jsstring \<Rightarrow> token_data option \<Rightarrow> bool \<Rightarrow> token_row" where
  "toRow date i info loading = (case info of
      None \<Rightarrow> \<lparr>tr_id = i, tr_accessor = None, tr_name = [], tr_policies = [], tr_createdAt = None, tr_expiresAt = None, tr_total = 0,
        tr_ns = [], tr_uses = 0, tr_maxUses = 0, tr_renewable = False, tr_resolved = False, tr_loading = loading\<rparr>
    | Some t \<Rightarrow>
        let created = token_ts date (td_created_at t); expires = token_ts date (td_expires_at t) in
        \<lparr>tr_id = i, tr_accessor = td_accessor t, tr_name = nullish (td_display_name t) [], tr_policies = nullish (td_policies t) [],
         tr_createdAt = created, tr_expiresAt = expires,
         tr_total = (case (created, expires) of
             (Some c, Some e) \<Rightarrow> if c \<noteq> 0 \<and> e \<noteq> 0 then max 1 (round_div (e - c) 1000) else 0 | _ \<Rightarrow> 0),
         tr_ns = or_str (td_namespace t) (js ''root''), tr_uses = nullish (td_use_count t) 0, tr_maxUses = nullish (td_max_uses t) 0,
         tr_renewable = nullish (td_renewable t) False, tr_resolved = True, tr_loading = False\<rparr>)"

datatype pill_tone = ToneBad | ToneOk | ToneBrass | ToneViolet | ToneIce | ToneMute

definition policyTone :: "jsstring \<Rightarrow> pill_tone" where
  "policyTone p =
     (if p = js ''admin'' \<or> p = js ''root'' then ToneBad
      else if ends_with p (js ''-read'') \<or> starts_with p (js ''read'') then ToneOk
      else if ends_with p (js ''-write'') \<or> ends_with p (js ''-rw'') then ToneBrass
      else if includes_str p (js ''deploy'') \<or> includes_str p (js ''ci-'') then ToneViolet
      else if includes_str p (js ''audit'') \<or> includes_str p (js ''backup'') then ToneIce else ToneMute)"

definition shortAcc :: "jsstring \<Rightarrow> jsstring" where
  "shortAcc a = (if 14 < length a then take 10 a @ ellipsis @ drop (length a - 4) a else a)"

definition maskId :: "jsstring \<Rightarrow> jsstring" where
  "maskId i = replicate 8 bullet @ drop (length i - 4) i"

definition rowName :: "token_row \<Rightarrow> jsstring" where
  "rowName r = or_str (Some (tr_name r)) (maskId (tr_id r))"

text \<open>A lookup that is still running, or what it gave.\<close>

record token_lookup =
  lk_data :: "token_data option"
  lk_pending :: bool

definition ENRICH_CAP :: nat where "ENRICH_CAP = 100"

definition PER_PAGE :: nat where "PER_PAGE = 20"

definition token_infos :: "(jsstring \<Rightarrow> token_lookup) \<Rightarrow> jsstring list \<Rightarrow> token_lookup list" where
  "token_infos look ids = map look (take ENRICH_CAP ids)"

definition token_rows :: "(jsstring \<Rightarrow> (int \<times> int) option) \<Rightarrow> (jsstring \<Rightarrow> token_lookup) \<Rightarrow> jsstring list \<Rightarrow> token_row list" where
  "token_rows date look ids =
     (let infos = token_infos look ids;
          rows = map (\<lambda>k. if k < length infos then toRow date (ids ! k) (lk_data (infos ! k)) (lk_pending (infos ! k))
                          else toRow date (ids ! k) None False) [0..<length ids] in
      if list_ex lk_pending infos then rows
      else sort_by (\<lambda>a b. nullish (tr_createdAt b) 0 - nullish (tr_createdAt a) 0) rows)"

section \<open>The page\<close>

record tokens_page =
  tp_now :: int
  tp_query :: jsstring
  tp_policy :: "jsstring option"
  tp_page :: nat
  tp_sel :: "jsstring list"
  tp_dissolving :: "jsstring list"
  tp_gone :: "jsstring list"
  tp_fresh :: "jsstring option"
  tp_created :: "token_data option"
  tp_createOpen :: bool
  tp_confirmIds :: "jsstring list"
  tp_confirmOpen :: bool
  tp_renewing :: "jsstring option"
  tp_toasts :: "string list"

definition live_ids :: "jsstring list \<Rightarrow> tokens_page \<Rightarrow> jsstring list" where
  "live_ids listed p = filter (\<lambda>i. \<not> set_has (tp_gone p) i) listed"

definition tp_toast :: "string \<Rightarrow> tokens_page \<Rightarrow> tokens_page" where
  "tp_toast k p = p\<lparr>tp_toasts := tp_toasts p @ [k]\<rparr>"

definition dissolve :: "jsstring list \<Rightarrow> tokens_page \<Rightarrow> tokens_page" where
  "dissolve targets p = p\<lparr>tp_dissolving := fold set_add targets (tp_dissolving p)\<rparr>"

definition dissolved :: "jsstring list \<Rightarrow> tokens_page \<Rightarrow> tokens_page" where
  "dissolved targets p = p\<lparr>tp_dissolving := fold set_delete targets (tp_dissolving p), tp_gone := fold set_add targets (tp_gone p)\<rparr>"

text \<open>\<open>revoke\<close> with the settled requests: a 404 counts as done.\<close>

definition settled_ok :: "failure option \<Rightarrow> bool" where
  "settled_ok r = (case r of None \<Rightarrow> True | Some err \<Rightarrow> status err = Some 404)"

definition revoked_ids :: "jsstring list \<Rightarrow> failure option list \<Rightarrow> jsstring list" where
  "revoked_ids targets results = map fst (filter (\<lambda>(i, r). settled_ok r) (zip targets results))"

definition revoke_tokens :: "jsstring list \<Rightarrow> failure option list \<Rightarrow> tokens_page \<Rightarrow> tokens_page" where
  "revoke_tokens targets results p =
     (let ok = revoked_ids targets results; failed = length targets - length ok;
          p1 = (if ok = [] then p
                else tp_toast (if length ok = 1 then ''toast.revoked'' else ''toast.revokedMany'')
                  ((dissolve ok p)\<lparr>tp_sel := fold set_delete ok (tp_sel p)\<rparr>)) in
      if failed = 0 then p1 else tp_toast (if length targets = 1 then ''toast.revokeFailed'' else ''toast.revokePartial'') p1)"

definition expired_rows :: "tokens_page \<Rightarrow> token_row list \<Rightarrow> token_row list" where
  "expired_rows p rows = filter (\<lambda>r. (case tr_expiresAt r of Some e \<Rightarrow> e \<le> tp_now p | None \<Rightarrow> False) \<and> \<not> set_has (tp_dissolving p) (tr_id r)) rows"

definition expiry_sweep :: "token_row list \<Rightarrow> tokens_page \<Rightarrow> tokens_page" where
  "expiry_sweep rows p = (let expired = expired_rows p rows in
     if expired = [] then p
     else let p1 = dissolve (map tr_id expired) p in if length expired = 1 then tp_toast ''toast.expired'' p1 else p1)"

definition renew_start :: "token_row \<Rightarrow> tokens_page \<Rightarrow> request option \<times> tokens_page" where
  "renew_start r p = (renewTokenById (tr_id r) (if tr_total r = 0 then None else Some (nat (tr_total r))), p\<lparr>tp_renewing := Some (tr_id r)\<rparr>)"

definition renew_end :: "failure option \<Rightarrow> tokens_page \<Rightarrow> tokens_page" where
  "renew_end f p = (tp_toast (if f = None then ''toast.renewed'' else ''toast.renewFailed'') p)\<lparr>tp_renewing := None\<rparr>"

definition renew_enabled :: "token_row \<Rightarrow> tokens_page \<Rightarrow> bool" where
  "renew_enabled r p \<longleftrightarrow> tr_resolved r \<and> tr_renewable r \<and> tr_expiresAt r \<noteq> None \<and> tp_renewing p = None"

definition askRevoke :: "jsstring list \<Rightarrow> tokens_page \<Rightarrow> tokens_page" where
  "askRevoke targets p = p\<lparr>tp_confirmIds := targets, tp_confirmOpen := True\<rparr>"

definition onCreated :: "token_data \<Rightarrow> tokens_page \<Rightarrow> tokens_page" where
  "onCreated t p = p\<lparr>tp_createOpen := False, tp_created := Some t, tp_fresh := Some (td_id t)\<rparr>"

section \<open>Filters and pages\<close>

definition policyCounts :: "(jsstring \<Rightarrow> jsstring \<Rightarrow> int) \<Rightarrow> token_row list \<Rightarrow> (jsstring \<times> nat) list" where
  "policyCounts lc rows = take 7 (sort_by (\<lambda>a b. if snd b \<noteq> snd a then int (snd b) - int (snd a) else lc (fst a) (fst b))
     (fold (\<lambda>p m. obj_put p (nullish (map_of m p) 0 + 1) m) (concat (map tr_policies rows)) []))"

definition row_matches :: "(jsstring \<Rightarrow> jsstring) \<Rightarrow> tokens_page \<Rightarrow> token_row \<Rightarrow> bool" where
  "row_matches lw p r = (let q = lw (trim (tp_query p)) in
     (\<not> truthy_str (tp_policy p) \<or> nullish (tp_policy p) [] \<in> set (tr_policies r)) \<and>
     (q = [] \<or> includes_str (lw (tr_name r)) q \<or> includes_str (lw (nullish (tr_accessor r) [])) q
      \<or> list_ex (\<lambda>x. includes_str (lower x) q) (tr_policies r)))"

definition filtered_rows :: "(jsstring \<Rightarrow> jsstring) \<Rightarrow> tokens_page \<Rightarrow> token_row list \<Rightarrow> token_row list" where
  "filtered_rows lw p rows = filter (row_matches lw p) rows"

definition page_rows :: "nat \<Rightarrow> token_row list \<Rightarrow> token_row list" where
  "page_rows page filtered = (let pages = max 1 ((length filtered + PER_PAGE - 1) div PER_PAGE); pg = min page pages in
     take (pg * PER_PAGE - (pg - 1) * PER_PAGE) (drop ((pg - 1) * PER_PAGE) filtered))"

definition set_query :: "jsstring \<Rightarrow> tokens_page \<Rightarrow> tokens_page" where
  "set_query q p = p\<lparr>tp_query := q, tp_page := 1\<rparr>"

definition pick_policy :: "jsstring option \<Rightarrow> tokens_page \<Rightarrow> tokens_page" where
  "pick_policy x p = p\<lparr>tp_policy := (if tp_policy p = x then None else x), tp_page := 1\<rparr>"

definition resetFilters :: "tokens_page \<Rightarrow> tokens_page" where
  "resetFilters p = p\<lparr>tp_query := [], tp_policy := None, tp_page := 1\<rparr>"

definition toggle_row :: "jsstring \<Rightarrow> tokens_page \<Rightarrow> tokens_page" where
  "toggle_row i p = p\<lparr>tp_sel := set_toggle i (tp_sel p)\<rparr>"

definition toggle_page :: "jsstring list \<Rightarrow> tokens_page \<Rightarrow> tokens_page" where
  "toggle_page pageIds p = p\<lparr>tp_sel := set_toggle_all pageIds (tp_sel p)\<rparr>"

definition selIds :: "token_row list \<Rightarrow> tokens_page \<Rightarrow> jsstring list" where
  "selIds rows p = map tr_id (filter (\<lambda>r. set_has (tp_sel p) (tr_id r)) rows)"

definition soon_count :: "tokens_page \<Rightarrow> token_row list \<Rightarrow> nat" where
  "soon_count p rows = length (filter (\<lambda>r. case left_ms (tr_expiresAt r) (tp_now p) of Some l \<Rightarrow> 0 < l \<and> l < 15 * 60 * 1000 | None \<Rightarrow> False) rows)"

section \<open>Dialogs\<close>

definition prefix_matches :: "(jsstring \<Rightarrow> jsstring) \<Rightarrow> jsstring \<Rightarrow> token_row list \<Rightarrow> token_row list" where
  "prefix_matches lw pre rows = (let p = lw (trim pre) in
     if 2 \<le> length p then filter (\<lambda>r. starts_with (lw (tr_name r)) p) rows else [])"

definition prefix_ready :: "(jsstring \<Rightarrow> jsstring) \<Rightarrow> jsstring \<Rightarrow> jsstring \<Rightarrow> jsstring \<Rightarrow> bool \<Rightarrow> token_row list \<Rightarrow> bool" where
  "prefix_ready lw word pre typed busy rows \<longleftrightarrow> prefix_matches lw pre rows \<noteq> [] \<and> lw (trim typed) = lw word \<and> \<not> busy"

definition prefix_run :: "(jsstring \<Rightarrow> jsstring) \<Rightarrow> jsstring \<Rightarrow> jsstring \<Rightarrow> jsstring \<Rightarrow> bool \<Rightarrow> token_row list \<Rightarrow> jsstring list option" where
  "prefix_run lw word pre typed busy rows =
     (if prefix_ready lw word pre typed busy rows then Some (map tr_id (prefix_matches lw pre rows)) else None)"

record create_form =
  cr_name :: jsstring
  cr_picked :: "jsstring list"
  cr_typedPolicies :: jsstring
  cr_ttl :: nat
  cr_uses :: jsstring
  cr_renewable :: bool
  cr_noParent :: bool
  cr_tried :: bool
  cr_pending :: bool

definition create_reset :: "create_form \<Rightarrow> create_form" where
  "create_reset f = f\<lparr>cr_name := [], cr_picked := [], cr_typedPolicies := [], cr_ttl := 86400, cr_uses := js ''0'', cr_renewable := False,
     cr_noParent := False, cr_tried := False\<rparr>"

definition create_policies :: "bool \<Rightarrow> create_form \<Rightarrow> jsstring list" where
  "create_policies useChips f = (if useChips then cr_picked f
     else filter (\<lambda>x. x \<noteq> []) (map trim (split_on (jc CHR '','') (cr_typedPolicies f))))"

definition USES_RE :: re where
  "USES_RE = anchored (Seq (Cls is_digit) (Upto 8 (Cls is_digit)))"

definition create_bad :: "create_form \<Rightarrow> bool" where
  "create_bad f \<longleftrightarrow> 64 < length (trim (cr_name f)) \<or> cr_ttl f < 60 \<or> \<not> test USES_RE (trim (cr_uses f))"

definition create_submit :: "bool \<Rightarrow> create_form \<Rightarrow> request option \<times> create_form" where
  "create_submit useChips f = (let f1 = f\<lparr>cr_tried := True\<rparr> in
     if create_bad f \<or> cr_pending f then (None, f1)
     else (Some (createTokenFull (JObj [(js ''display_name'', JStr (trim (cr_name f))), (js ''max_uses'', jnum (undec (trim (cr_uses f)))),
        (js ''no_parent'', JBool (cr_noParent f)), (js ''policies'', JArr (map JStr (create_policies useChips f))),
        (js ''renewable'', JBool (cr_renewable f)), (js ''ttl'', JStr (dec (cr_ttl f) @ js ''s''))])), f1\<lparr>cr_pending := True\<rparr>))"

definition create_toggle :: "jsstring \<Rightarrow> create_form \<Rightarrow> create_form" where
  "create_toggle x f = f\<lparr>cr_picked := (if x \<in> set (cr_picked f) then filter (\<lambda>y. y \<noteq> x) (cr_picked f) else cr_picked f @ [x])\<rparr>"

text \<open>The plate that shows a new token once: a tick per second, and at zero it is dismissed.\<close>

definition reveal_tick :: "int \<Rightarrow> tokens_page \<Rightarrow> int \<times> tokens_page" where
  "reveal_tick left p = (let l = left - 1 in
     (l, if l \<le> 0 then (tp_toast ''toast.hidden'' p)\<lparr>tp_created := None\<rparr> else p))"

section \<open>What the page shows and does\<close>

lemma toRow_id [simp]: "tr_id (toRow date i info l) = i"
  by (simp add: toRow_def Let_def split: option.split)

lemma toRow_unresolved [simp]: "tr_name (toRow date i None l) = []"
  by (simp add: toRow_def)

lemma length_infos: "length (token_infos look ids) = min ENRICH_CAP (length ids)"
  by (simp add: token_infos_def)

definition raw_rows :: "(jsstring \<Rightarrow> (int \<times> int) option) \<Rightarrow> (jsstring \<Rightarrow> token_lookup) \<Rightarrow> jsstring list \<Rightarrow> token_row list" where
  "raw_rows date look ids = map (\<lambda>k. if k < ENRICH_CAP then toRow date (ids ! k) (lk_data (look (ids ! k))) (lk_pending (look (ids ! k)))
     else toRow date (ids ! k) None False) [0..<length ids]"

lemma mset_token_rows: "mset (token_rows date look ids) = mset (raw_rows date look ids)"
proof -
  have "map (\<lambda>k. if k < length (token_infos look ids) then toRow date (ids ! k) (lk_data (token_infos look ids ! k)) (lk_pending (token_infos look ids ! k))
      else toRow date (ids ! k) None False) [0..<length ids] = raw_rows date look ids"
    unfolding raw_rows_def by (rule map_cong) (auto simp: length_infos token_infos_def)
  then show ?thesis by (simp add: token_rows_def Let_def)
qed

text \<open>Every id that the server listed has exactly one row.\<close>

lemma token_rows_ids: "mset (map tr_id (token_rows date look ids)) = mset ids"
proof -
  have "map tr_id (raw_rows date look ids) = map ((!) ids) [0..<length ids]" by (auto simp: raw_rows_def)
  then have "map tr_id (raw_rows date look ids) = ids" by (simp add: map_nth)
  then show ?thesis using mset_token_rows [of date look ids] by (metis mset_map)
qed

lemma selIds_listed: "set (selIds (token_rows date look ids) p) \<subseteq> set ids \<inter> set (tp_sel p)"
  using arg_cong [OF token_rows_ids [of date look ids], of set_mset] by (auto simp: selIds_def set_has_def)

text \<open>The targets of a revocation are split into the ones that dissolve and the ones that are reported as failed.\<close>

lemma revoke_outcome:
  assumes "length results = length targets"
  shows "set (revoked_ids targets results) = {targets ! i | i. i < length targets \<and> settled_ok (results ! i)}"
    and "length (revoked_ids targets results) \<le> length targets"
proof -
  show "set (revoked_ids targets results) = {targets ! i | i. i < length targets \<and> settled_ok (results ! i)}"
    using assms by (fastforce simp: revoked_ids_def set_zip image_iff)
  show "length (revoked_ids targets results) \<le> length targets"
    using length_filter_le [of "\<lambda>(i, r). settled_ok r" "zip targets results"] assms by (simp add: revoked_ids_def)
qed

lemma has_dissolve: "set_has (tp_dissolving (dissolve ts p)) i \<longleftrightarrow> i \<in> set ts \<or> set_has (tp_dissolving p) i"
  by (simp add: dissolve_def jsset.has_fold_add)

lemma revoked_are_dissolving:
  assumes "i \<in> set (revoked_ids targets results)"
  shows "set_has (tp_dissolving (revoke_tokens targets results p)) i \<and> \<not> set_has (tp_sel (revoke_tokens targets results p)) i"
  using assms by (auto simp: revoke_tokens_def Let_def tp_toast_def has_dissolve jsset.has_fold_delete)

text \<open>After a sweep every row that has expired is on its way out.\<close>

lemma sweep_complete:
  assumes "r \<in> set rows" "tr_expiresAt r = Some e" "e \<le> tp_now p"
  shows "set_has (tp_dissolving (expiry_sweep rows p)) (tr_id r)"
  using assms by (auto simp: expiry_sweep_def Let_def tp_toast_def has_dissolve expired_rows_def filter_empty_conv)

text \<open>The pages put together are the filtered rows.\<close>

lemma pages_cover:
  "concat (map (\<lambda>pg. page_rows (Suc pg) rows) [0..<max 1 ((length rows + PER_PAGE - 1) div PER_PAGE)]) = rows"
proof -
  let ?n = "max 1 ((length rows + PER_PAGE - 1) div PER_PAGE)"
  have slice: "page_rows (Suc pg) rows = take PER_PAGE (drop (pg * PER_PAGE) rows)" if "pg < ?n" for pg
    using that by (simp add: page_rows_def Let_def min_def)
  have slices: "concat (map (\<lambda>pg. take PER_PAGE (drop (pg * PER_PAGE) rows)) [0..<k]) = take (k * PER_PAGE) rows" for k
    by (induction k) (simp_all add: take_add [symmetric] add.commute)
  have all: "length rows \<le> ?n * PER_PAGE"
    by (simp add: PER_PAGE_def max_def) linarith
  have pages: "map (\<lambda>pg. page_rows (Suc pg) rows) [0..<?n] = map (\<lambda>pg. take PER_PAGE (drop (pg * PER_PAGE) rows)) [0..<?n]"
    by (rule map_cong) (auto simp: slice)
  show ?thesis unfolding pages slices using all by (rule take_all)
qed

text \<open>An identifier that is masked shows at most its last four characters.\<close>

lemma maskId_same: "drop (length i - 4) i = drop (length j - 4) j \<Longrightarrow> maskId i = maskId j"
  by (simp add: maskId_def)

text \<open>What the create dialog sends has a lifetime of a minute at least and a use count of at most nine digits.\<close>

lemma create_submit_sends:
  assumes "create_submit chips f = (Some r, f')"
  shows "60 \<le> cr_ttl f \<and> length (trim (cr_name f)) \<le> 64 \<and> test USES_RE (trim (cr_uses f)) \<and> \<not> cr_pending f \<and> cr_pending f'"
  using assms by (auto simp: create_submit_def create_bad_def Let_def split: if_splits)

text \<open>
  C36: revoking by prefix does not reach every token. The dialog says that every token whose name starts with the prefix is
  revoked, but it looks at the rows of the page, and only the first hundred tokens of the list get a lookup: a token behind
  them has no name there, so it is never among the tokens the dialog revokes, whatever its name is.
\<close>

theorem prefix_revoke_misses:
  assumes "lw [] = []" and "distinct ids" and "100 \<le> i" and "i < length ids"
  shows "ids ! i \<notin> set (nullish (prefix_run lw word pre typed busy (token_rows date look ids)) [])"
proof -
  have "tr_id r \<noteq> ids ! i" if r: "r \<in> set (token_rows date look ids)" and n: "tr_name r \<noteq> []" for r
  proof -
    have "r \<in> set (raw_rows date look ids)" using r mset_token_rows [of date look ids] by (metis set_mset_mset)
    then obtain k where k: "k < length ids" "tr_id r = ids ! k" "k < ENRICH_CAP"
      using n by (auto simp: raw_rows_def split: if_splits)
    then show ?thesis using assms by (auto simp: ENRICH_CAP_def nth_eq_iff_index_eq)
  qed
  moreover have "tr_name r \<noteq> []" if "r \<in> set (prefix_matches lw pre rows)" for r rows
    using that assms(1) by (auto simp: prefix_matches_def Let_def split: if_splits)
  moreover have "r \<in> set rows" if "r \<in> set (prefix_matches lw pre rows)" for r rows
    using that by (auto simp: prefix_matches_def Let_def split: if_splits)
  ultimately have "ids ! i \<notin> tr_id ` set (prefix_matches lw pre (token_rows date look ids))" by (metis (no_types, lifting) imageE)
  then show ?thesis by (simp add: prefix_run_def)
qed

lemma distinct_dec: "distinct (map dec [0..<n])"
proof -
  have "inj dec" by (rule inj_on_inverseI [of _ undec]) simp
  then show ?thesis by (simp add: distinct_map inj_on_subset [OF _ subset_UNIV])
qed

definition demo_lookup :: "jsstring \<Rightarrow> token_lookup" where
  "demo_lookup i = \<lparr>lk_data = Some \<lparr>td_id = i, td_accessor = None, td_display_name = Some (js ''ci-'' @ i), td_policies = None, td_max_uses = None,
     td_use_count = None, td_renewable = None, td_created_at = None, td_expires_at = None, td_namespace = None\<rparr>, lk_pending = False\<rparr>"

theorem prefix_revoke_misses_witness:
  "let ids = map dec [0..<101] in dec 100 = ids ! 100 \<and>
     dec 100 \<notin> set (nullish (prefix_run lower (js ''revoke'') (js ''ci-'') (js ''revoke'') False (token_rows (\<lambda>_. None) demo_lookup ids)) [])"
proof -
  have 1: "lower [] = []" by (simp add: lower_def)
  have 2: "(map dec [0..<101]) ! 100 = dec 100" by (subst nth_map) simp_all
  have 3: "100 < length (map dec [0..<101])" by simp
  show ?thesis
    using prefix_revoke_misses [of lower "map dec [0..<101]" 100 "js ''revoke''" "js ''ci-''" "js ''revoke''" False "\<lambda>_. None" demo_lookup]
      1 distinct_dec [of 101] 3
    unfolding Let_def 2 by (simp only: simp_thms le_refl)
qed

end
