(* ===== verification/Namespaces.thy ===== *)
theory Namespaces
  imports Kv2_Page
begin

text \<open>
  Namespaces: the name rule of the create form (\<open>namespaces.page.tsx\<close>) beside the rule of the server
  (\<open>internal/namespace/namespace.go\<close>), the storage prefix of a namespace, the deletion of a namespace on the barrier
  (\<open>internal/core/core.go\<close>), the metadata limits of both sides, and the page itself. A string of the server is its list
  of bytes; \<open>text_encode\<close> gives the bytes of a text of the console. The barrier is unsealed and its backend does not fail.
  \<open>lc\<close> is \<open>localeCompare\<close> and \<open>lw\<close> is \<open>toLowerCase\<close>.
\<close>

section \<open>The name rule of the form\<close>

definition seg_head :: "jschar \<Rightarrow> bool" where
  "seg_head c \<longleftrightarrow> in_range CHR ''a'' CHR ''z'' c \<or> is_digit c"

definition seg_tail :: "jschar \<Rightarrow> bool" where
  "seg_tail c \<longleftrightarrow> seg_head c \<or> c = jc CHR ''-''"

definition SEGMENT_RE :: re where
  "SEGMENT_RE = anchored (Seq (Cls seg_head) (Star (Cls seg_tail)))"

definition MAX_NAME_SEGMENTS :: nat where "MAX_NAME_SEGMENTS = 4"
definition MAX_NAME_LENGTH :: nat where "MAX_NAME_LENGTH = 128"

datatype name_error = ErrRoot | ErrChars | ErrSegments | ErrLength

fun segments_error :: "jsstring list \<Rightarrow> name_error option" where
  "segments_error [] = None"
| "segments_error (seg # segs) =
     (if seg = js ''root'' then Some ErrRoot
      else if \<not> test SEGMENT_RE seg then Some ErrChars
      else segments_error segs)"

definition nameErrorKind :: "jsstring \<Rightarrow> name_error option" where
  "nameErrorKind trimmed =
     (if trimmed = [] then None
      else if MAX_NAME_LENGTH < length trimmed then Some ErrLength
      else let segments = split_on (jc CHR ''/'') trimmed in
        if MAX_NAME_SEGMENTS < length segments then Some ErrSegments
        else segments_error segments)"

section \<open>The name rule of the server\<close>

type_synonym gostring = "nat list"

definition gostr :: "string \<Rightarrow> gostring" where
  "gostr s = map of_char s"

text \<open>\<open>strings.Split\<close> at one byte.\<close>

fun go_split :: "nat \<Rightarrow> gostring \<Rightarrow> gostring list" where
  "go_split c [] = [[]]"
| "go_split c (x # xs) =
     (if x = c then [] # go_split c xs
      else (case go_split c xs of [] \<Rightarrow> [[x]] | w # ws \<Rightarrow> (x # w) # ws))"

text \<open>\<open>^[a-z0-9][a-z0-9-]*$\<close>\<close>

definition go_lower_digit :: "nat \<Rightarrow> bool" where
  "go_lower_digit b \<longleftrightarrow> (of_char CHR ''a'' \<le> b \<and> b \<le> of_char CHR ''z'') \<or> (of_char CHR ''0'' \<le> b \<and> b \<le> of_char CHR ''9'')"

definition segmentRe :: "gostring \<Rightarrow> bool" where
  "segmentRe s = (case s of [] \<Rightarrow> False
     | b # bs \<Rightarrow> go_lower_digit b \<and> list_all (\<lambda>x. go_lower_digit x \<or> x = of_char CHR ''-'') bs)"

definition MaxNameSegments :: nat where "MaxNameSegments = 4"
definition MaxNameLength :: nat where "MaxNameLength = 128"
definition GoRootNamespace :: gostring where "GoRootNamespace = gostr ''root''"

text \<open>True when \<open>ValidateName\<close> returns no error: it has one error value only.\<close>

definition ValidateName :: "gostring \<Rightarrow> bool" where
  "ValidateName name =
     (if MaxNameLength < length name then False
      else let segments = go_split (of_char CHR ''/'') name in
        if MaxNameSegments < length segments then False
        else list_all (\<lambda>seg. \<not> (seg = GoRootNamespace \<or> \<not> segmentRe seg)) segments)"

section \<open>Storage\<close>

definition StoragePrefix :: "gostring \<Rightarrow> gostring" where
  "StoragePrefix ns =
     (if ns = [] \<or> ns = GoRootNamespace then []
      else gostr ''ns/'' @ map (\<lambda>b. if b = of_char CHR ''/'' then of_char CHR ''~'' else b) ns @ gostr ''/'')"

text \<open>The barrier: its keys with their values, one entry for a key.\<close>

type_synonym 'v barrier = "(gostring \<times> 'v) list"

definition barrier_get :: "gostring \<Rightarrow> 'v barrier \<Rightarrow> 'v option" where
  "barrier_get k st = map_of st k"

definition barrier_put :: "gostring \<Rightarrow> 'v \<Rightarrow> 'v barrier \<Rightarrow> 'v barrier" where
  "barrier_put k v st = (k, v) # filter (\<lambda>e. fst e \<noteq> k) st"

definition barrier_delete :: "gostring \<Rightarrow> 'v barrier \<Rightarrow> 'v barrier" where
  "barrier_delete k st = filter (\<lambda>e. fst e \<noteq> k) st"

definition barrier_list :: "gostring \<Rightarrow> 'v barrier \<Rightarrow> gostring list" where
  "barrier_list pre st = filter (\<lambda>k. take (length pre) k = pre) (map fst st)"

definition record_key :: "gostring \<Rightarrow> gostring" where
  "record_key name = gostr ''sys/namespaces/'' @ name"

definition namespace_names :: "'v barrier \<Rightarrow> gostring list" where
  "namespace_names st = map (drop (length (gostr ''sys/namespaces/''))) (barrier_list (gostr ''sys/namespaces/'') st)"

record go_metadata =
  gm_Description :: gostring
  gm_Owner :: gostring
  gm_Labels :: "(gostring \<times> gostring) list"

record go_namespace =
  gn_Name :: gostring
  gn_CreatedAt :: int
  gn_Description :: gostring
  gn_Owner :: gostring
  gn_Labels :: "(gostring \<times> gostring) list option"
  gn_UpdatedAt :: "int option"

text \<open>\<open>ns.Apply(m)\<close>: an empty map of labels becomes \<open>nil\<close>.\<close>

definition Apply :: "go_metadata \<Rightarrow> go_namespace \<Rightarrow> go_namespace" where
  "Apply m ns = ns\<lparr>gn_Description := gm_Description m, gn_Owner := gm_Owner m,
     gn_Labels := if gm_Labels m = [] then None else Some (gm_Labels m)\<rparr>"

text \<open>An entry of the barrier is the JSON of a namespace record, or any other data, which does not decode as one.\<close>

datatype 'v stored = Record go_namespace | Data 'v

datatype ns_error = InvalidName | InvalidMetadata | AlreadyExists | NotFound | Unmarshal | RootUndeletable

definition ns_Get :: "gostring \<Rightarrow> 'v stored barrier \<Rightarrow> ns_error + go_namespace" where
  "ns_Get name st = (case barrier_get (record_key name) st of
      None \<Rightarrow> Inl NotFound | Some (Record ns) \<Rightarrow> Inr ns | Some (Data v) \<Rightarrow> Inl Unmarshal)"

definition new_namespace :: "int \<Rightarrow> gostring \<Rightarrow> go_namespace" where
  "new_namespace now name = \<lparr>gn_Name = name, gn_CreatedAt = now, gn_Description = [], gn_Owner = [], gn_Labels = None, gn_UpdatedAt = None\<rparr>"

definition CreateNamespace :: "int \<Rightarrow> gostring \<Rightarrow> 'v stored barrier \<Rightarrow> ns_error + 'v stored barrier" where
  "CreateNamespace now name st =
     (if \<not> ValidateName name then Inl InvalidName
      else case ns_Get name st of
        Inr existing \<Rightarrow> Inl AlreadyExists
      | Inl e \<Rightarrow> Inr (barrier_put (record_key name) (Record (new_namespace now name)) st))"

definition DeleteNamespace :: "gostring \<Rightarrow> 'v barrier \<Rightarrow> ns_error + 'v barrier" where
  "DeleteNamespace name st =
     (if name = [] \<or> name = GoRootNamespace then Inl RootUndeletable
      else let st1 = barrier_delete (record_key name) st;
               keys = barrier_list (StoragePrefix name) st1
           in Inr (fold barrier_delete keys st1))"


section \<open>The two name rules agree\<close>

lemma go_split_ne [simp]: "go_split c s \<noteq> []"
  by (induction s) (auto split: list.splits)

lemma utf8_ascii_iff: "list_all (\<lambda>b. b < 128) (utf8 n) \<longleftrightarrow> n < 128"
  by (auto simp: utf8_def)

lemma utf8_small [simp]: "n < 128 \<Longrightarrow> utf8 n = [n]"
  by (simp add: utf8_def)

lemma surrogate_big: "is_high c \<Longrightarrow> unat c < 128 \<Longrightarrow> False" "is_low c \<Longrightarrow> unat c < 128 \<Longrightarrow> False"
  by (auto simp: is_high_def is_low_def word_le_nat_alt)

lemma text_code_points_ascii:
  "list_all (\<lambda>n. n < 128) (text_code_points s) \<longleftrightarrow> list_all (\<lambda>c. unat c < 128) s"
  by (induction s rule: text_code_points.induct) (auto simp: cp_of_pair_def dest: surrogate_big)

lemma text_code_points_plain: "list_all (\<lambda>c. \<not> is_high c \<and> \<not> is_low c) s \<Longrightarrow> text_code_points s = map unat s"
  by (induction s rule: text_code_points.induct) auto

lemma text_code_points_map: "list_all (\<lambda>c. unat c < 128) s \<Longrightarrow> text_code_points s = map unat s"
  by (rule text_code_points_plain) (auto simp: list_all_iff dest: surrogate_big)

lemma text_encode_ascii: "list_all (\<lambda>b. b < 128) (text_encode s) \<longleftrightarrow> list_all (\<lambda>c. unat c < 128) s"
proof -
  have "list_all (\<lambda>b. b < 128) (concat (map utf8 ns)) \<longleftrightarrow> list_all (\<lambda>n. n < 128) ns" for ns
    by (induction ns) (simp_all add: utf8_ascii_iff)
  then show ?thesis by (simp add: text_encode_def text_code_points_ascii)
qed

lemma text_encode_map: "list_all (\<lambda>c. unat c < 128) s \<Longrightarrow> text_encode s = map unat s"
proof -
  assume a: "list_all (\<lambda>c. unat c < 128) s"
  have "list_all (\<lambda>n. n < 128) ns \<Longrightarrow> concat (map utf8 ns) = ns" for ns by (induction ns) simp_all
  from this [of "map unat s"] a show ?thesis unfolding text_encode_def text_code_points_map [OF a] by (simp add: list_all_iff)
qed

lemma go_split_map: "go_split (unat c) (map unat s) = map (map unat) (split_on c s)"
  by (induction s) (auto simp: word_unat_eq_iff split: list.splits)

lemma go_split_mem: "x \<in> set s \<Longrightarrow> x = c \<or> (\<exists>seg\<in>set (go_split c s). x \<in> set seg)"
  by (induction s) (auto split: list.splits)

lemma split_on_mem_seg: "x \<in> set s \<Longrightarrow> x = c \<or> (\<exists>seg\<in>set (split_on c s). x \<in> set seg)"
  by (induction s) (auto split: list.splits)

lemma test_SEGMENT_RE: "test SEGMENT_RE s \<longleftrightarrow> s \<noteq> [] \<and> seg_head (hd s) \<and> list_all seg_tail (tl s)"
  unfolding SEGMENT_RE_def by (subst test_anchored) (auto simp: re_lang list_all_iff neq_Nil_conv simp del: lang.simps)

lemma seg_head_go: "seg_head c \<longleftrightarrow> go_lower_digit (unat c)"
  by (simp add: seg_head_def go_lower_digit_def in_range_def is_digit_def word_le_nat_alt)

lemma seg_tail_go: "seg_tail c \<longleftrightarrow> go_lower_digit (unat c) \<or> unat c = of_char CHR ''-''"
  by (simp add: seg_tail_def seg_head_go word_unat_eq_iff)

lemma segmentRe_map: "segmentRe (map unat s) \<longleftrightarrow> test SEGMENT_RE s"
  by (cases s) (simp_all add: segmentRe_def test_SEGMENT_RE seg_head_go seg_tail_go list_all_iff)

lemma root_map: "map unat s = GoRootNamespace \<longleftrightarrow> s = js ''root''"
proof -
  have "GoRootNamespace = map unat (js ''root'')" by (simp add: GoRootNamespace_def gostr_def)
  moreover have "inj (unat :: jschar \<Rightarrow> nat)" by (simp add: inj_def word_unat_eq_iff)
  ultimately show ?thesis by (metis inj_map_eq_map)
qed

lemma segments_error_None:
  "segments_error segs = None \<longleftrightarrow> list_all (\<lambda>seg. seg \<noteq> js ''root'' \<and> test SEGMENT_RE seg) segs"
  by (induction segs) auto

lemma nameErrorKind_None:
  "s \<noteq> [] \<Longrightarrow> nameErrorKind s = None \<longleftrightarrow> length s \<le> 128 \<and> length (split_on (jc CHR ''/'') s) \<le> 4 \<and>
    list_all (\<lambda>seg. seg \<noteq> js ''root'' \<and> test SEGMENT_RE seg) (split_on (jc CHR ''/'') s)"
  by (auto simp: nameErrorKind_def MAX_NAME_LENGTH_def MAX_NAME_SEGMENTS_def segments_error_None Let_def)

lemma ValidateName_iff:
  "ValidateName b \<longleftrightarrow> length b \<le> 128 \<and> length (go_split 47 b) \<le> 4 \<and>
    list_all (\<lambda>seg. seg \<noteq> GoRootNamespace \<and> segmentRe seg) (go_split 47 b)"
  by (auto simp: ValidateName_def MaxNameLength_def MaxNameSegments_def Let_def)

lemma segmentRe_bytes: "segmentRe s \<Longrightarrow> x \<in> set s \<Longrightarrow> go_lower_digit x \<or> x = 45"
  by (auto simp: segmentRe_def list_all_iff split: list.splits)

text \<open>The bytes of a valid name: lower case letters, digits, the dash and the slash.\<close>

lemma ValidateName_bytes:
  assumes "ValidateName b" "x \<in> set b"
  shows "go_lower_digit x \<or> x = 45 \<or> x = 47"
proof -
  have "x = 47 \<or> (\<exists>seg\<in>set (go_split 47 b). x \<in> set seg)" using go_split_mem [OF assms(2)] .
  with assms(1) show ?thesis by (auto simp: ValidateName_iff list_all_iff dest!: segmentRe_bytes)
qed

lemma ValidateName_ascii: "ValidateName b \<Longrightarrow> list_all (\<lambda>x. x < 128) b"
  by (auto simp: list_all_iff go_lower_digit_def dest!: ValidateName_bytes)

lemma seg_tail_ascii: "test SEGMENT_RE seg \<Longrightarrow> c \<in> set seg \<Longrightarrow> unat c < 128"
  by (cases seg) (auto simp: test_SEGMENT_RE seg_head_go seg_tail_go list_all_iff go_lower_digit_def)

lemma nameErrorKind_ascii:
  assumes "s \<noteq> []" "nameErrorKind s = None" shows "list_all (\<lambda>c. unat c < 128) s"
proof -
  have "unat c < 128" if "c \<in> set s" for c
    using split_on_mem_seg [OF that, of "jc CHR ''/''"] assms by (auto simp: nameErrorKind_None list_all_iff dest: seg_tail_ascii)
  then show ?thesis by (simp add: list_all_iff)
qed

lemma not_ValidateName_Nil [simp]: "\<not> ValidateName []"
  by (simp add: ValidateName_iff segmentRe_def)

lemma server_rule:
  "nameErrorKind s = None \<longleftrightarrow> s = [] \<or> ValidateName (text_encode s)"
proof (cases "s = []")
  case False
  have "ValidateName (text_encode s) \<Longrightarrow> list_all (\<lambda>c. unat c < 128) s"
    using ValidateName_ascii text_encode_ascii by blast
  moreover have "ValidateName (text_encode s) \<longleftrightarrow> nameErrorKind s = None" if a: "list_all (\<lambda>c. unat c < 128) s"
  proof -
    have "go_split 47 (map unat s) = map (map unat) (split_on (jc CHR ''/'') s)"
      using go_split_map [of "jc CHR ''/''" s] by simp
    then show ?thesis using False
      by (simp add: ValidateName_iff nameErrorKind_None text_encode_map [OF a] list_all_iff segmentRe_map root_map)
  qed
  ultimately show ?thesis using False nameErrorKind_ascii by blast
qed (simp add: nameErrorKind_def)


text \<open>
  C39: the rule the create form applies to a name is the rule of the server: a non-empty text passes the form exactly
  when the bytes the server receives for it pass \<open>ValidateName\<close>, for every text, also with characters outside ASCII.
\<close>

theorem name_rule_is_the_servers:
  "nameErrorKind s = None \<longleftrightarrow> s = [] \<or> ValidateName (text_encode s)"
  by (rule server_rule)

section \<open>Namespaces do not share storage\<close>

definition escape_slash :: "gostring \<Rightarrow> gostring" where
  "escape_slash = map (\<lambda>b. if b = 47 then 126 else b)"

lemma ValidateName_not_root: "ValidateName GoRootNamespace = False"
  by (simp add: ValidateName_iff GoRootNamespace_def gostr_def)

lemma StoragePrefix_valid: "ValidateName a \<Longrightarrow> StoragePrefix a = [110, 115, 47] @ escape_slash a @ [47]"
  using ValidateName_not_root by (auto simp: StoragePrefix_def gostr_def escape_slash_def)

lemma escape_slash_free: "47 \<notin> set (escape_slash a)"
  by (auto simp: escape_slash_def)

lemma escape_slash_inj:
  assumes "126 \<notin> set a" "126 \<notin> set b" "escape_slash a = escape_slash b" shows "a = b"
  using assms(3,1,2)
proof (induction a arbitrary: b)
  case (Cons x a)
  then obtain y b' where b: "b = y # b'" by (cases b) (auto simp: escape_slash_def)
  with Cons have "a = b'" by (auto simp: escape_slash_def)
  with Cons.prems b show ?case by (auto simp: escape_slash_def split: if_splits)
qed (simp add: escape_slash_def)

lemma append_first_split:
  "c \<notin> set a \<Longrightarrow> c \<notin> set b \<Longrightarrow> a @ c # x = b @ c # y \<Longrightarrow> a = b \<and> x = y"
  by (induction a arbitrary: b) (auto simp: Cons_eq_append_conv append_eq_Cons_conv)

text \<open>The claim of the comment above \<open>StoragePrefix\<close>: the first slash after \<open>ns/\<close> ends the namespace, whatever follows.\<close>

lemma StoragePrefix_unambiguous:
  assumes "ValidateName a" "ValidateName b" "StoragePrefix a @ k = StoragePrefix b @ l"
  shows "a = b \<and> k = l"
proof -
  have "escape_slash a @ 47 # k = escape_slash b @ 47 # l" using assms by (simp add: StoragePrefix_valid)
  then have "escape_slash a = escape_slash b \<and> k = l" using escape_slash_free by (blast dest: append_first_split)
  moreover have "126 \<notin> set x" if "ValidateName x" for x
    using ValidateName_bytes [OF that] by (force simp: go_lower_digit_def)
  ultimately show ?thesis using assms(1,2) escape_slash_inj by blast
qed

text \<open>What a client of the barrier relies on: the look-ups after a write and after a deletion, and the listing by prefix.\<close>

locale key_value =
  fixes get :: "'k list \<Rightarrow> 's \<Rightarrow> 'v option"
    and put :: "'k list \<Rightarrow> 'v \<Rightarrow> 's \<Rightarrow> 's"
    and del :: "'k list \<Rightarrow> 's \<Rightarrow> 's"
    and keys :: "'k list \<Rightarrow> 's \<Rightarrow> 'k list list"
  assumes get_put: "get k (put k' v s) = (if k = k' then Some v else get k s)"
    and get_del: "get k (del k' s) = (if k = k' then None else get k s)"
    and keys_get: "get k s \<noteq> None \<Longrightarrow> k \<in> set (keys pre s) \<longleftrightarrow> take (length pre) k = pre"
begin

lemma get_fold_del: "get k (fold del ks s) = (if k \<in> set ks then None else get k s)"
  by (induction ks arbitrary: s) (auto simp: get_del)

lemma get_wipe: "get k (fold del (keys pre s) s) = (if take (length pre) k = pre then None else get k s)"
  using keys_get [of k s pre] by (cases "get k s") (auto simp: get_fold_del)

end

lemma barrier_get_delete: "barrier_get k (barrier_delete k' st) = (if k = k' then None else barrier_get k st)"
  by (induction st) (auto simp: barrier_get_def barrier_delete_def)

interpretation barrier_kv: key_value barrier_get barrier_put barrier_delete barrier_list
proof
  fix k k' :: gostring and v :: 'a and st :: "'a barrier" and pre :: gostring
  show "barrier_get k (barrier_put k' v st) = (if k = k' then Some v else barrier_get k st)"
    using barrier_get_delete [of k k' st] by (simp add: barrier_get_def barrier_put_def barrier_delete_def)
  show "barrier_get k (barrier_delete k' st) = (if k = k' then None else barrier_get k st)" by (rule barrier_get_delete)
  show "barrier_get k st \<noteq> None \<Longrightarrow> k \<in> set (barrier_list pre st) \<longleftrightarrow> take (length pre) k = pre"
    by (auto simp: barrier_list_def barrier_get_def map_of_eq_None_iff simp del: not_None_eq)
qed

lemmas barrier_get_put = barrier_kv.get_put

text \<open>What a deletion leaves: everything but the record and the keys under the prefix.\<close>

lemma DeleteNamespace_get:
  assumes "ValidateName a"
  obtains st' where "DeleteNamespace a st = Inr st'"
    and "\<And>k. barrier_get k st' =
      (if k = record_key a \<or> take (length (StoragePrefix a)) k = StoragePrefix a then None else barrier_get k st)"
proof -
  let ?st = "barrier_delete (record_key a) st"
  have "DeleteNamespace a st = Inr (fold barrier_delete (barrier_list (StoragePrefix a) ?st) ?st)"
    using assms ValidateName_not_root by (auto simp: DeleteNamespace_def Let_def)
  moreover have "barrier_get k (fold barrier_delete (barrier_list (StoragePrefix a) ?st) ?st) =
      (if k = record_key a \<or> take (length (StoragePrefix a)) k = StoragePrefix a then None else barrier_get k st)" for k
    by (simp add: barrier_kv.get_wipe barrier_get_delete)
  ultimately show ?thesis using that by blast
qed

lemma StoragePrefix_other:
  assumes "ValidateName a" "ValidateName b" "a \<noteq> b"
  shows "take (length (StoragePrefix a)) (StoragePrefix b @ k) \<noteq> StoragePrefix a"
proof
  assume "take (length (StoragePrefix a)) (StoragePrefix b @ k) = StoragePrefix a"
  then have "StoragePrefix a @ drop (length (StoragePrefix a)) (StoragePrefix b @ k) = StoragePrefix b @ k"
    by (metis append_take_drop_id)
  then show False using StoragePrefix_unambiguous [OF assms(1,2)] assms(3) by blast
qed

lemma record_key_not_prefixed: "ValidateName a \<Longrightarrow> take (length (StoragePrefix a)) (record_key b) \<noteq> StoragePrefix a"
  by (auto simp: StoragePrefix_valid record_key_def gostr_def)

lemma prefixed_not_record_key: "ValidateName b \<Longrightarrow> StoragePrefix b @ k \<noteq> record_key a"
  by (auto simp: StoragePrefix_valid record_key_def gostr_def)

text \<open>
  C38: deleting a namespace succeeds, removes its record and every key stored under it, and changes nothing else: neither
  the record nor any key of another namespace, also when one name begins with the other, nor any key outside the
  namespaces.
\<close>

theorem delete_namespace_isolated:
  assumes "ValidateName a"
  shows "\<exists>st'. DeleteNamespace a st = Inr st' \<and>
    barrier_get (record_key a) st' = None \<and> (\<forall>k. barrier_get (StoragePrefix a @ k) st' = None) \<and>
    (\<forall>b k. ValidateName b \<longrightarrow> b \<noteq> a \<longrightarrow>
       barrier_get (StoragePrefix b @ k) st' = barrier_get (StoragePrefix b @ k) st \<and>
       barrier_get (record_key b) st' = barrier_get (record_key b) st) \<and>
    (\<forall>k. take 3 k \<noteq> gostr ''ns/'' \<longrightarrow> k \<noteq> record_key a \<longrightarrow> barrier_get k st' = barrier_get k st)"
proof -
  obtain st' where st': "DeleteNamespace a st = Inr st'"
    and get: "\<And>k. barrier_get k st' =
      (if k = record_key a \<or> take (length (StoragePrefix a)) k = StoragePrefix a then None else barrier_get k st)"
    using DeleteNamespace_get [OF assms] by metis
  have root: "take (length (StoragePrefix a)) k \<noteq> StoragePrefix a" if "take 3 k \<noteq> gostr ''ns/''" for k
  proof
    assume "take (length (StoragePrefix a)) k = StoragePrefix a"
    then obtain r where "k = StoragePrefix a @ r" by (metis append_take_drop_id)
    with that show False by (simp add: StoragePrefix_valid [OF assms] gostr_def)
  qed
  have "record_key b \<noteq> record_key a" if "b \<noteq> a" for b using that by (simp add: record_key_def)
  moreover have "take (length (StoragePrefix a)) (StoragePrefix a @ k) = StoragePrefix a" for k by simp
  ultimately show ?thesis
    using st' root StoragePrefix_other [OF assms]
    by (intro exI [of _ st']) (auto simp: get record_key_not_prefixed [OF assms] prefixed_not_record_key simp del: take_append)
qed

theorem delete_namespace_isolated_witness:
  "\<exists>st'. DeleteNamespace (gostr ''team'') [(record_key (gostr ''team''), 0 :: nat), (gostr ''ns/team/secret/x'', 1), (gostr ''ns/team~a/secret/x'', 2)] =
      Inr st' \<and> barrier_get (gostr ''ns/team/secret/x'') st' = None \<and> barrier_get (gostr ''ns/team~a/secret/x'') st' = Some 2"
proof -
  let ?st = "[(record_key (gostr ''team''), 0 :: nat), (gostr ''ns/team/secret/x'', 1), (gostr ''ns/team~a/secret/x'', 2)]"
  have v: "ValidateName (gostr ''team'')" "ValidateName (gostr ''team/a'')"
    by (simp_all add: ValidateName_iff gostr_def segmentRe_def go_lower_digit_def GoRootNamespace_def)
  have p: "StoragePrefix (gostr ''team'') @ gostr ''secret/x'' = gostr ''ns/team/secret/x''"
    "StoragePrefix (gostr ''team/a'') @ gostr ''secret/x'' = gostr ''ns/team~a/secret/x''"
    by (simp_all add: StoragePrefix_def gostr_def GoRootNamespace_def)
  have "barrier_get (gostr ''ns/team~a/secret/x'') ?st = Some 2" by (simp add: barrier_get_def gostr_def record_key_def)
  moreover have "gostr ''team/a'' \<noteq> gostr ''team''" by (simp add: gostr_def)
  ultimately show ?thesis using delete_namespace_isolated [OF v(1), of ?st] v(2) p by metis
qed


section \<open>Metadata\<close>

definition MAX_DESC :: nat where "MAX_DESC = 512"
definition MAX_OWNER :: nat where "MAX_OWNER = 128"
definition MAX_LABELS :: nat where "MAX_LABELS = 32"

definition label_head :: "jschar \<Rightarrow> bool" where
  "label_head c \<longleftrightarrow> in_range CHR ''A'' CHR ''Z'' c \<or> in_range CHR ''a'' CHR ''z'' c \<or> is_digit c"

definition LABEL_KEY_RE :: re where
  "LABEL_KEY_RE = anchored (Seq (Cls label_head) (Upto 63 (Cls (\<lambda>c. label_head c \<or> one_of ''_./-'' c))))"

definition pairsOf :: "(jsstring \<Rightarrow> jsstring \<Rightarrow> int) \<Rightarrow> jsstring jsobj option \<Rightarrow> kv_pair list" where
  "pairsOf lc labels = sort_by (\<lambda>a b. lc (fst a) (fst b)) (entries (nullish labels []))"

definition put_label :: "kv_pair \<Rightarrow> jsstring jsobj \<Rightarrow> jsstring jsobj" where
  "put_label p out = (let k = trim (fst p) in if k \<noteq> [] then obj_assign k (snd p) out else out)"

definition labelsOf :: "kv_pair list \<Rightarrow> jsstring jsobj" where
  "labelsOf pairs = fold put_label pairs []"

text \<open>The form: description, owner and label rows.\<close>

record ns_form =
  nf_description :: jsstring
  nf_owner :: jsstring
  nf_labels :: "kv_pair list"

definition metaErr :: "ns_form \<Rightarrow> bool" where
  "metaErr f \<longleftrightarrow> MAX_DESC < length (nf_description f) \<or> MAX_OWNER < length (nf_owner f) \<or>
     \<not> kvv_valid (validateKv LABEL_KEY_RE (nf_labels f))"

definition form_meta :: "ns_form \<Rightarrow> ns_meta" where
  "form_meta f = \<lparr>nm_description = Some (trim (nf_description f)), nm_owner = Some (trim (nf_owner f)),
     nm_labels = Some (labelsOf (nf_labels f))\<rparr>"

text \<open>The button that adds a row is disabled at \<open>maxPairs\<close>.\<close>

definition add_label :: "ns_form \<Rightarrow> ns_form" where
  "add_label f = (if MAX_LABELS \<le> length (nf_labels f) then f else f\<lparr>nf_labels := kv_add (nf_labels f)\<rparr>)"

text \<open>The server: \<open>Metadata.Validate\<close>. The labels are in the order the loop visits them.\<close>

definition MaxDescription :: nat where "MaxDescription = 512"
definition MaxOwner :: nat where "MaxOwner = 128"
definition MaxLabels :: nat where "MaxLabels = 32"
definition MaxLabelKey :: nat where "MaxLabelKey = 64"
definition MaxLabelValue :: nat where "MaxLabelValue = 256"

text \<open>
  The loop runs over the code points; a byte below 0x80 is always one of its own, and the code points of the other bytes
  are at least 0x80, so the test on the bytes is the test on the code points.
\<close>

definition printable :: "gostring \<Rightarrow> bool \<Rightarrow> bool" where
  "printable s multiline = list_all (\<lambda>r. if r = 0x0A \<or> r = 0x09 then multiline else \<not> (r < 0x20 \<or> r = 0x7F)) s"

datatype meta_error = DescriptionBytes | OwnerBytes | LabelCount | ControlChars | LabelBytes

fun validate_labels :: "(gostring \<times> gostring) list \<Rightarrow> meta_error option" where
  "validate_labels [] = None"
| "validate_labels ((k, v) # ls) =
     (if k = [] \<or> MaxLabelKey < length k \<or> MaxLabelValue < length v then Some LabelBytes
      else if \<not> printable k False \<or> \<not> printable v False then Some ControlChars
      else validate_labels ls)"

definition Validate :: "go_metadata \<Rightarrow> meta_error option" where
  "Validate m =
     (if MaxDescription < length (gm_Description m) then Some DescriptionBytes
      else if MaxOwner < length (gm_Owner m) then Some OwnerBytes
      else if MaxLabels < length (gm_Labels m) then Some LabelCount
      else if \<not> printable (gm_Description m) True \<or> \<not> printable (gm_Owner m) False then Some ControlChars
      else validate_labels (gm_Labels m))"

text \<open>What the decoder of the server makes of the body: a missing field is empty, texts are their bytes.\<close>

definition decode_meta :: "ns_meta \<Rightarrow> go_metadata" where
  "decode_meta m = \<lparr>gm_Description = text_encode (nullish (nm_description m) []), gm_Owner = text_encode (nullish (nm_owner m) []),
     gm_Labels = map (\<lambda>(k, v). (text_encode k, text_encode v)) (nullish (nm_labels m) [])\<rparr>"

definition CreateNamespaceWithMetadata ::
    "int \<Rightarrow> gostring \<Rightarrow> go_metadata \<Rightarrow> 'v stored barrier \<Rightarrow> ns_error + 'v stored barrier" where
  "CreateNamespaceWithMetadata now name m st =
     (if \<not> ValidateName name then Inl InvalidName
      else if Validate m \<noteq> None then Inl InvalidMetadata
      else case ns_Get name st of
        Inr existing \<Rightarrow> Inl AlreadyExists
      | Inl e \<Rightarrow> Inr (barrier_put (record_key name) (Record (Apply m (new_namespace now name))) st))"

definition UpdateNamespaceMetadata ::
    "int \<Rightarrow> gostring \<Rightarrow> go_metadata \<Rightarrow> 'v stored barrier \<Rightarrow> ns_error + 'v stored barrier" where
  "UpdateNamespaceMetadata now name m st =
     (if Validate m \<noteq> None then Inl InvalidMetadata
      else case ns_Get name st of
        Inl e \<Rightarrow> Inl e
      | Inr ns \<Rightarrow> Inr (barrier_put (record_key name) (Record (Apply m ns\<lparr>gn_UpdatedAt := Some now\<rparr>)) st))"

text \<open>
  The form counts UTF-16 code units and the server counts bytes, although the constants of the form are said to mirror
  those of the server: a description of more than 256 letters of two bytes each passes the form and is refused.
\<close>

lemma text_encode_two_byte:
  assumes "0x80 \<le> unat c" "unat c < 0x800"
  shows "length (text_encode (replicate n c)) = 2 * n"
proof -
  have "\<not> is_high c" using assms by (simp add: is_high_def word_le_nat_alt)
  moreover have "\<not> is_low c" using assms by (simp add: is_low_def word_le_nat_alt)
  moreover have "text_code_points (replicate n c) = replicate n (unat c)" if "\<not> is_high c" "\<not> is_low c"
    using that text_code_points_plain [of "replicate n c"] by (simp add: list_all_iff)
  moreover have "length (utf8 (unat c)) = 2" using assms by (simp add: utf8_def)
  ultimately show ?thesis by (simp add: text_encode_def length_concat sum_list_replicate)
qed

lemma trim_no_ws: "list_all (\<lambda>c. \<not> is_ws c) s \<Longrightarrow> trim s = s"
  by (cases "s = []") (auto simp: list_all_iff intro!: trim_id)

lemma two_byte_description_refused:
  assumes "0x80 \<le> unat c" "unat c < 0x800" "\<not> is_ws c" "256 < n" "n \<le> 512"
  shows "\<not> metaErr \<lparr>nf_description = replicate n c, nf_owner = [], nf_labels = []\<rparr>"
    and "Validate (decode_meta (form_meta \<lparr>nf_description = replicate n c, nf_owner = [], nf_labels = []\<rparr>)) = Some DescriptionBytes"
proof -
  show "\<not> metaErr \<lparr>nf_description = replicate n c, nf_owner = [], nf_labels = []\<rparr>"
    using assms by (simp add: metaErr_def MAX_DESC_def MAX_OWNER_def validateKv_def)
  have "trim (replicate n c) = replicate n c" using assms(3) by (intro trim_no_ws) (simp add: list_all_iff)
  then show "Validate (decode_meta (form_meta \<lparr>nf_description = replicate n c, nf_owner = [], nf_labels = []\<rparr>)) = Some DescriptionBytes"
    using assms by (simp add: Validate_def decode_meta_def form_meta_def nullish_def MaxDescription_def text_encode_two_byte)
qed


section \<open>The page\<close>

datatype ns_view_mode = Cards | ListRows | TreeRows

text \<open>\<open>localStorage.getItem\<close>: \<open>None\<close> when it throws.\<close>

definition readView :: "jsstring option option \<Rightarrow> ns_view_mode" where
  "readView got = (case got of
      None \<Rightarrow> Cards
    | Some v \<Rightarrow> if v = Some (js ''list'') then ListRows else if v = Some (js ''tree'') then TreeRows else Cards)"

fun view_text :: "ns_view_mode \<Rightarrow> jsstring" where
  "view_text Cards = js ''cards''" | "view_text ListRows = js ''list''" | "view_text TreeRows = js ''tree''"

text \<open>\<open>saveView\<close>: the value stored, unless the storage throws.\<close>

definition saveView :: "bool \<Rightarrow> ns_view_mode \<Rightarrow> jsstring option \<Rightarrow> jsstring option" where
  "saveView throws v stored = (if throws then stored else Some (view_text v))"

datatype stat_key = KSecrets | KTokens | KPolicies | KAuthRoles

definition STAT_KEYS :: "stat_key list" where
  "STAT_KEYS = [KSecrets, KTokens, KPolicies, KAuthRoles]"

type_synonym ns_stats = "(stat_key \<times> nat) list"

record ns_details = ns_view +
  nd_description :: "jsstring option"
  nd_owner :: "jsstring option"
  nd_labels :: "jsstring jsobj option"
  nd_stats :: "ns_stats option"

definition stat_of :: "ns_details \<Rightarrow> stat_key \<Rightarrow> nat option" where
  "stat_of n key = (case nd_stats n of None \<Rightarrow> None | Some s \<Rightarrow> map_of s key)"

fun sum_from :: "stat_key \<Rightarrow> nat \<Rightarrow> ns_details list \<Rightarrow> nat option" where
  "sum_from key acc [] = Some acc"
| "sum_from key acc (n # ns) = (case stat_of n key of None \<Rightarrow> None | Some v \<Rightarrow> sum_from key (acc + v) ns)"

definition sumStat :: "ns_details list \<Rightarrow> stat_key \<Rightarrow> nat option" where
  "sumStat items key = (case sum_from key 0 items of None \<Rightarrow> None | Some t \<Rightarrow> if items \<noteq> [] then Some t else None)"

definition shown_stats :: "ns_stats option \<Rightarrow> stat_key list" where
  "shown_stats stats = (case stats of None \<Rightarrow> [] | Some s \<Rightarrow> filter (\<lambda>k. map_of s k \<noteq> None) STAT_KEYS)"

definition ns_items :: "(jsstring \<Rightarrow> jsstring \<Rightarrow> int) \<Rightarrow> ns_details list option \<Rightarrow> ns_details list" where
  "ns_items lc details = sort_by (\<lambda>a b. lc (nv_name a) (nv_name b)) (nullish details [])"

definition ns_listItems :: "(jsstring \<Rightarrow> jsstring) \<Rightarrow> jsstring \<Rightarrow> ns_details list \<Rightarrow> ns_details list" where
  "ns_listItems lw q items = (let flt = lw (trim q) in filter (\<lambda>n.
      flt = [] \<or> includes_str (nv_name n) flt \<or> includes_str (lw (nullish (nd_owner n) [])) flt \<or>
      includes_str (lw (nullish (nd_description n) [])) flt \<or>
      list_ex (\<lambda>(k, v). includes_str (lw (k @ js ''='' @ v)) flt) (entries (nullish (nd_labels n) []))) items)"

record ns_page =
  np_q :: jsstring
  np_view :: ns_view_mode
  np_creating :: bool
  np_name :: jsstring
  np_form :: ns_form
  np_editing :: "jsstring option"
  np_serverErr :: jsstring
  np_toDelete :: "jsstring option"
  np_dying :: "jsstring option"
  np_fresh :: "jsstring option"
  np_collapsed :: "jsstring list"
  np_createPending :: bool
  np_editPending :: bool

definition empty_form :: ns_form where
  "empty_form = \<lparr>nf_description = [], nf_owner = [], nf_labels = []\<rparr>"

definition ns_page_init :: "jsstring option option \<Rightarrow> ns_page" where
  "ns_page_init got = \<lparr>np_q = [], np_view = readView got, np_creating = False, np_name = [], np_form = empty_form,
     np_editing = None, np_serverErr = [], np_toDelete = None, np_dying = None, np_fresh = None, np_collapsed = [],
     np_createPending = False, np_editPending = False\<rparr>"

definition toggleGroup :: "jsstring \<Rightarrow> ns_page \<Rightarrow> ns_page" where
  "toggleGroup key p = p\<lparr>np_collapsed := set_toggle key (np_collapsed p)\<rparr>"

datatype form_name_error = NameKind name_error | NameExists

definition nameErr :: "jsstring list \<Rightarrow> jsstring \<Rightarrow> form_name_error option" where
  "nameErr allNames trimmed =
     (if trimmed = [] then None
      else case nameErrorKind trimmed of
        Some e \<Rightarrow> Some (NameKind e)
      | None \<Rightarrow> if trimmed \<in> set allNames then Some NameExists else None)"

definition resetMeta :: "(jsstring \<Rightarrow> jsstring \<Rightarrow> int) \<Rightarrow> ns_details option \<Rightarrow> ns_page \<Rightarrow> ns_page" where
  "resetMeta lc n p = p\<lparr>np_form := (case n of
      None \<Rightarrow> empty_form
    | Some x \<Rightarrow> \<lparr>nf_description = nullish (nd_description x) [], nf_owner = nullish (nd_owner x) [], nf_labels = pairsOf lc (nd_labels x)\<rparr>)\<rparr>"

definition ns_openCreate :: "(jsstring \<Rightarrow> jsstring \<Rightarrow> int) \<Rightarrow> ns_page \<Rightarrow> ns_page" where
  "ns_openCreate lc p = (resetMeta lc None (p\<lparr>np_name := []\<rparr>))\<lparr>np_serverErr := [], np_creating := True\<rparr>"

definition typeName :: "jsstring \<Rightarrow> ns_page \<Rightarrow> ns_page" where
  "typeName v p = p\<lparr>np_name := v, np_serverErr := []\<rparr>"

definition ns_submitCreate :: "jsstring list \<Rightarrow> ns_page \<Rightarrow> ns_page \<times> request option" where
  "ns_submitCreate allNames p = (let trimmed = trim (np_name p) in
     if trimmed = [] \<or> nameErr allNames trimmed \<noteq> None \<or> metaErr (np_form p) \<or> np_createPending p then (p, None)
     else (p\<lparr>np_serverErr := [], np_createPending := True\<rparr>, Some (createNamespace trimmed (form_meta (np_form p)))))"

definition create_done :: "ns_page \<Rightarrow> ns_page" where
  "create_done p = p\<lparr>np_creating := False, np_name := [], np_q := [], np_fresh := Some (trim (np_name p)), np_createPending := False\<rparr>"

fun serverMessage_ns :: "failure \<Rightarrow> jsstring option" where
  "serverMessage_ns (AxiosError r m) = (case r of Some x \<Rightarrow> rs_error x | None \<Rightarrow> None)"
| "serverMessage_ns _ = None"

definition create_failed :: "failure \<Rightarrow> ns_page \<Rightarrow> ns_page" where
  "create_failed err p = p\<lparr>np_serverErr := nullish (serverMessage_ns err) [], np_createPending := False\<rparr>"

text \<open>\<open>byName\<close> is built from the sorted items: the last item of a name wins.\<close>

definition byName :: "ns_details list \<Rightarrow> jsstring \<Rightarrow> ns_details option" where
  "byName items ns = map_of (rev (map (\<lambda>n. (nv_name n, n)) items)) ns"

definition openEdit :: "(jsstring \<Rightarrow> jsstring \<Rightarrow> int) \<Rightarrow> ns_details list \<Rightarrow> jsstring \<Rightarrow> ns_page \<Rightarrow> ns_page" where
  "openEdit lc items ns p = (resetMeta lc (byName items ns) p)\<lparr>np_serverErr := [], np_editing := Some ns\<rparr>"

definition submitEdit :: "ns_page \<Rightarrow> ns_page \<times> request option" where
  "submitEdit p = (case np_editing p of
      None \<Rightarrow> (p, None)
    | Some ns \<Rightarrow>
        if ns = [] \<or> metaErr (np_form p) \<or> np_editPending p then (p, None)
        else (p\<lparr>np_serverErr := [], np_editPending := True\<rparr>, Some (updateNamespace ns (form_meta (np_form p)))))"

definition edit_done :: "ns_page \<Rightarrow> ns_page" where
  "edit_done p = p\<lparr>np_editing := None, np_editPending := False\<rparr>"

definition edit_failed :: "failure \<Rightarrow> ns_page \<Rightarrow> ns_page" where
  "edit_failed err p = p\<lparr>np_serverErr := nullish (serverMessage_ns err) [], np_editPending := False\<rparr>"

text \<open>\<open>confirmDelete\<close>: the request, then what its end does; a reload starts the page again in the root namespace.\<close>

datatype ns_after = Stay | Reload jsstring

definition delete_start :: "jsstring \<Rightarrow> ns_page \<Rightarrow> ns_page \<times> request" where
  "delete_start ns p = (p\<lparr>np_dying := Some ns\<rparr>, deleteNamespace ns)"

definition delete_end :: "jsstring \<Rightarrow> jsstring \<Rightarrow> bool \<Rightarrow> ns_page \<Rightarrow> ns_page \<times> ns_after" where
  "delete_end current ns ok p =
     (if \<not> ok then (p\<lparr>np_dying := None\<rparr>, Stay)
      else if current = ns then (p, Reload [])
      else (p\<lparr>np_dying := None\<rparr>, Stay))"

definition ns_switchTo :: "jsstring \<Rightarrow> jsstring \<Rightarrow> ns_after" where
  "ns_switchTo current ns = (if ns = current then Stay else Reload ns)"

definition changeView :: "bool \<Rightarrow> ns_view_mode \<Rightarrow> jsstring option \<Rightarrow> ns_page \<Rightarrow> ns_page \<times> jsstring option" where
  "changeView throws v stored p = (p\<lparr>np_view := v\<rparr>, saveView throws v stored)"

lemma readView_saveView: "readView (Some (saveView False v stored)) = v"
  by (cases v) (simp_all add: readView_def saveView_def)

lemma sum_from_all: "sum_from key acc ns = (if list_all (\<lambda>n. stat_of n key \<noteq> None) ns
    then Some (acc + sum_list (map (\<lambda>n. the (stat_of n key)) ns)) else None)"
  by (induction ns arbitrary: acc) (auto split: option.splits)

text \<open>A total is shown only when no namespace hides its counter, and then it is the exact sum.\<close>

lemma sumStat_exact:
  "sumStat items key = (if items \<noteq> [] \<and> list_all (\<lambda>n. stat_of n key \<noteq> None) items
     then Some (sum_list (map (\<lambda>n. the (stat_of n key)) items)) else None)"
  by (simp add: sumStat_def sum_from_all)


section \<open>What the form sends, the server accepts\<close>

text \<open>Printable ASCII; a description may hold line breaks and tabs.\<close>

definition plain_text :: "bool \<Rightarrow> jsstring \<Rightarrow> bool" where
  "plain_text multiline s = list_all (\<lambda>c. unat c < 128 \<and> (if unat c = 0x0A \<or> unat c = 0x09 then multiline else 0x20 \<le> unat c \<and> unat c \<noteq> 0x7F)) s"

lemma plain_text_encode: "plain_text ml s \<Longrightarrow> text_encode s = map unat s"
  by (rule text_encode_map) (auto simp: plain_text_def list_all_iff)

lemma plain_text_printable: "plain_text ml s \<Longrightarrow> printable (text_encode s) ml"
  unfolding plain_text_encode printable_def by (force simp: plain_text_def list_all_iff)

lemma plain_text_length: "plain_text ml s \<Longrightarrow> length (text_encode s) = length s"
  by (simp add: plain_text_encode)

lemma plain_text_trim: "plain_text ml s \<Longrightarrow> plain_text ml (trim s)"
  unfolding plain_text_def list_all_iff using set_trim_subset [of s] by blast

lemma length_trim: "length (trim s) \<le> length s"
  by (metis length_dropWhile_le length_rev order_trans trim_def trim_end_def trim_start_def)

lemma LABEL_KEY_plain:
  assumes "test LABEL_KEY_RE k" shows "k \<noteq> [] \<and> length k \<le> 64 \<and> plain_text False k"
proof -
  have "k \<in> lang (Seq (Cls label_head) (Upto 63 (Cls (\<lambda>c. label_head c \<or> one_of ''_./-'' c))))"
    using assms unfolding LABEL_KEY_RE_def by (subst (asm) test_anchored) simp_all
  then obtain c w where k: "k = c # w" "label_head c" "length w \<le> 63" "\<forall>x\<in>set w. label_head x \<or> one_of ''_./-'' x"
    by (auto simp: re_lang simp del: lang.simps)
  have "48 \<le> unat x \<and> unat x \<le> 122" if "label_head x" for x
    using that by (auto simp: label_head_def in_range_def is_digit_def word_le_nat_alt)
  moreover have "45 \<le> unat x \<and> unat x \<le> 95" if "one_of ''_./-'' x" for x
    using that by (auto simp: one_of_def)
  ultimately show ?thesis using k by (fastforce simp: plain_text_def list_all_iff)
qed

lemma obj_put_mem: "e \<in> set (obj_put k v o') \<Longrightarrow> e = (k, v) \<or> e \<in> set o'"
  by (induction o') (auto split: if_splits)

lemma length_obj_put: "length (obj_put k v o') \<le> Suc (length o')"
  by (induction o') auto

lemma put_label_mem: "e \<in> set (put_label p o') \<Longrightarrow> e \<in> set o' \<or> trim (fst p) \<noteq> [] \<and> e = (trim (fst p), snd p)"
  by (auto simp: put_label_def Let_def obj_assign_def dest: obj_put_mem split: if_splits)

lemma length_put_label: "length (put_label p o') \<le> Suc (length o')"
  by (simp add: put_label_def Let_def obj_assign_def length_obj_put)

lemma fold_put_label_mem:
  "e \<in> set (fold put_label ps o') \<Longrightarrow> e \<in> set o' \<or> (\<exists>p\<in>set ps. trim (fst p) \<noteq> [] \<and> e = (trim (fst p), snd p))"
proof (induction ps arbitrary: o')
  case (Cons p ps)
  then have "e \<in> set (put_label p o') \<or> (\<exists>p\<in>set ps. trim (fst p) \<noteq> [] \<and> e = (trim (fst p), snd p))" by simp
  then show ?case using put_label_mem [of e p o'] by auto
qed simp

lemma length_labelsOf: "length (labelsOf ps) \<le> length ps"
proof -
  have "length (fold put_label ps o') \<le> length o' + length ps" for o'
  proof (induction ps arbitrary: o')
    case (Cons p ps)
    show ?case using Cons [of "put_label p o'"] length_put_label [of p o'] by simp
  qed simp
  from this [of "[]"] show ?thesis by (simp add: labelsOf_def)
qed

lemma labelsOf_valid:
  assumes "kvv_valid (validateKv LABEL_KEY_RE ps)" "(k, v) \<in> set (labelsOf ps)"
  shows "test LABEL_KEY_RE k \<and> v \<in> snd ` set ps"
proof -
  obtain key where key: "k = trim key" "(key, v) \<in> set ps" "trim key \<noteq> []"
    using fold_put_label_mem [OF assms(2) [unfolded labelsOf_def]] by force
  then have "(key, v) \<in> set (filled_pairs ps)" by (simp add: filled_pairs_def)
  with validateKv_valid [OF assms(1)] key show ?thesis by (force simp: list_all_iff)
qed

lemma validate_labels_None:
  "list_all (\<lambda>(k, v). k \<noteq> [] \<and> length k \<le> 64 \<and> length v \<le> 256 \<and> printable k False \<and> printable v False) ls \<Longrightarrow>
    validate_labels ls = None"
  by (induction ls) (auto simp: MaxLabelKey_def MaxLabelValue_def)

lemma form_meta_valid:
  assumes "\<not> metaErr f" "plain_text True (nf_description f)" "plain_text False (nf_owner f)" "length (nf_labels f) \<le> 32"
    and vs: "\<And>k v. (k, v) \<in> set (nf_labels f) \<Longrightarrow> plain_text False v \<and> length v \<le> 256"
  shows "Validate (decode_meta (form_meta f)) = None"
proof -
  have "length (text_encode (trim (nf_description f))) \<le> 512" "length (text_encode (trim (nf_owner f))) \<le> 128"
    using assms(1-3) length_trim [of "nf_description f"] length_trim [of "nf_owner f"]
      plain_text_length [OF plain_text_trim [OF assms(2)]] plain_text_length [OF plain_text_trim [OF assms(3)]]
    by (auto simp: metaErr_def MAX_DESC_def MAX_OWNER_def)
  moreover have "length (labelsOf (nf_labels f)) \<le> 32"
    using length_labelsOf [of "nf_labels f"] assms(4) by simp
  moreover have "validate_labels (map (\<lambda>(k, v). (text_encode k, text_encode v)) (labelsOf (nf_labels f))) = None"
  proof (rule validate_labels_None)
    have valid: "kvv_valid (validateKv LABEL_KEY_RE (nf_labels f))" using assms(1) by (simp add: metaErr_def)
    have "text_encode k \<noteq> [] \<and> length (text_encode k) \<le> 64 \<and> length (text_encode v) \<le> 256 \<and>
        printable (text_encode k) False \<and> printable (text_encode v) False"
      if "(k, v) \<in> set (labelsOf (nf_labels f))" for k v
    proof -
      have "plain_text False k" "k \<noteq> []" "length k \<le> 64" "plain_text False v" "length v \<le> 256"
        using labelsOf_valid [OF valid that] LABEL_KEY_plain [of k] vs by auto
      then show ?thesis by (simp add: plain_text_printable) (simp add: plain_text_encode [of False])
    qed
    then show "list_all (\<lambda>(k, v). k \<noteq> [] \<and> length k \<le> 64 \<and> length v \<le> 256 \<and> printable k False \<and> printable v False)
        (map (\<lambda>(k, v). (text_encode k, text_encode v)) (labelsOf (nf_labels f)))"
      by (auto simp: list_all_iff)
  qed
  ultimately show ?thesis using assms(2,3)
    by (simp add: Validate_def decode_meta_def form_meta_def nullish_def MaxDescription_def MaxOwner_def MaxLabels_def
        plain_text_printable plain_text_trim)
qed

lemma submitCreate_sends:
  assumes "ns_submitCreate allNames p = (p', Some r)"
  shows "r = createNamespace (trim (np_name p)) (form_meta (np_form p)) \<and> \<not> np_createPending p \<and> np_createPending p' \<and>
    ValidateName (text_encode (trim (np_name p))) \<and> trim (np_name p) \<notin> set allNames \<and> \<not> metaErr (np_form p)"
proof -
  have "nameErrorKind (trim (np_name p)) = None \<Longrightarrow> trim (np_name p) \<noteq> [] \<Longrightarrow> ValidateName (text_encode (trim (np_name p)))"
    using server_rule by blast
  then show ?thesis using assms by (auto simp: ns_submitCreate_def nameErr_def Let_def split: if_splits option.splits)
qed

lemma create_reaches_server:
  assumes "ns_submitCreate allNames p = (p', Some r)" "plain_text True (nf_description (np_form p))" "plain_text False (nf_owner (np_form p))"
    "length (nf_labels (np_form p)) \<le> 32" "\<And>k v. (k, v) \<in> set (nf_labels (np_form p)) \<Longrightarrow> plain_text False v \<and> length v \<le> 256"
    "barrier_get (record_key (text_encode (trim (np_name p)))) st = None"
  shows "\<exists>st'. CreateNamespaceWithMetadata now (text_encode (trim (np_name p))) (decode_meta (form_meta (np_form p))) st = Inr st' \<and>
    ns_Get (text_encode (trim (np_name p))) st' =
      Inr (Apply (decode_meta (form_meta (np_form p))) (new_namespace now (text_encode (trim (np_name p)))))"
  using submitCreate_sends [OF assms(1)] form_meta_valid [of "np_form p"] assms(2-6)
  by (simp add: CreateNamespaceWithMetadata_def ns_Get_def barrier_get_put)

end
