(* ===== verification/Namespace_Tree.thy ===== *)
theory Namespace_Tree
  imports Namespaces "HOL-Library.Sublist"
begin

text \<open>
  The tree view of the namespaces page (\<open>buildTree\<close>, \<open>countReal\<close> and \<open>renderTreeRows\<close> of \<open>namespaces.page.tsx\<close>). The
  code builds the tree from shared node objects: a map from paths to nodes and the arrays of children refer to the same
  objects. The model keeps the objects in a store, a node being its position there, and reads the tree off the store at
  the end; the store is shown to be the one of the set of paths, whatever the order of the names.
\<close>

section \<open>Building the tree\<close>

record tnode =
  tn_key :: jsstring
  tn_label :: jsstring
  tn_ns :: "ns_details option"
  tn_children :: "nat list"

record tstore =
  ts_nodes :: "tnode list"
  ts_byKey :: "(jsstring \<times> nat) list"
  ts_roots :: "nat list"

text \<open>The array \<open>siblings\<close> refers to.\<close>

datatype siblings = Roots | ChildrenOf nat

definition push_node :: "siblings \<Rightarrow> nat \<Rightarrow> tstore \<Rightarrow> tstore" where
  "push_node sib i st = (case sib of
      Roots \<Rightarrow> st\<lparr>ts_roots := ts_roots st @ [i]\<rparr>
    | ChildrenOf j \<Rightarrow> st\<lparr>ts_nodes := (ts_nodes st)[j := (ts_nodes st ! j)\<lparr>tn_children := tn_children (ts_nodes st ! j) @ [i]\<rparr>]\<rparr>)"

definition new_node :: "jsstring \<Rightarrow> jsstring \<Rightarrow> siblings \<Rightarrow> tstore \<Rightarrow> tstore" where
  "new_node path seg sib st = (let i = length (ts_nodes st) in
     push_node sib i (st\<lparr>ts_nodes := ts_nodes st @ [\<lparr>tn_key = path, tn_label = seg, tn_ns = None, tn_children = []\<rparr>],
       ts_byKey := (path, i) # ts_byKey st\<rparr>))"

definition set_ns :: "nat \<Rightarrow> ns_details \<Rightarrow> tstore \<Rightarrow> tstore" where
  "set_ns i item st = st\<lparr>ts_nodes := (ts_nodes st)[i := (ts_nodes st ! i)\<lparr>tn_ns := Some item\<rparr>]\<rparr>"

text \<open>The inner loop over the segments of one name.\<close>

fun tree_walk :: "ns_details \<Rightarrow> jsstring \<Rightarrow> siblings \<Rightarrow> jsstring list \<Rightarrow> tstore \<Rightarrow> tstore" where
  "tree_walk item path sib [] st = st"
| "tree_walk item path sib (seg # segs) st =
     (let path' = if path \<noteq> [] then path @ js ''/'' @ seg else seg;
          found = map_of (ts_byKey st) path';
          i = (case found of Some j \<Rightarrow> j | None \<Rightarrow> length (ts_nodes st));
          st1 = (case found of Some j \<Rightarrow> st | None \<Rightarrow> new_node path' seg sib st);
          st2 = (if segs = [] then set_ns i item st1 else st1)
      in tree_walk item path' (ChildrenOf i) segs st2)"

definition build_store :: "ns_details list \<Rightarrow> tstore" where
  "build_store items = fold (\<lambda>item. tree_walk item [] Roots (split_on (jc CHR ''/'') (nv_name item))) items
     \<lparr>ts_nodes = [], ts_byKey = [], ts_roots = []\<rparr>"

datatype tree = Node (t_key: jsstring) (t_label: jsstring) (t_ns: "ns_details option") (t_children: "tree list")

text \<open>The tree below a node, to a depth that the number of nodes bounds.\<close>

fun read_node :: "nat \<Rightarrow> tstore \<Rightarrow> nat \<Rightarrow> tree" where
  "read_node depth st i = (let n = ts_nodes st ! i in
     Node (tn_key n) (tn_label n) (tn_ns n)
       (case depth of 0 \<Rightarrow> [] | Suc d \<Rightarrow> map (read_node d st) (tn_children n)))"

declare read_node.simps [simp del]

definition sort_nodes :: "(jsstring \<Rightarrow> jsstring \<Rightarrow> int) \<Rightarrow> tree list \<Rightarrow> tree list" where
  "sort_nodes lc nodes = sort_by (\<lambda>a b. lc (t_label a) (t_label b)) nodes"

fun sortRec :: "(jsstring \<Rightarrow> jsstring \<Rightarrow> int) \<Rightarrow> tree \<Rightarrow> tree" where
  "sortRec lc (Node k l n cs) = Node k l n (sort_nodes lc (map (sortRec lc) cs))"

definition buildTree :: "(jsstring \<Rightarrow> jsstring \<Rightarrow> int) \<Rightarrow> ns_details list \<Rightarrow> tree list" where
  "buildTree lc items = (let st = build_store items in
     sort_nodes lc (map (\<lambda>i. sortRec lc (read_node (length (ts_nodes st)) st i)) (ts_roots st)))"

fun countReal :: "tree \<Rightarrow> nat" where
  "countReal (Node k l n cs) = (if n \<noteq> None then 1 else 0) + sum_list (map countReal cs)"

text \<open>The rows: a node, its depth, and the nodes below it unless its group is collapsed.\<close>

fun renderTreeRows :: "jsstring list \<Rightarrow> nat \<Rightarrow> tree \<Rightarrow> (nat \<times> tree) list" where
  "renderTreeRows collapsed depth (Node k l n cs) =
     (depth, Node k l n cs) #
     (if cs \<noteq> [] \<and> \<not> set_has collapsed k then concat (map (renderTreeRows collapsed (depth + 1)) cs) else [])"

section \<open>The store of a set of paths\<close>

abbreviation key_of :: "jsstring list \<Rightarrow> jsstring" where
  "key_of p \<equiv> join [jc CHR ''/''] p"

definition kids :: "jsstring list list \<Rightarrow> jsstring list \<Rightarrow> nat list" where
  "kids P p = filter (\<lambda>j. butlast (P ! j) = p) [0..<length P]"

definition tnode_of :: "jsstring list list \<Rightarrow> (jsstring list \<Rightarrow> ns_details option) \<Rightarrow> jsstring list \<Rightarrow> tnode" where
  "tnode_of P f p = \<lparr>tn_key = key_of p, tn_label = last p, tn_ns = f p, tn_children = kids P p\<rparr>"

definition store_of :: "jsstring list list \<Rightarrow> (jsstring list \<Rightarrow> ns_details option) \<Rightarrow> tstore" where
  "store_of P f = \<lparr>ts_nodes = map (tnode_of P f) P, ts_byKey = rev (zip (map key_of P) [0..<length P]), ts_roots = kids P []\<rparr>"

definition seg_path :: "jsstring list \<Rightarrow> bool" where
  "seg_path p \<longleftrightarrow> p \<noteq> [] \<and> list_all (\<lambda>s. s \<noteq> [] \<and> jc CHR ''/'' \<notin> set s) p"

definition paths_ok :: "jsstring list list \<Rightarrow> bool" where
  "paths_ok P \<longleftrightarrow> distinct P \<and> (\<forall>p\<in>set P. seg_path p \<and> (butlast p = [] \<or> butlast p \<in> set P))"

lemma key_of_snoc: "p \<noteq> [] \<Longrightarrow> key_of (p @ [s]) = key_of p @ jc CHR ''/'' # s"
proof (induction p)
  case (Cons w p)
  then show ?case by (cases p) simp_all
qed simp

lemma key_of_inj: "seg_path p \<Longrightarrow> seg_path q \<Longrightarrow> key_of p = key_of q \<Longrightarrow> p = q"
  unfolding seg_path_def list_all_iff by (metis split_on_join)

lemma key_of_ne: "seg_path p \<Longrightarrow> key_of p \<noteq> []"
  by (cases p rule: remdups_adj.cases) (auto simp: seg_path_def)

lemma kids_snoc: "kids (P @ [q]) p = kids P p @ (if butlast q = p then [length P] else [])"
  unfolding kids_def by (auto simp: nth_append intro: filter_cong)

lemma byKey_store:
  assumes "paths_ok P" "seg_path p"
  shows "map_of (ts_byKey (store_of P f)) (key_of p) = Some i \<longleftrightarrow> i < length P \<and> P ! i = p"
proof -
  have "inj_on key_of (set P)" using assms(1) key_of_inj by (auto simp: paths_ok_def inj_on_def)
  then have d: "distinct (map key_of P)" using assms(1) by (simp add: distinct_map paths_ok_def)
  have "map_of (rev (zip (map key_of P) [0..<length P])) = map_of (zip (map key_of P) [0..<length P])"
    using d by (intro map_of_inject_set [THEN iffD2]) (auto simp: rev_map [symmetric])
  moreover have "map_of (zip (map key_of P) [0..<length P]) (key_of p) = Some i \<longleftrightarrow> i < length P \<and> P ! i = p"
  proof -
    have "(key_of p, i) \<in> set (zip (map key_of P) [0..<length P]) \<longleftrightarrow> i < length P \<and> key_of (P ! i) = key_of p"
      by (auto simp: in_set_zip intro!: exI [of _ i])
    moreover have "i < length P \<Longrightarrow> key_of (P ! i) = key_of p \<longleftrightarrow> P ! i = p"
      using assms key_of_inj by (auto simp: paths_ok_def)
    ultimately show ?thesis using d by (auto simp: map_of_eq_Some_iff)
  qed
  ultimately show ?thesis by (simp add: store_of_def)
qed


lemma byKey_None:
  assumes "paths_ok P" "seg_path p" "p \<notin> set P"
  shows "map_of (ts_byKey (store_of P f)) (key_of p) = None"
  using byKey_store [OF assms(1,2), of f] assms(3) by (metis not_Some_eq nth_mem)

lemma paths_ok_snoc:
  "paths_ok P \<Longrightarrow> seg_path p \<Longrightarrow> p \<notin> set P \<Longrightarrow> butlast p = [] \<or> butlast p \<in> set P \<Longrightarrow> paths_ok (P @ [p])"
  by (auto simp: paths_ok_def)

lemma kids_fresh:
  assumes "paths_ok P" "p \<noteq> []" "p \<notin> set P" shows "kids P p = []"
  using assms by (auto simp: kids_def paths_ok_def filter_empty_conv)

text \<open>Where a walk stands: above the roots, or at the node of a path.\<close>

definition at_path :: "jsstring list list \<Rightarrow> jsstring list \<Rightarrow> siblings \<Rightarrow> bool" where
  "at_path P pre sib \<longleftrightarrow> (case sib of Roots \<Rightarrow> pre = [] | ChildrenOf j \<Rightarrow> pre \<noteq> [] \<and> j < length P \<and> P ! j = pre)"

lemma new_node_store:
  assumes "paths_ok P" "at_path P pre sib" "seg_path (pre @ [seg])" "pre @ [seg] \<notin> set P" "f (pre @ [seg]) = None"
  shows "new_node (key_of (pre @ [seg])) seg sib (store_of P f) = store_of (P @ [pre @ [seg]]) f"
proof -
  let ?p = "pre @ [seg]" and ?P = "P @ [pre @ [seg]]"
  have fresh: "tnode_of ?P f ?p = \<lparr>tn_key = key_of ?p, tn_label = seg, tn_ns = None, tn_children = []\<rparr>"
    using kids_fresh [OF assms(1) _ assms(4)] assms(5) by (simp add: tnode_of_def kids_snoc)
  have same: "map (tnode_of ?P f) P = map (tnode_of P f) P" if "pre \<notin> set P"
    using that by (auto simp: tnode_of_def kids_snoc)
  show ?thesis
  proof (cases sib)
    case Roots
    then have "pre = []" using assms(2) by (simp add: at_path_def)
    moreover have "[] \<notin> set P" using assms(1) by (auto simp: paths_ok_def seg_path_def)
    ultimately show ?thesis using fresh same Roots
      by (simp add: new_node_def push_node_def store_of_def kids_snoc Let_def)
  next
    case (ChildrenOf j)
    then have j: "pre \<noteq> []" "j < length P" "P ! j = pre" using assms(2) by (simp_all add: at_path_def)
    have "map (tnode_of ?P f) P = (map (tnode_of P f) P)[j := (tnode_of P f pre)\<lparr>tn_children := kids P pre @ [length P]\<rparr>]"
    proof (rule nth_equalityI)
      fix i assume i: "i < length (map (tnode_of ?P f) P)"
      have "P ! i = pre \<longleftrightarrow> i = j" using i j assms(1) by (auto simp: paths_ok_def nth_eq_iff_index_eq)
      then show "map (tnode_of ?P f) P ! i = (map (tnode_of P f) P)[j := (tnode_of P f pre)\<lparr>tn_children := kids P pre @ [length P]\<rparr>] ! i"
        using i j by (auto simp: kids_snoc nth_list_update tnode_of_def)
    qed simp
    moreover have "tn_children (tnode_of P f pre) = kids P pre" by (simp add: tnode_of_def)
    ultimately show ?thesis using fresh ChildrenOf j
      by (simp add: new_node_def push_node_def store_of_def kids_snoc Let_def nth_append list_update_append)
  qed
qed

lemma set_ns_store:
  assumes "paths_ok P" "i < length P" "P ! i = p"
  shows "set_ns i item (store_of P f) = store_of P (f(p \<mapsto> item))"
proof -
  have "map (tnode_of P (f(p \<mapsto> item))) P = (map (tnode_of P f) P)[i := (tnode_of P f p)\<lparr>tn_ns := Some item\<rparr>]"
  proof (rule nth_equalityI)
    fix k assume k: "k < length (map (tnode_of P (f(p \<mapsto> item))) P)"
    have "P ! k = p \<longleftrightarrow> k = i" using k assms by (auto simp: paths_ok_def nth_eq_iff_index_eq)
    then show "map (tnode_of P (f(p \<mapsto> item))) P ! k = (map (tnode_of P f) P)[i := (tnode_of P f p)\<lparr>tn_ns := Some item\<rparr>] ! k"
      using k assms by (auto simp: nth_list_update tnode_of_def)
  qed simp
  then show ?thesis using assms by (simp add: set_ns_def store_of_def)
qed

text \<open>The paths a walk adds.\<close>

fun add_paths :: "jsstring list \<Rightarrow> jsstring list \<Rightarrow> jsstring list list \<Rightarrow> jsstring list list" where
  "add_paths pre [] P = P"
| "add_paths pre (s # ss) P = add_paths (pre @ [s]) ss (if pre @ [s] \<in> set P then P else P @ [pre @ [s]])"


definition seg_ok :: "jsstring \<Rightarrow> bool" where
  "seg_ok s \<longleftrightarrow> s \<noteq> [] \<and> jc CHR ''/'' \<notin> set s"

lemma good_path_iff: "seg_path p \<longleftrightarrow> p \<noteq> [] \<and> list_all seg_ok p"
  by (simp add: seg_path_def seg_ok_def [abs_def])

lemma set_add_paths: "set (add_paths pre ss P) = set P \<union> {pre @ t | t. t \<noteq> [] \<and> Sublist.prefix t ss}"
proof (induction pre ss P rule: add_paths.induct)
  case (2 pre s ss P)
  have "{pre @ t | t. t \<noteq> [] \<and> Sublist.prefix t (s # ss)} = insert (pre @ [s]) {(pre @ [s]) @ t | t. t \<noteq> [] \<and> Sublist.prefix t ss}"
    by (auto simp: prefix_Cons)
  with 2 show ?case by (auto split: if_splits)
qed simp

lemma add_paths_ok:
  "paths_ok P \<Longrightarrow> pre = [] \<or> pre \<in> set P \<Longrightarrow> list_all seg_ok (pre @ ss) \<Longrightarrow> paths_ok (add_paths pre ss P)"
proof (induction pre ss P rule: add_paths.induct)
  case (2 pre s ss P)
  let ?P = "if pre @ [s] \<in> set P then P else P @ [pre @ [s]]"
  have "paths_ok ?P" using 2(2-4) by (auto intro!: paths_ok_snoc simp: good_path_iff)
  then show ?case using 2(1) 2(4) by (simp split: if_splits)
qed simp

lemma tree_walk_store:
  assumes "paths_ok P" "at_path P pre sib" "list_all seg_ok (pre @ segs)" "segs \<noteq> []" "dom f \<subseteq> set P"
  shows "tree_walk item (key_of pre) sib segs (store_of P f) = store_of (add_paths pre segs P) (f(pre @ segs \<mapsto> item))"
  using assms
proof (induction segs arbitrary: P pre sib)
  case (Cons seg segs)
  let ?p = "pre @ [seg]"
  define P1 where "P1 = (if ?p \<in> set P then P else P @ [?p])"
  have good: "seg_path ?p" using Cons.prems(3) by (simp add: good_path_iff)
  have path: "(if key_of pre \<noteq> [] then key_of pre @ js ''/'' @ seg else seg) = key_of ?p"
  proof (cases "pre = []")
    case False
    then have "key_of pre \<noteq> []" using Cons.prems(3) by (intro key_of_ne) (simp add: good_path_iff)
    then show ?thesis using key_of_snoc [OF False] by simp
  qed simp
  have pre: "pre = [] \<or> pre \<in> set P" using Cons.prems(2) by (auto simp: at_path_def split: siblings.splits)
  have ok1: "paths_ok P1" using Cons.prems(1) good pre by (auto simp: P1_def intro: paths_ok_snoc)
  have fp: "?p \<notin> set P \<Longrightarrow> f ?p = None" using Cons.prems(5) by auto
  define i where "i = (case map_of (ts_byKey (store_of P f)) (key_of ?p) of Some j \<Rightarrow> j | None \<Rightarrow> length (ts_nodes (store_of P f)))"
  define st1 where "st1 = (case map_of (ts_byKey (store_of P f)) (key_of ?p) of Some j \<Rightarrow> store_of P f | None \<Rightarrow> new_node (key_of ?p) seg sib (store_of P f))"
  have "i < length P1 \<and> P1 ! i = ?p \<and> st1 = store_of P1 f"
  proof (cases "?p \<in> set P")
    case True
    then obtain j where "j < length P" "P ! j = ?p" by (metis in_set_conv_nth)
    then have "map_of (ts_byKey (store_of P f)) (key_of ?p) = Some j" using byKey_store [OF Cons.prems(1) good] by blast
    then show ?thesis
      using True \<open>j < length P\<close> \<open>P ! j = ?p\<close> by (simp_all add: i_def st1_def P1_def)
  next
    case False
    note none = byKey_None [OF Cons.prems(1) good False, of f]
    have "i < length P1 \<and> P1 ! i = ?p" using False none by (simp add: i_def P1_def store_of_def)
    moreover have "st1 = store_of P1 f"
      using False none new_node_store [OF Cons.prems(1,2) good False, of f] fp by (simp add: st1_def P1_def)
    ultimately show ?thesis by blast
  qed
  then have i: "i < length P1 \<and> P1 ! i = ?p" and st1: "st1 = store_of P1 f" by blast+
  have step: "tree_walk item (key_of pre) sib (seg # segs) (store_of P f) =
      tree_walk item (key_of ?p) (ChildrenOf i) segs (if segs = [] then set_ns i item st1 else st1)"
    by (simp only: tree_walk.simps path Let_def i_def st1_def)
  show ?case
  proof (cases "segs = []")
    case True
    have "set_ns i item st1 = store_of P1 (f(?p \<mapsto> item))" using i ok1 set_ns_store unfolding st1 by blast
    then have "tree_walk item (key_of ?p) (ChildrenOf i) segs (if segs = [] then set_ns i item st1 else st1) = store_of P1 (f(?p \<mapsto> item))"
      by (simp only: True if_True tree_walk.simps simp_thms)
    with step show ?thesis by (simp only: True add_paths.simps P1_def)
  next
    case False
    have "tree_walk item (key_of ?p) (ChildrenOf i) segs (store_of P1 f) = store_of (add_paths ?p segs P1) (f(?p @ segs \<mapsto> item))"
      using Cons.prems(3,5) i ok1 False by (intro Cons.IH) (auto simp: at_path_def P1_def)
    moreover have "(if segs = [] then set_ns i item st1 else st1) = store_of P1 f" using False st1 by simp
    ultimately show ?thesis unfolding step by (simp only: add_paths.simps P1_def append.assoc append_Cons append_Nil)
  qed
qed simp


section \<open>The store of the names\<close>

definition name_path :: "ns_details \<Rightarrow> jsstring list" where
  "name_path it = split_on (jc CHR ''/'') (nv_name it)"

definition item_at :: "ns_details list \<Rightarrow> jsstring list \<Rightarrow> ns_details option" where
  "item_at items = map_of (rev (map (\<lambda>it. (name_path it, it)) items))"

lemma item_at_snoc: "item_at (items @ [it]) = (item_at items)(name_path it \<mapsto> it)"
  by (simp add: item_at_def)

lemma dom_item_at: "dom (item_at items) = name_path ` set items"
  by (auto simp: item_at_def dom_map_of_conv_image_fst image_image)

lemma build_store_paths:
  assumes "\<forall>it\<in>set items. list_all seg_ok (name_path it)"
  shows "\<exists>P. build_store items = store_of P (item_at items) \<and> paths_ok P \<and>
    set P = {t. t \<noteq> [] \<and> (\<exists>it\<in>set items. Sublist.prefix t (name_path it))}"
  using assms
proof (induction items rule: rev_induct)
  case Nil
  have "build_store [] = store_of [] (item_at [])"
    by (simp add: build_store_def store_of_def kids_def)
  then show ?case by (intro exI [of _ "[]"]) (simp add: paths_ok_def)
next
  case (snoc it items)
  then obtain P where P: "build_store items = store_of P (item_at items)" "paths_ok P"
    "set P = {t. t \<noteq> [] \<and> (\<exists>it\<in>set items. Sublist.prefix t (name_path it))}" by auto
  let ?P = "add_paths [] (name_path it) P"
  have "dom (item_at items) \<subseteq> set P" unfolding dom_item_at P(3) by (auto simp: name_path_def)
  then have "tree_walk it (key_of []) Roots (name_path it) (store_of P (item_at items)) = store_of ?P ((item_at items)([] @ name_path it \<mapsto> it))"
    using P(2) snoc.prems by (intro tree_walk_store) (simp_all add: at_path_def name_path_def)
  moreover have "build_store (items @ [it]) = tree_walk it [] Roots (name_path it) (build_store items)"
    by (simp add: build_store_def name_path_def)
  ultimately have "build_store (items @ [it]) = store_of ?P (item_at (items @ [it]))"
    unfolding P(1) item_at_snoc by (simp only: join.simps append_Nil)
  moreover have "paths_ok ?P" using P(2) snoc.prems by (intro add_paths_ok) auto
  moreover have "set ?P = {t. t \<noteq> [] \<and> (\<exists>x\<in>set (items @ [it]). Sublist.prefix t (name_path x))}"
    unfolding set_add_paths P(3) by auto
  ultimately show ?case by blast
qed

section \<open>The nodes below a node\<close>

fun nodes_of :: "tree \<Rightarrow> tree list" where
  "nodes_of (Node k l n cs) = Node k l n cs # concat (map nodes_of cs)"

lemma nodes_of_self: "t \<in> set (nodes_of t)"
  by (cases t) simp

lemma countReal_nodes: "countReal t = length (filter (\<lambda>u. t_ns u \<noteq> None) (nodes_of t))"
proof (induction t)
  case (Node k l n cs)
  then have "map countReal cs = map (\<lambda>t. length (filter (\<lambda>u. t_ns u \<noteq> None) (nodes_of t))) cs" by simp
  then have "sum_list (map countReal cs) = length (filter (\<lambda>u. t_ns u \<noteq> None) (concat (map nodes_of cs)))"
    by (simp only: filter_concat length_concat map_map comp_def)
  then show ?case by simp
qed

lemma paths_closed:
  assumes "paths_ok P" "q \<in> set P" "Sublist.prefix t q" "t \<noteq> []"
  shows "t \<in> set P"
  using assms(2,3)
proof (induction q rule: rev_induct)
  case (snoc s q)
  show ?case
  proof (cases "t = q @ [s]")
    case False
    then have "Sublist.prefix t q" using snoc.prems(2) by simp
    moreover from this have "q \<noteq> []" using assms(4) by auto
    ultimately show ?thesis using snoc assms(1) by (auto simp: paths_ok_def)
  qed (use snoc.prems in simp)
qed (use assms(4) in simp)

text \<open>The depth \<open>d\<close> is enough below \<open>p\<close>.\<close>

definition deep :: "jsstring list list \<Rightarrow> nat \<Rightarrow> jsstring list \<Rightarrow> bool" where
  "deep P d p \<longleftrightarrow> (\<forall>q\<in>set P. Sublist.prefix p q \<longrightarrow> length q \<le> length p + d)"

lemma deep_kid: "deep P (Suc d) p \<Longrightarrow> butlast q = p \<Longrightarrow> q \<noteq> [] \<Longrightarrow> deep P d q"
  unfolding deep_def by (cases q rule: rev_cases) (auto simp: append_prefixD)

lemma read_store:
  assumes "i < length P"
  shows "read_node d (store_of P f) i = Node (key_of (P ! i)) (last (P ! i)) (f (P ! i))
    (case d of 0 \<Rightarrow> [] | Suc d \<Rightarrow> map (read_node d (store_of P f)) (kids P (P ! i)))"
  using assms by (subst read_node.simps) (simp add: store_of_def tnode_of_def Let_def split: nat.split)

lemma kid_path:
  assumes "paths_ok P" "j \<in> set (kids P p)"
  shows "j < length P \<and> butlast (P ! j) = p \<and> P ! j \<noteq> [] \<and> P ! j \<in> set P"
  using assms by (auto simp: kids_def paths_ok_def seg_path_def)

lemma kid_inj:
  assumes "paths_ok P" "j \<in> set (kids P p)" "k \<in> set (kids P p)" "Sublist.prefix (P ! j) q" "Sublist.prefix (P ! k) q"
  shows "j = k"
proof -
  have len: "length (P ! i) = Suc (length p)" if "i \<in> set (kids P p)" for i
    using kid_path [OF assms(1) that] by (cases "P ! i" rule: rev_cases) auto
  obtain x y where "q = P ! j @ x" "q = P ! k @ y" using assms(4,5) unfolding prefix_def by blast
  then have "P ! j = P ! k" using len [OF assms(2)] len [OF assms(3)] by (metis append_eq_append_conv)
  then show ?thesis using kid_path [OF assms(1,2)] kid_path [OF assms(1,3)] assms(1)
    by (auto simp: paths_ok_def nth_eq_iff_index_eq)
qed

text \<open>The strict extensions of \<open>p\<close> are the extensions of its kids.\<close>

lemma below_kids:
  assumes "paths_ok P"
  shows "{q \<in> set P. Sublist.strict_prefix p q} = (\<Union>j\<in>set (kids P p). {q \<in> set P. Sublist.prefix (P ! j) q})"
proof (intro equalityI subsetI)
  fix q assume q: "q \<in> {q \<in> set P. Sublist.strict_prefix p q}"
  then obtain x where x: "q = p @ x" "x \<noteq> []" by (auto simp: strict_prefix_def prefix_def)
  then obtain s r where r: "q = p @ s # r" by (cases x) auto
  have pre: "Sublist.prefix (p @ [s]) q" using r by (simp add: prefix_def)
  have "p @ [s] \<in> set P" by (rule paths_closed [OF assms _ pre]) (use q in simp_all)
  then obtain j where j: "j < length P" "P ! j = p @ [s]" by (metis in_set_conv_nth)
  then have "j \<in> set (kids P p)" by (simp add: kids_def)
  moreover have "Sublist.prefix (P ! j) q" using pre j by (simp only:)
  ultimately show "q \<in> (\<Union>j\<in>set (kids P p). {q \<in> set P. Sublist.prefix (P ! j) q})" using q by blast
next
  fix q assume "q \<in> (\<Union>j\<in>set (kids P p). {q \<in> set P. Sublist.prefix (P ! j) q})"
  then obtain j where j: "j \<in> set (kids P p)" "q \<in> set P" "Sublist.prefix (P ! j) q" by blast
  then have "Sublist.strict_prefix p (P ! j)" using kid_path [OF assms j(1)]
    by (metis append_butlast_last_id strict_prefixI')
  with j show "q \<in> {q \<in> set P. Sublist.strict_prefix p q}" by (auto intro: prefix_order.less_le_trans)
qed


lemma distinct_concat_map:
  "distinct xs \<Longrightarrow> (\<And>j. j \<in> set xs \<Longrightarrow> distinct (g j)) \<Longrightarrow>
    (\<And>j k x. j \<in> set xs \<Longrightarrow> k \<in> set xs \<Longrightarrow> x \<in> set (g j) \<Longrightarrow> x \<in> set (g k) \<Longrightarrow> j = k) \<Longrightarrow>
    distinct (concat (map g xs))"
proof (induction xs)
  case (Cons a xs)
  have "distinct (concat (map g xs))" using Cons.prems by (intro Cons.IH) auto
  moreover have "set (g a) \<inter> set (concat (map g xs)) = {}"
    using Cons.prems(1,3) by (fastforce simp del: Int_iff simp: disjoint_iff)
  ultimately show ?case using Cons.prems(2) by simp
qed simp

text \<open>The nodes read below the kids of \<open>p\<close>, for \<open>p\<close> empty the whole tree.\<close>

definition forest :: "nat \<Rightarrow> jsstring list list \<Rightarrow> (jsstring list \<Rightarrow> ns_details option) \<Rightarrow> jsstring list \<Rightarrow> tree list" where
  "forest d P f p = concat (map (\<lambda>j. nodes_of (read_node d (store_of P f) j)) (kids P p))"

lemma nodes_read:
  "i < length P \<Longrightarrow> nodes_of (read_node d (store_of P f) i) =
    read_node d (store_of P f) i # (case d of 0 \<Rightarrow> [] | Suc e \<Rightarrow> forest e P f (P ! i))"
  by (cases d) (simp_all add: read_store forest_def comp_def)

lemma t_key_read: "i < length P \<Longrightarrow> t_key (read_node d (store_of P f) i) = key_of (P ! i)"
  by (simp add: read_store)

lemma t_ns_read: "i < length P \<Longrightarrow> t_ns (read_node d (store_of P f) i) = f (P ! i)"
  by (simp add: read_store)

lemma key_of_eq: "paths_ok P \<Longrightarrow> p \<in> set P \<Longrightarrow> q \<in> set P \<Longrightarrow> key_of p = key_of q \<Longrightarrow> p = q"
  using key_of_inj by (auto simp: paths_ok_def)

definition exact_keys :: "jsstring list list \<Rightarrow> tree list \<Rightarrow> jsstring list set \<Rightarrow> bool" where
  "exact_keys P ts Q \<longleftrightarrow> distinct (map t_key ts) \<and> t_key ` set ts = key_of ` Q \<and> Q \<subseteq> set P"

lemma forest_keys:
  assumes P: "paths_ok P"
    and kids: "\<And>j. j \<in> set (kids P p) \<Longrightarrow>
      exact_keys P (nodes_of (read_node d (store_of P f) j)) {q \<in> set P. Sublist.prefix (P ! j) q}"
  shows "exact_keys P (forest d P f p) {q \<in> set P. Sublist.strict_prefix p q}"
proof -
  let ?g = "\<lambda>j. map t_key (nodes_of (read_node d (store_of P f) j))"
  have "distinct (concat (map ?g (kids P p)))"
  proof (rule distinct_concat_map)
    fix j k x assume jk: "j \<in> set (kids P p)" "k \<in> set (kids P p)" "x \<in> set (?g j)" "x \<in> set (?g k)"
    obtain q r where "x = key_of q" "q \<in> set P" "Sublist.prefix (P ! j) q" "x = key_of r" "r \<in> set P" "Sublist.prefix (P ! k) r"
      using kids [OF jk(1)] kids [OF jk(2)] jk(3,4) unfolding exact_keys_def set_map by blast
    then show "j = k" using key_of_eq [OF P] kid_inj [OF P jk(1,2)] by metis
  qed (use kids in \<open>auto simp: exact_keys_def kids_def\<close>)
  then have "distinct (map t_key (forest d P f p))" by (simp add: forest_def map_concat comp_def)
  moreover have "t_key ` set (forest d P f p) = (\<Union>j\<in>set (kids P p). t_key ` set (nodes_of (read_node d (store_of P f) j)))"
    by (auto simp: forest_def)
  then have "t_key ` set (forest d P f p) = key_of ` {q \<in> set P. Sublist.strict_prefix p q}"
    unfolding below_kids [OF P] using kids by (simp add: exact_keys_def image_UN)
  ultimately show ?thesis by (auto simp: exact_keys_def)
qed

lemma tree_keys:
  assumes P: "paths_ok P"
  shows "i < length P \<Longrightarrow> deep P d (P ! i) \<Longrightarrow>
    exact_keys P (nodes_of (read_node d (store_of P f) i)) {q \<in> set P. Sublist.prefix (P ! i) q}"
proof (induction d arbitrary: i)
  case 0
  have "{q \<in> set P. Sublist.prefix (P ! i) q} = {P ! i}"
    using 0 by (fastforce simp: deep_def prefix_def)
  then show ?case using 0 by (simp add: nodes_read exact_keys_def t_key_read)
next
  case (Suc d)
  have "exact_keys P (forest d P f (P ! i)) {q \<in> set P. Sublist.strict_prefix (P ! i) q}"
  proof (rule forest_keys [OF P])
    fix j assume "j \<in> set (kids P (P ! i))"
    note j = kid_path [OF P this]
    then show "exact_keys P (nodes_of (read_node d (store_of P f) j)) {q \<in> set P. Sublist.prefix (P ! j) q}"
      using Suc.IH [of j] deep_kid [OF Suc.prems(2), of "P ! j"] by blast
  qed
  moreover have "{q \<in> set P. Sublist.prefix (P ! i) q} = insert (P ! i) {q \<in> set P. Sublist.strict_prefix (P ! i) q}"
    using Suc.prems(1) by (auto simp: strict_prefix_def)
  moreover have "key_of (P ! i) \<notin> key_of ` {q \<in> set P. Sublist.strict_prefix (P ! i) q}"
    using key_of_eq [OF P] Suc.prems(1) by (fastforce simp: strict_prefix_def)
  ultimately show ?case using Suc.prems(1) by (simp add: nodes_read exact_keys_def t_key_read)
qed

lemma nodes_of_read:
  assumes P: "paths_ok P"
  shows "i < length P \<Longrightarrow> deep P d (P ! i) \<Longrightarrow> t \<in> set (nodes_of (read_node d (store_of P f) i)) \<Longrightarrow>
    \<exists>e j. t = read_node e (store_of P f) j \<and> j < length P \<and> deep P e (P ! j)"
proof (induction d arbitrary: i)
  case (Suc d)
  show ?case
  proof (cases "t = read_node (Suc d) (store_of P f) i")
    case False
    then obtain j where j: "j \<in> set (kids P (P ! i))" "t \<in> set (nodes_of (read_node d (store_of P f) j))"
      using Suc.prems(1,3) by (auto simp: nodes_read forest_def)
    then show ?thesis using Suc.IH [of j] kid_path [OF P j(1)] deep_kid [OF Suc.prems(2), of "P ! j"] by blast
  qed (use Suc.prems in blast)
qed (auto simp: nodes_read)

lemma length_filter_keys:
  assumes "distinct (map t_key ts)"
  shows "length (filter Q ts) = card (t_key ` {t \<in> set ts. Q t})"
proof -
  have "distinct (map t_key (filter Q ts))" using assms by (rule distinct_map_filter)
  then show ?thesis using distinct_card [of "map t_key (filter Q ts)"] by simp
qed

text \<open>The counter of a node: the paths with a namespace at or below it.\<close>

lemma countReal_read:
  assumes P: "paths_ok P" and i: "i < length P" "deep P d (P ! i)"
  shows "countReal (read_node d (store_of P f) i) = card {q \<in> set P. Sublist.prefix (P ! i) q \<and> f q \<noteq> None}"
proof -
  let ?ts = "nodes_of (read_node d (store_of P f) i)"
  let ?Q = "{q \<in> set P. Sublist.prefix (P ! i) q}"
  have keys: "distinct (map t_key ?ts)" "t_key ` set ?ts = key_of ` ?Q" using tree_keys [OF P i] by (simp_all add: exact_keys_def)
  have node: "\<exists>q\<in>set P. t_key t = key_of q \<and> t_ns t = f q" if "t \<in> set ?ts" for t
    using nodes_of_read [OF P i that] by (auto simp: t_key_read t_ns_read)
  have "t_key ` {t \<in> set ?ts. t_ns t \<noteq> None} = key_of ` {q \<in> ?Q. f q \<noteq> None}"
  proof (intro equalityI subsetI)
    fix k assume "k \<in> t_key ` {t \<in> set ?ts. t_ns t \<noteq> None}"
    then obtain t where t: "t \<in> set ?ts" "t_ns t \<noteq> None" "k = t_key t" by blast
    then obtain q where q: "q \<in> ?Q" "k = key_of q" using keys(2) by blast
    obtain r where r: "r \<in> set P" "k = key_of r" "t_ns t = f r" using node [OF t(1)] t(3) by blast
    have "q = r" by (rule key_of_eq [OF P]) (use q r in auto)
    then show "k \<in> key_of ` {q \<in> ?Q. f q \<noteq> None}" using q r(3) t(2) by auto
  next
    fix k assume "k \<in> key_of ` {q \<in> ?Q. f q \<noteq> None}"
    then obtain q where q: "q \<in> ?Q" "f q \<noteq> None" "k = key_of q" by blast
    then obtain t where t: "t \<in> set ?ts" "t_key t = k" using keys(2) by (metis (no_types, lifting) imageE image_eqI)
    then obtain r where r: "r \<in> set P" "k = key_of r" "t_ns t = f r" using node [OF t(1)] by metis
    have "q = r" by (rule key_of_eq [OF P]) (use q r in auto)
    then have "t_ns t \<noteq> None" using q(2) r(3) by simp
    with t show "k \<in> t_key ` {t \<in> set ?ts. t_ns t \<noteq> None}" by blast
  qed
  moreover have "inj_on key_of {q \<in> ?Q. f q \<noteq> None}" using key_of_eq [OF P] by (auto simp: inj_on_def)
  ultimately show ?thesis unfolding countReal_nodes length_filter_keys [OF keys(1)] by (simp add: card_image conj_assoc)
qed


section \<open>The sorted tree\<close>

definition all_nodes :: "tree list \<Rightarrow> tree list" where
  "all_nodes ts = concat (map nodes_of ts)"

lemma sortRec_sel [simp]: "t_key (sortRec lc t) = t_key t" "t_label (sortRec lc t) = t_label t" "t_ns (sortRec lc t) = t_ns t"
  by (cases t; simp)+

lemma mset_all_nodes: "mset (all_nodes ts) = sum_mset (image_mset (\<lambda>t. mset (nodes_of t)) (mset ts))"
  by (induction ts) (simp_all add: all_nodes_def)

lemma mset_all_nodes_sort [simp]: "mset (all_nodes (sort_nodes lc ts)) = mset (all_nodes ts)"
  by (simp add: mset_all_nodes sort_nodes_def)

lemma nodes_of_sortRec: "mset (nodes_of (sortRec lc t)) = image_mset (sortRec lc) (mset (nodes_of t))"
proof (induction t)
  case (Node k l n cs)
  have "mset (all_nodes (map (sortRec lc) cs)) = image_mset (sortRec lc) (mset (all_nodes cs))"
    using Node by (induction cs) (simp_all add: all_nodes_def)
  moreover have "nodes_of (sortRec lc (Node k l n cs)) =
      sortRec lc (Node k l n cs) # all_nodes (sort_nodes lc (map (sortRec lc) cs))" by (simp add: all_nodes_def)
  moreover have "nodes_of (Node k l n cs) = Node k l n cs # all_nodes cs" by (simp add: all_nodes_def)
  ultimately show ?case by (simp only: mset.simps mset_all_nodes_sort image_mset_add_mset)
qed

lemma countReal_sortRec [simp]: "countReal (sortRec lc t) = countReal t"
proof -
  have c: "countReal u = size (filter_mset (\<lambda>u. t_ns u \<noteq> None) (mset (nodes_of u)))" for u
    by (simp only: countReal_nodes mset_filter [symmetric] size_mset)
  show ?thesis unfolding c nodes_of_sortRec by (simp add: filter_mset_image_mset)
qed

lemma path_length:
  assumes "paths_ok P" "q \<in> set P" shows "length q \<le> length P"
proof -
  have "(\<lambda>k. take k q) ` {1..length q} \<subseteq> set P"
  proof
    fix t assume "t \<in> (\<lambda>k. take k q) ` {1..length q}"
    then obtain k where k: "t = take k q" "1 \<le> k" "k \<le> length q" by auto
    then have "t \<noteq> []" by auto
    then show "t \<in> set P" using paths_closed [OF assms take_is_prefix] k(1) by blast
  qed
  moreover have "inj_on (\<lambda>k. take k q) {1..length q}"
    by (auto simp: inj_on_def dest!: arg_cong [of _ _ length])
  ultimately have "card {1..length q} \<le> card (set P)" by (intro card_inj_on_le [of "\<lambda>k. take k q"]) auto
  then have "length q \<le> card (set P)" by simp
  then show ?thesis using card_length le_trans by blast
qed

lemma deep_enough: "paths_ok P \<Longrightarrow> deep P (length P) p"
  using path_length by (fastforce simp: deep_def)

lemma buildTree_nodes:
  assumes "build_store items = store_of P f"
  shows "mset (all_nodes (buildTree lc items)) = image_mset (sortRec lc) (mset (forest (length P) P f []))"
proof -
  let ?r = "\<lambda>j. read_node (length P) (store_of P f) j"
  have "length (ts_nodes (store_of P f)) = length P" "ts_roots (store_of P f) = kids P []" by (simp_all add: store_of_def)
  then have "buildTree lc items = sort_nodes lc (map (\<lambda>j. sortRec lc (?r j)) (kids P []))"
    unfolding buildTree_def assms by (simp only: Let_def)
  then have "mset (all_nodes (buildTree lc items)) = mset (all_nodes (map (\<lambda>j. sortRec lc (?r j)) (kids P [])))" by simp
  also have "\<dots> = image_mset (sortRec lc) (mset (concat (map (\<lambda>j. nodes_of (?r j)) (kids P []))))"
  proof -
    have "mset (all_nodes (map (\<lambda>j. sortRec lc (g j)) ks)) = image_mset (sortRec lc) (mset (concat (map (\<lambda>j. nodes_of (g j)) ks)))"
      for g :: "nat \<Rightarrow> tree" and ks by (induction ks) (simp_all add: all_nodes_def nodes_of_sortRec)
    then show ?thesis .
  qed
  finally show ?thesis by (simp add: forest_def)
qed

section \<open>Paths and names\<close>

lemma split_on_key_append: "seg_path p \<Longrightarrow> split_on (jc CHR ''/'') (key_of p @ jc CHR ''/'' # r) = p @ split_on (jc CHR ''/'') r"
proof (induction p)
  case (Cons s p)
  show ?case
  proof (cases "p = []")
    case False
    then have "key_of (s # p) = s @ jc CHR ''/'' # key_of p" by (cases p) simp_all
    moreover have "seg_path p" using False Cons.prems by (simp add: seg_path_def)
    moreover have "jc CHR ''/'' \<notin> set s" using Cons.prems by (simp add: seg_path_def)
    ultimately show ?thesis using Cons.IH split_on_append_sep [of "jc CHR ''/''" s] by (simp only: append.assoc append_Cons simp_thms)
  qed (use Cons.prems in \<open>simp add: seg_path_def split_on_append_sep\<close>)
qed (simp add: seg_path_def)

lemma prefix_path_name:
  assumes "seg_path p"
  shows "Sublist.prefix p (split_on (jc CHR ''/'') s) \<longleftrightarrow> s = key_of p \<or> starts_with s (key_of p @ js ''/'')"
proof
  assume "Sublist.prefix p (split_on (jc CHR ''/'') s)"
  then obtain r where r: "split_on (jc CHR ''/'') s = p @ r" by (auto simp: prefix_def)
  then have s: "s = key_of (p @ r)" by (metis join_split_on)
  have "p \<noteq> []" using assms by (simp add: seg_path_def)
  then have "key_of (p @ x # xs) = key_of p @ jc CHR ''/'' # key_of (x # xs)" for x xs
    by (induction p rule: induct_list012) simp_all
  then show "s = key_of p \<or> starts_with s (key_of p @ js ''/'')" using s by (cases r) (simp_all add: starts_with_def)
next
  assume "s = key_of p \<or> starts_with s (key_of p @ js ''/'')"
  then show "Sublist.prefix p (split_on (jc CHR ''/'') s)"
  proof
    assume "s = key_of p"
    then show ?thesis using assms split_on_join [of p "jc CHR ''/''"] by (simp add: seg_path_def list_all_iff)
  next
    assume "starts_with s (key_of p @ js ''/'')"
    then obtain r where "s = (key_of p @ js ''/'') @ r" unfolding starts_with_def by (metis append_take_drop_id)
    then have "s = key_of p @ jc CHR ''/'' # r" by simp
    then show ?thesis using split_on_key_append [OF assms] by simp
  qed
qed

lemma valid_name_path: "ValidateName (text_encode (nv_name it)) \<Longrightarrow> list_all seg_ok (name_path it)"
proof -
  assume v: "ValidateName (text_encode (nv_name it))"
  then have ne: "nv_name it \<noteq> []" by (auto simp: text_encode_def)
  then have "nameErrorKind (nv_name it) = None" using v server_rule by blast
  then show ?thesis unfolding nameErrorKind_None [OF ne]
    by (auto simp: list_all_iff name_path_def seg_ok_def test_SEGMENT_RE dest: split_on_no_sep simp del: js_simps)
qed


section \<open>The tree shows the namespaces\<close>

lemma name_path_inj: "name_path a = name_path b \<longleftrightarrow> nv_name a = nv_name b"
  unfolding name_path_def by (metis join_split_on)

lemma key_name_path: "key_of (name_path it) = nv_name it"
  by (simp only: name_path_def join_split_on)

lemma item_at_iff:
  assumes "distinct (map nv_name items)"
  shows "item_at items q = Some it \<longleftrightarrow> it \<in> set items \<and> q = name_path it"
proof -
  have "distinct (map name_path items)" using assms by (auto simp: distinct_map inj_on_def name_path_inj)
  then show ?thesis unfolding item_at_def by (subst map_of_eq_Some_iff) (auto simp: rev_map [symmetric] comp_def)
qed

lemma forest_nodes:
  assumes "paths_ok P" "t \<in> set (forest (length P) P f [])"
  obtains p where "p \<in> set P" "t_key t = key_of p" "t_ns t = f p" "countReal t = card {q \<in> set P. Sublist.prefix p q \<and> f q \<noteq> None}"
proof -
  obtain i where i: "i \<in> set (kids P [])" "t \<in> set (nodes_of (read_node (length P) (store_of P f) i))"
    using assms(2) by (auto simp: forest_def)
  obtain e j where "t = read_node e (store_of P f) j" "j < length P" "deep P e (P ! j)"
    using nodes_of_read [OF assms(1) _ deep_enough [OF assms(1)] i(2)] kid_path [OF assms(1) i(1)] by blast
  then show ?thesis using that [of "P ! j"] countReal_read [OF assms(1)] by (simp add: t_key_read t_ns_read)
qed

lemma forest_exact:
  assumes "paths_ok P" shows "exact_keys P (forest (length P) P f []) (set P)"
proof -
  have "exact_keys P (forest (length P) P f []) {q \<in> set P. Sublist.strict_prefix [] q}"
    using tree_keys [OF assms] deep_enough [OF assms] kid_path [OF assms] by (intro forest_keys [OF assms]) blast
  moreover have "{q \<in> set P. Sublist.strict_prefix [] q} = set P" using assms by (auto simp: paths_ok_def seg_path_def strict_prefix_def)
  ultimately show ?thesis by simp
qed

lemma count_below:
  assumes "distinct (map nv_name items)" "name_path ` set items \<subseteq> set P"
  shows "card {q \<in> set P. Sublist.prefix p q \<and> item_at items q \<noteq> None} = length (filter (\<lambda>it. Sublist.prefix p (name_path it)) items)"
proof -
  have "{q \<in> set P. Sublist.prefix p q \<and> item_at items q \<noteq> None} = name_path ` {it \<in> set items. Sublist.prefix p (name_path it)}"
    using assms(2) item_at_iff [OF assms(1)] by fastforce
  moreover have "inj_on name_path (set items)" using assms(1) by (auto simp: inj_on_def distinct_map name_path_inj)
  then have "inj_on name_path {it \<in> set items. Sublist.prefix p (name_path it)}" by (rule inj_on_subset) blast
  moreover have "distinct items" using assms(1) by (simp add: distinct_map)
  then have "length (filter (\<lambda>it. Sublist.prefix p (name_path it)) items) = card {it \<in> set items. Sublist.prefix p (name_path it)}"
    by (metis distinct_card distinct_filter set_filter)
  ultimately show ?thesis by (simp add: card_image)
qed

lemma map_filter_distinct:
  assumes "distinct (map t_key ts)" "\<And>t it. t \<in> set ts \<Longrightarrow> t_ns t = Some it \<Longrightarrow> t_key t = nv_name it"
  shows "distinct (List.map_filter t_ns ts)"
proof -
  have "map nv_name (List.map_filter t_ns ts) = map t_key (filter (\<lambda>t. t_ns t \<noteq> None) ts)"
    using assms(2) by (induction ts) (auto simp: List.map_filter_def)
  then show ?thesis using distinct_map_filter [OF assms(1)] by (metis distinct_map)
qed

text \<open>What a node of the tree carries, given the paths of the store.\<close>

lemma tree_node_facts:
  assumes P: "build_store items = store_of P (item_at items)" "paths_ok P" and names: "name_path ` set items \<subseteq> set P"
    and distinct: "distinct (map nv_name items)" and mem: "t \<in> set (all_nodes (buildTree lc items))"
  shows "(\<forall>it. t_ns t = Some it \<longrightarrow> it \<in> set items \<and> t_key t = nv_name it) \<and>
    countReal t = length (filter (\<lambda>it. nv_name it = t_key t \<or> starts_with (nv_name it) (t_key t @ js ''/'')) items)"
proof -
  let ?f = "item_at items"
  let ?F = "forest (length P) P ?f []"
  have "set (all_nodes (buildTree lc items)) = sortRec lc ` set ?F"
    using arg_cong [OF buildTree_nodes [OF P(1), of lc], of set_mset] by simp
  then obtain u where u: "u \<in> set ?F" "t = sortRec lc u" using mem by blast
  obtain p where p: "p \<in> set P" "t_key u = key_of p" "t_ns u = ?f p"
    "countReal u = card {q \<in> set P. Sublist.prefix p q \<and> ?f q \<noteq> None}" using forest_nodes [OF P(2) u(1)] .
  have good: "seg_path p" using p(1) P(2) by (simp add: paths_ok_def)
  have key: "t_key t = key_of p" "t_ns t = ?f p" using u(2) p(2,3) by simp_all
  have "countReal t = length (filter (\<lambda>it. Sublist.prefix p (name_path it)) items)"
    using u(2) p(4) count_below [OF distinct names] by simp
  then have "countReal t = length (filter (\<lambda>it. nv_name it = t_key t \<or> starts_with (nv_name it) (t_key t @ js ''/'')) items)"
    unfolding key(1) name_path_def prefix_path_name [OF good] .
  moreover have "it \<in> set items \<and> t_key t = nv_name it" if "t_ns t = Some it" for it
    using that key item_at_iff [OF distinct, of p it] key_name_path by metis
  ultimately show ?thesis by blast
qed

text \<open>
  C37: the tree of namespaces with valid and distinct names, however they are ordered, holds every namespace exactly
  once, at the node whose path is its name; no two nodes have the same path; and the counter of every node, group header
  or namespace, is the number of namespaces that have its path as their name or begin with its path and a slash.
\<close>

theorem tree_shows_namespaces:
  assumes valid: "\<forall>it\<in>set items. ValidateName (text_encode (nv_name it))" and distinct: "distinct (map nv_name items)"
  shows "mset (List.map_filter t_ns (all_nodes (buildTree lc items))) = mset items \<and>
    distinct (map t_key (all_nodes (buildTree lc items))) \<and>
    (\<forall>t\<in>set (all_nodes (buildTree lc items)).
      (\<forall>it. t_ns t = Some it \<longrightarrow> t_key t = nv_name it) \<and>
      countReal t = length (filter (\<lambda>it. nv_name it = t_key t \<or> starts_with (nv_name it) (t_key t @ js ''/'')) items))"
proof -
  obtain P where P: "build_store items = store_of P (item_at items)" "paths_ok P"
    and setP: "set P = {t. t \<noteq> [] \<and> (\<exists>it\<in>set items. Sublist.prefix t (name_path it))}"
    using build_store_paths valid valid_name_path by blast
  let ?f = "item_at items" and ?all = "all_nodes (buildTree lc items)"
  let ?F = "forest (length P) P ?f []"
  note bt = buildTree_nodes [OF P(1), of lc]
  have img: "set ?all = sortRec lc ` set ?F" using arg_cong [OF bt, of set_mset] by simp
  have names: "name_path ` set items \<subseteq> set P" unfolding setP by (auto simp: name_path_def)
  have dk: "distinct (map t_key ?all)"
  proof -
    have "mset (map t_key ?all) = mset (map t_key ?F)" using bt by (simp add: image_mset.compositionality comp_def)
    moreover have "distinct (map t_key ?F)" using forest_exact [OF P(2), of ?f] by (simp add: exact_keys_def)
    ultimately show ?thesis by (metis mset_eq_imp_distinct_iff)
  qed
  note node = tree_node_facts [OF P names distinct]
  have "set (List.map_filter t_ns ?all) = set items"
  proof (intro equalityI subsetI)
    fix it assume it: "it \<in> set items"
    then have "key_of (name_path it) \<in> t_key ` set ?F" using forest_exact [OF P(2), of ?f] names by (auto simp: exact_keys_def)
    then obtain u where u: "u \<in> set ?F" "t_key u = key_of (name_path it)" by auto
    obtain p where p: "p \<in> set P" "t_key u = key_of p" "t_ns u = ?f p" using forest_nodes [OF P(2) u(1)] .
    have "p = name_path it" by (rule key_of_eq [OF P(2)]) (use p u it names in auto)
    then have "t_ns (sortRec lc u) = Some it" using p(3) item_at_iff [OF distinct] it by simp
    then show "it \<in> set (List.map_filter t_ns ?all)" using u(1) img by (force simp: List.map_filter_def)
  qed (use node in \<open>auto simp: List.map_filter_def\<close>)
  moreover have "distinct (List.map_filter t_ns ?all)" using map_filter_distinct [OF dk] node by blast
  moreover have "distinct items" using distinct by (simp add: distinct_map)
  ultimately have "mset (List.map_filter t_ns ?all) = mset items" by (metis set_eq_iff_mset_eq_distinct)
  with dk node show ?thesis by blast
qed


definition ns_named :: "string \<Rightarrow> ns_details" where
  "ns_named n = \<lparr>nv_name = js n, nv_created_at = [], nd_description = None, nd_owner = None, nd_labels = None, nd_stats = None\<rparr>"

theorem tree_shows_namespaces_witness:
  "mset (List.map_filter t_ns (all_nodes (buildTree (\<lambda>a b. 0) [ns_named ''a/b'', ns_named ''a'', ns_named ''c/d'']))) =
     mset [ns_named ''a/b'', ns_named ''a'', ns_named ''c/d'']"
proof -
  let ?items = "[ns_named ''a/b'', ns_named ''a'', ns_named ''c/d'']"
  have "\<forall>it\<in>set ?items. ValidateName (text_encode (nv_name it))"
    by (simp add: ns_named_def text_encode_def ValidateName_iff segmentRe_def go_lower_digit_def GoRootNamespace_def gostr_def is_high_def is_low_def)
  moreover have "distinct (map nv_name ?items)" by (simp add: ns_named_def)
  ultimately show ?thesis using tree_shows_namespaces [of ?items "\<lambda>a b. 0"] by blast
qed

text \<open>With no group collapsed the rows are all nodes; a collapsed group keeps its own row and hides what is below it.\<close>

lemma rows_expanded: "map snd (renderTreeRows [] d t) = nodes_of t"
proof (induction t arbitrary: d)
  case (Node k l n cs)
  have "map snd (concat (map (renderTreeRows [] (d + 1)) cs)) = concat (map nodes_of cs)"
    using Node by (induction cs) simp_all
  then show ?case by (simp add: set_has_def)
qed

lemma rows_collapsed: "set_has collapsed (t_key t) \<Longrightarrow> renderTreeRows collapsed d t = [(d, t)]"
  by (cases t) simp

end
