(* ===== verification/Mounts.thy ===== *)
theory Mounts
  imports Namespaces Durations Js_Set
begin

text \<open>
  Mounts: the helpers of \<open>pages/dashboard/mounts/lib.ts\<close>, the page, the wizard that creates a mount, the tune form, and on the
  server the mount table and the stored settings (\<open>internal/mount\<close>, \<open>internal/api/mounts.go\<close>) on the barrier of
  \<open>Namespaces\<close>. The number field of the version limit holds whole numbers. \<open>lc\<close> is \<open>localeCompare\<close> and \<open>lw\<close> is
  \<open>toLowerCase\<close>.
\<close>

section \<open>Paths, types and categories\<close>

record mount_entry =
  me_path :: jsstring
  me_type :: jsstring
  me_accessor :: jsstring
  me_description :: "jsstring option"
  me_builtin :: bool
  me_created_at :: jsstring

datatype mcat = MAuth | MEngine | MSys

datatype mfilter = FAll | FAuth | FSecrets | FSys

definition AUTH_TYPES :: "jsstring list" where
  "AUTH_TYPES = map js [''approle'', ''auth'', ''cert'', ''jwt'', ''kubernetes'', ''ldap'', ''oidc'', ''token'', ''userpass'']"

definition SYS_TYPES :: "jsstring list" where
  "SYS_TYPES = map js [''identity'', ''system'']"

definition catOf :: "mount_entry \<Rightarrow> mcat" where
  "catOf m =
     (if me_type m \<in> set SYS_TYPES then MSys
      else if me_type m \<in> set AUTH_TYPES \<or> starts_with (me_path m) (js ''auth/'') then MAuth
      else MEngine)"

definition matchesFilter :: "mount_entry \<Rightarrow> mfilter \<Rightarrow> bool" where
  "matchesFilter m f = (case f of
      FAll \<Rightarrow> True | FSecrets \<Rightarrow> catOf m = MEngine | FAuth \<Rightarrow> catOf m = MAuth | FSys \<Rightarrow> catOf m = MSys)"

record catalog_type =
  ct_id :: jsstring
  ct_auth :: bool
  ct_suggest :: jsstring

definition CATALOG :: "catalog_type list" where
  "CATALOG =
    [\<lparr>ct_id = js ''kv'', ct_auth = False, ct_suggest = js ''my-kv''\<rparr>,
     \<lparr>ct_id = js ''kubernetes'', ct_auth = True, ct_suggest = js ''auth/kubernetes-spb''\<rparr>,
     \<lparr>ct_id = js ''approle'', ct_auth = True, ct_suggest = js ''auth/approle-ci''\<rparr>,
     \<lparr>ct_id = js ''jwt'', ct_auth = True, ct_suggest = js ''auth/jwt-sso''\<rparr>]"

definition mseg_head :: "jschar \<Rightarrow> bool" where
  "mseg_head c \<longleftrightarrow> in_range CHR ''a'' CHR ''z'' c \<or> is_digit c"

definition mseg_tail :: "jschar \<Rightarrow> bool" where
  "mseg_tail c \<longleftrightarrow> mseg_head c \<or> c = jc CHR ''_'' \<or> c = jc CHR ''-''"

definition mseg_re :: re where
  "mseg_re = Seq (Cls mseg_head) (Star (Cls mseg_tail))"

definition MOUNT_PATH_RE :: re where
  "MOUNT_PATH_RE = anchored (Seq mseg_re (Star (Grp 1 (Seq (Cls (\<lambda>c. c = jc CHR ''/'')) mseg_re))))"

definition TYPE_RE :: re where
  "TYPE_RE = anchored mseg_re"

text \<open>\<open>.replace(/^\/+|\/+$/g, '')\<close>: the slashes at both ends.\<close>

definition strip_slashes :: "jsstring \<Rightarrow> jsstring" where
  "strip_slashes s = rev (dropWhile (\<lambda>c. c = jc CHR ''/'') (rev (dropWhile (\<lambda>c. c = jc CHR ''/'') s)))"

definition normPath :: "jsstring \<Rightarrow> jsstring" where
  "normPath p = strip_slashes (trim p)"

definition withSlash :: "jsstring \<Rightarrow> jsstring" where
  "withSlash p = normPath p @ js ''/''"

section \<open>The page\<close>

definition mount_list :: "(jsstring \<Rightarrow> jsstring \<Rightarrow> int) \<Rightarrow> mount_entry list option \<Rightarrow> mount_entry list" where
  "mount_list lc d = sort_by (\<lambda>a b. lc (me_path a) (me_path b)) (nullish d [])"

definition visible_mounts :: "(jsstring \<Rightarrow> jsstring) \<Rightarrow> mfilter \<Rightarrow> jsstring \<Rightarrow> mount_entry list \<Rightarrow> mount_entry list" where
  "visible_mounts lw f q ms = (let needle = lw (trim q) in
     filter (\<lambda>m. matchesFilter m f \<and> (needle = [] \<or>
       includes_str (lw (me_path m @ js '' '' @ me_type m @ js '' '' @ nullish (me_description m) [])) needle)) ms)"

record mount_stats =
  ms_builtin :: nat
  ms_custom :: int
  ms_types :: "(jsstring \<times> mcat \<times> nat) list"

text \<open>The \<open>Map\<close> from types to their category and count, in insertion order.\<close>

fun count_type :: "mount_entry \<Rightarrow> (jsstring \<times> mcat \<times> nat) list \<Rightarrow> (jsstring \<times> mcat \<times> nat) list" where
  "count_type m [] = [(me_type m, catOf m, 1)]"
| "count_type m ((ty, c, n) # by) = (if ty = me_type m then (ty, c, n + 1) # by else (ty, c, n) # count_type m by)"

definition mountStats :: "mount_entry list \<Rightarrow> mount_stats" where
  "mountStats ms = (let b = length (filter me_builtin ms) in
     \<lparr>ms_builtin = b, ms_custom = int (length ms) - int b, ms_types = fold count_type ms []\<rparr>)"

record mounts_page =
  mp_filter :: mfilter
  mp_q :: jsstring
  mp_open :: "jsstring option"
  mp_creating :: bool
  mp_tuning :: "mount_entry option"
  mp_toDelete :: "mount_entry option"
  mp_dying :: "jsstring option"
  mp_fresh :: "jsstring option"

definition mount_toggle :: "jsstring \<Rightarrow> mounts_page \<Rightarrow> mounts_page" where
  "mount_toggle path p = p\<lparr>mp_open := if mp_open p = Some path then None else Some path\<rparr>"

definition mount_onKey :: "bool \<Rightarrow> jsstring \<Rightarrow> jsstring \<Rightarrow> mounts_page \<Rightarrow> mounts_page" where
  "mount_onKey onTarget key path p =
     (if \<not> onTarget then p else if key = js ''Enter'' \<or> key = js '' '' then mount_toggle path p else p)"

definition mount_onCreated :: "jsstring \<Rightarrow> mounts_page \<Rightarrow> mounts_page" where
  "mount_onCreated path p = p\<lparr>mp_filter := FAll, mp_q := [], mp_open := None, mp_fresh := Some path\<rparr>"

text \<open>\<open>confirmDelete\<close> after the request: a failure is reported and thrown on; a success closes the unit and lets it leave.\<close>

definition unmount_done :: "mount_entry \<Rightarrow> mounts_page \<Rightarrow> mounts_page" where
  "unmount_done m p = p\<lparr>mp_open := if mp_open p = Some (me_path m) then None else mp_open p, mp_dying := Some (me_path m)\<rparr>"

definition unmount_left :: "mounts_page \<Rightarrow> mounts_page" where
  "unmount_left p = p\<lparr>mp_dying := None\<rparr>"

section \<open>The wizard\<close>

definition CUSTOM :: jsstring where "CUSTOM = js ''custom''"
definition DESC_MAX :: nat where "DESC_MAX = 120"
definition WIZARD_KV2_PATH :: jsstring where "WIZARD_KV2_PATH = js ''secret''"
definition MAX_VERSIONS_LIMIT :: int where "MAX_VERSIONS_LIMIT = 1000"

record wizard =
  wz_step :: nat
  wz_typeId :: "jsstring option"
  wz_customType :: jsstring
  wz_path :: jsstring
  wz_desc :: jsstring
  wz_maxVersions :: int
  wz_casRequired :: bool
  wz_serverErr :: jsstring
  wz_pending :: bool

definition wizard_open :: wizard where
  "wizard_open = \<lparr>wz_step = 0, wz_typeId = None, wz_customType = [], wz_path = [], wz_desc = [], wz_maxVersions = 0,
     wz_casRequired = False, wz_serverErr = [], wz_pending = False\<rparr>"

definition wz_type :: "wizard \<Rightarrow> jsstring" where
  "wz_type w = (if wz_typeId w = Some CUSTOM then trim (wz_customType w) else nullish (wz_typeId w) [])"

definition wz_norm :: "wizard \<Rightarrow> jsstring" where
  "wz_norm w = normPath (wz_path w)"

definition wz_isKV2 :: "wizard \<Rightarrow> bool" where
  "wz_isKV2 w \<longleftrightarrow> wz_typeId w = Some (js ''kv'') \<and> wz_norm w = WIZARD_KV2_PATH"

definition wz_maxVersionsErr :: "wizard \<Rightarrow> bool" where
  "wz_maxVersionsErr w \<longleftrightarrow> wz_isKV2 w \<and> (wz_maxVersions w < 0 \<or> MAX_VERSIONS_LIMIT < wz_maxVersions w)"

datatype path_error = PathEmpty | PathChars | PathLen | PathTaken jsstring

definition pathErr :: "mount_entry list \<Rightarrow> jsstring \<Rightarrow> path_error option" where
  "pathErr mounts nm =
     (if nm = [] then Some PathEmpty
      else if \<not> test MOUNT_PATH_RE nm then Some PathChars
      else if 64 < length nm then Some PathLen
      else map_option (\<lambda>hit. PathTaken (me_type hit)) (find (\<lambda>m. normPath (me_path m) = nm) mounts))"

definition wz_typeErr :: "wizard \<Rightarrow> bool" where
  "wz_typeErr w \<longleftrightarrow> wz_typeId w = Some CUSTOM \<and> trim (wz_customType w) \<noteq> [] \<and> \<not> test TYPE_RE (trim (wz_customType w))"

definition wz_typeOk :: "wizard \<Rightarrow> bool" where
  "wz_typeOk w \<longleftrightarrow> truthy_str (wz_typeId w) \<and> (wz_typeId w \<noteq> Some CUSTOM \<or> (trim (wz_customType w) \<noteq> [] \<and> \<not> wz_typeErr w))"

definition canNext :: "mount_entry list \<Rightarrow> wizard \<Rightarrow> bool" where
  "canNext mounts w =
     (if wz_step w = 0 then wz_typeOk w
      else if wz_step w = 1 then pathErr mounts (wz_norm w) = None \<and> \<not> wz_maxVersionsErr w
      else True)"

definition suggest_of :: "jsstring option \<Rightarrow> jsstring option" where
  "suggest_of i = map_option ct_suggest (find (\<lambda>c. Some (ct_id c) = i) CATALOG)"

definition wz_pick :: "jsstring \<Rightarrow> wizard \<Rightarrow> wizard" where
  "wz_pick i w = (let prev = nullish (suggest_of (wz_typeId w)) []; next' = nullish (suggest_of (Some i)) [] in
     w\<lparr>wz_typeId := Some i, wz_path := if wz_path w = [] \<or> wz_path w = prev then next' else wz_path w\<rparr>)"

definition wz_go :: "nat \<Rightarrow> wizard \<Rightarrow> wizard" where
  "wz_go to w = w\<lparr>wz_serverErr := [], wz_step := to\<rparr>"

definition wz_request :: "wizard \<Rightarrow> request" where
  "wz_request w = createMount (wz_norm w) (wz_type w) (if trim (wz_desc w) = [] then None else Some (trim (wz_desc w)))
     (if wz_isKV2 w then Some (Some (nat (wz_maxVersions w)), Some (wz_casRequired w)) else None)"

text \<open>The cards offered: those of the catalogue and the custom one.\<close>

definition card_ids :: "jsstring list" where
  "card_ids = map ct_id CATALOG @ [CUSTOM]"

text \<open>
  What the user can do: the inputs of a step are shown at that step only, and the buttons are disabled while the request
  is on its way. \<open>WzNext\<close> and \<open>WzSubmit\<close> see the mounts known at that moment.
\<close>

datatype wz_op =
    WzPick jsstring | WzCustom jsstring | WzPath jsstring | WzDesc jsstring | WzVersions int | WzCas
  | WzNext "mount_entry list" | WzBack | WzSubmit | WzFailed "jsstring option"

fun wz_step_op :: "wz_op \<Rightarrow> wizard \<Rightarrow> wizard" where
  "wz_step_op (WzPick i) w = (if wz_step w = 0 \<and> i \<in> set card_ids then wz_pick i w else w)"
| "wz_step_op (WzCustom s) w = (if wz_step w = 0 \<and> wz_typeId w = Some CUSTOM then w\<lparr>wz_customType := s\<rparr> else w)"
| "wz_step_op (WzPath s) w = (if wz_step w = 1 then w\<lparr>wz_path := s\<rparr> else w)"
| "wz_step_op (WzDesc s) w = (if wz_step w = 1 \<and> length s \<le> DESC_MAX then w\<lparr>wz_desc := s\<rparr> else w)"
| "wz_step_op (WzVersions n) w = (if wz_step w = 1 \<and> wz_isKV2 w then w\<lparr>wz_maxVersions := n\<rparr> else w)"
| "wz_step_op WzCas w = (if wz_step w = 1 \<and> wz_isKV2 w then w\<lparr>wz_casRequired := \<not> wz_casRequired w\<rparr> else w)"
| "wz_step_op (WzNext mounts) w = (if wz_step w < 2 \<and> canNext mounts w then wz_go (wz_step w + 1) w else w)"
| "wz_step_op WzBack w = (if wz_pending w \<or> wz_step w = 0 then w else wz_go (wz_step w - 1) w)"
| "wz_step_op WzSubmit w = (if wz_step w = 2 \<and> \<not> wz_pending w then w\<lparr>wz_pending := True\<rparr> else w)"
| "wz_step_op (WzFailed msg) w = (if wz_pending w then w\<lparr>wz_serverErr := nullish msg [], wz_pending := False\<rparr> else w)"

section \<open>The tune form\<close>

definition TUNE_KV2_PATH :: jsstring where "TUNE_KV2_PATH = js ''secret/''"

definition mask_accessor :: "jsstring \<Rightarrow> jsstring" where
  "mask_accessor a = (if 12 < length a
     then take (case last_index_of (jc CHR ''_'') a of Some i \<Rightarrow> i + 5 | None \<Rightarrow> 4) a @ ellipsis @ drop (length a - 4) a
     else a)"

record tune_form =
  tf_def :: int
  tf_max :: int
  tf_noCache :: bool
  tf_maxVersions :: int
  tf_casRequired :: bool
  tf_serverErr :: jsstring
  tf_pending :: bool

definition tune_orderErr :: "tune_form \<Rightarrow> bool" where
  "tune_orderErr f \<longleftrightarrow> 0 < tf_max f \<and> tf_max f < tf_def f"

definition tune_maxVersionsErr :: "jsstring \<Rightarrow> tune_form \<Rightarrow> bool" where
  "tune_maxVersionsErr path f \<longleftrightarrow> path = TUNE_KV2_PATH \<and> (tf_maxVersions f < 0 \<or> MAX_VERSIONS_LIMIT < tf_maxVersions f)"

definition tune_body :: "jsstring \<Rightarrow> tune_form \<Rightarrow> json" where
  "tune_body path f = obj_lit
     ([(''default_lease_ttl'', Some (JStr (dec_int (tf_def f) @ js ''s''))), (''force_no_cache'', Some (JBool (tf_noCache f))),
       (''max_lease_ttl'', Some (JStr (dec_int (tf_max f) @ js ''s'')))] @
      (if path = TUNE_KV2_PATH
       then [(''cas_required'', Some (JBool (tf_casRequired f))), (''max_versions'', Some (JNum (dec_int (tf_maxVersions f))))]
       else []))"

definition tune_submit :: "jsstring \<Rightarrow> tune_form \<Rightarrow> tune_form \<times> request option" where
  "tune_submit path f =
     (if tune_orderErr f \<or> tune_maxVersionsErr path f \<or> tf_pending f then (f, None)
      else (f\<lparr>tf_serverErr := [], tf_pending := True\<rparr>, Some (putMountConfig path (tune_body path f))))"

definition tune_failed :: "failure \<Rightarrow> tune_form \<Rightarrow> tune_form" where
  "tune_failed err f = f\<lparr>tf_serverErr := nullish (serverMessage_ns err) [], tf_pending := False\<rparr>"


section \<open>The mount table of the server\<close>

text \<open>\<open>strings.Trim(p, "/")\<close>\<close>

definition go_trim_slash :: "gostring \<Rightarrow> gostring" where
  "go_trim_slash s = rev (dropWhile (\<lambda>b. b = of_char CHR ''/'') (rev (dropWhile (\<lambda>b. b = of_char CHR ''/'') s)))"

definition normalizePath :: "gostring \<Rightarrow> gostring" where
  "normalizePath p = (let q = go_trim_slash p in if q = [] then gostr ''/'' else q @ gostr ''/'')"

definition pathKey :: "gostring \<Rightarrow> gostring" where
  "pathKey p = map (\<lambda>b. if b = of_char CHR ''/'' then of_char CHR ''_'' else b) (go_trim_slash p)"

record go_mount =
  gt_Path :: gostring
  gt_Type :: gostring
  gt_Accessor :: gostring
  gt_Description :: gostring
  gt_Builtin :: bool
  gt_CreatedAt :: int

text \<open>The stored settings; the lease times are in nanoseconds.\<close>

record go_config =
  gc_DefaultLeaseTTL :: int
  gc_MaxLeaseTTL :: int
  gc_ForceNoCache :: bool
  gc_AllowedResponseHeaders :: "gostring list"
  gc_PassthroughRequestHeaders :: "gostring list"
  gc_Description :: gostring
  gc_MaxVersions :: int
  gc_CASRequired :: bool
  gc_UpdatedAt :: "int option"

definition zero_config :: go_config where
  "zero_config = \<lparr>gc_DefaultLeaseTTL = 0, gc_MaxLeaseTTL = 0, gc_ForceNoCache = False,
     gc_AllowedResponseHeaders = [], gc_PassthroughRequestHeaders = [], gc_Description = [], gc_MaxVersions = 0, gc_CASRequired = False,
     gc_UpdatedAt = None\<rparr>"

datatype mount_value = MountEntry go_mount | MountConfig go_config

type_synonym mount_store = "mount_value barrier"

datatype mount_failure = MountExists | MountNotFound | MountBuiltin | PathRequired | TypeRequired | BadOptions | ConfigUnreadable

definition mount_key :: "gostring \<Rightarrow> gostring" where
  "mount_key path = gostr ''sys/mounts/'' @ pathKey path"

definition configKey :: "gostring \<Rightarrow> gostring" where
  "configKey path = gostr ''sys/mount-config/'' @ pathKey (normalizePath path)"

definition mount_Get :: "gostring \<Rightarrow> mount_store \<Rightarrow> go_mount option" where
  "mount_Get path st = (case barrier_get (mount_key (normalizePath path)) st of Some (MountEntry e) \<Rightarrow> Some e | _ \<Rightarrow> None)"

definition new_mount :: "gostring \<Rightarrow> int \<Rightarrow> bool \<Rightarrow> gostring \<Rightarrow> gostring \<Rightarrow> gostring \<Rightarrow> go_mount" where
  "new_mount accessor now builtin path engineType description =
     \<lparr>gt_Path = path, gt_Type = engineType, gt_Accessor = accessor, gt_Description = description, gt_Builtin = builtin, gt_CreatedAt = now\<rparr>"

definition Register :: "gostring \<Rightarrow> int \<Rightarrow> gostring \<Rightarrow> gostring \<Rightarrow> gostring \<Rightarrow> mount_store \<Rightarrow> mount_failure + mount_store" where
  "Register accessor now path engineType description st = (let p = normalizePath path in
     if mount_Get p st \<noteq> None then Inl MountExists
     else Inr (barrier_put (mount_key p) (MountEntry (new_mount accessor now False p engineType description)) st))"

definition RegisterBuiltin :: "gostring \<Rightarrow> int \<Rightarrow> gostring \<Rightarrow> gostring \<Rightarrow> gostring \<Rightarrow> mount_store \<Rightarrow> mount_store" where
  "RegisterBuiltin accessor now path engineType description st = (let p = normalizePath path in
     if mount_Get p st \<noteq> None then st
     else barrier_put (mount_key p) (MountEntry (new_mount accessor now True p engineType description)) st)"

definition mount_Delete :: "gostring \<Rightarrow> mount_store \<Rightarrow> mount_failure + mount_store" where
  "mount_Delete path st = (let p = normalizePath path in
     case mount_Get p st of
       None \<Rightarrow> Inl MountNotFound
     | Some e \<Rightarrow> if gt_Builtin e then Inl MountBuiltin else Inr (barrier_delete (mount_key p) st))"

definition mount_List :: "mount_store \<Rightarrow> go_mount list" where
  "mount_List st = List.map_filter (\<lambda>k. case barrier_get k st of Some (MountEntry e) \<Rightarrow> Some e | _ \<Rightarrow> None)
     (barrier_list (gostr ''sys/mounts/'') st)"

text \<open>\<open>None\<close> is the error of an entry that does not decode.\<close>

definition config_Get :: "gostring \<Rightarrow> mount_store \<Rightarrow> go_config option" where
  "config_Get path st = (case barrier_get (configKey path) st of
      None \<Rightarrow> Some zero_config | Some (MountConfig c) \<Rightarrow> Some c | Some (MountEntry e) \<Rightarrow> None)"

definition config_Put :: "int \<Rightarrow> gostring \<Rightarrow> go_config \<Rightarrow> mount_store \<Rightarrow> mount_store" where
  "config_Put now path c st = barrier_put (configKey path) (MountConfig (c\<lparr>gc_UpdatedAt := Some now\<rparr>)) st"

definition config_Delete :: "gostring \<Rightarrow> mount_store \<Rightarrow> mount_store" where
  "config_Delete path st = barrier_delete (configKey path) st"

definition validateKV2Options :: "gostring \<Rightarrow> int option \<Rightarrow> bool option \<Rightarrow> bool" where
  "validateKV2Options path maxVersions casRequired =
     (if maxVersions = None \<and> casRequired = None then True
      else if go_trim_slash path \<noteq> go_trim_slash (gostr ''secret/'') then False
      else case maxVersions of Some n \<Rightarrow> 0 \<le> n \<and> n \<le> 1000 | None \<Rightarrow> True)"

definition applyKV2Options :: "int option \<Rightarrow> bool option \<Rightarrow> go_config \<Rightarrow> go_config" where
  "applyKV2Options maxVersions casRequired c = c\<lparr>gc_MaxVersions := nullish maxVersions (gc_MaxVersions c),
     gc_CASRequired := nullish casRequired (gc_CASRequired c)\<rparr>"

text \<open>
  The handlers, after the access check: the answer and the store. A mount whose settings cannot be written is removed
  again.
\<close>

definition createMount_handler :: "gostring \<Rightarrow> int \<Rightarrow> gostring \<Rightarrow> gostring \<Rightarrow> gostring \<Rightarrow> (int option \<times> bool option) option \<Rightarrow>
    mount_store \<Rightarrow> mount_failure option \<times> mount_store" where
  "createMount_handler accessor now path ty description config st =
     (if go_trim_slash path = [] then (Some PathRequired, st)
      else if ty = [] then (Some TypeRequired, st)
      else let (mv, cas) = nullish config (None, None) in
        if config \<noteq> None \<and> \<not> validateKV2Options path mv cas then (Some BadOptions, st)
        else case Register accessor now path ty description st of
          Inl e \<Rightarrow> (Some e, st)
        | Inr st1 \<Rightarrow>
            if mv = None \<and> cas = None then (None, st1)
            else case config_Get path st1 of
              Some c \<Rightarrow> (None, config_Put now path (applyKV2Options mv cas c) st1)
            | None \<Rightarrow> (Some ConfigUnreadable, case mount_Delete path st1 of Inr st2 \<Rightarrow> st2 | Inl e \<Rightarrow> st1))"

definition deleteMount_handler :: "gostring \<Rightarrow> mount_store \<Rightarrow> mount_failure + mount_store" where
  "deleteMount_handler path st = mount_Delete path st"

definition Builtins :: "(gostring \<times> gostring \<times> gostring) list" where
  "Builtins = map (\<lambda>(p, t, d). (gostr p, gostr t, gostr d))
    [(''secret/'', ''kv'', ''Default KV v1 secrets engine''), (''cubbyhole/'', ''cubbyhole'', ''Per-token private storage''),
     (''sys/'', ''system'', ''System configuration and management''), (''auth/'', ''auth'', ''Authentication methods''),
     (''identity/'', ''identity'', ''Entity and alias management'')]"


section \<open>What the wizard sends\<close>

definition path_ok :: "jsstring \<Rightarrow> bool" where
  "path_ok p \<longleftrightarrow> p \<noteq> [] \<and> test MOUNT_PATH_RE p \<and> length p \<le> 64"

lemma pathErr_None: "pathErr mounts p = None \<longleftrightarrow> path_ok p \<and> list_all (\<lambda>m. normPath (me_path m) \<noteq> p) mounts"
  by (auto simp: pathErr_def path_ok_def find_None_iff list_all_iff)

definition wizard_ok :: "wizard \<Rightarrow> bool" where
  "wizard_ok w \<longleftrightarrow> wz_step w \<le> 2 \<and> (0 < wz_step w \<longrightarrow> wz_typeOk w) \<and>
     (wz_step w = 2 \<longrightarrow> path_ok (wz_norm w) \<and> \<not> wz_maxVersionsErr w) \<and> (wz_pending w \<longrightarrow> wz_step w = 2) \<and>
     length (wz_desc w) \<le> DESC_MAX"

lemmas wizard_derived = wz_typeOk_def wz_typeErr_def wz_norm_def wz_maxVersionsErr_def wz_isKV2_def

lemma wizard_ok_step: "wizard_ok w \<Longrightarrow> wizard_ok (wz_step_op i w)"
  by (cases i)
    (auto simp: wizard_ok_def wz_pick_def wz_go_def Let_def canNext_def pathErr_None wizard_derived split: if_splits)

interpretation wizard_machine: machine wz_step_op wizard_open wizard_ok
  by unfold_locales (simp add: wizard_ok_def wizard_open_def, rule wizard_ok_step)

text \<open>A request leaves the wizard only at the last step, with a type and a path the rules accept.\<close>

lemma wizard_sends_valid:
  "wz_pending (fold wz_step_op is wizard_open) \<Longrightarrow>
    wz_typeOk (fold wz_step_op is wizard_open) \<and> path_ok (wz_norm (fold wz_step_op is wizard_open)) \<and>
    \<not> wz_maxVersionsErr (fold wz_step_op is wizard_open)"
  using wizard_machine.inv_run [of "is"] by (auto simp: wizard_ok_def)

section \<open>Paths and storage keys\<close>

lemma go_trim_slash_id: "s \<noteq> [] \<Longrightarrow> hd s \<noteq> 47 \<Longrightarrow> last s \<noteq> 47 \<Longrightarrow> go_trim_slash s = s"
proof -
  assume s: "s \<noteq> []" "hd s \<noteq> 47" "last s \<noteq> 47"
  have "dropWhile (\<lambda>b. b = 47) s = s" using s(1,2) by (cases s) simp_all
  moreover have "rev (dropWhile (\<lambda>b. b = 47) (rev s)) = s" using s(1,3) by (cases s rule: rev_cases) simp_all
  ultimately show ?thesis by (simp add: go_trim_slash_def)
qed

lemma go_trim_slash_snoc: "s \<noteq> [] \<Longrightarrow> hd s \<noteq> 47 \<Longrightarrow> last s \<noteq> 47 \<Longrightarrow> go_trim_slash (s @ [47]) = s"
  using go_trim_slash_id [of s] by (cases s) (simp_all add: go_trim_slash_def)

lemma go_trim_slash_ends: "go_trim_slash s \<noteq> [] \<Longrightarrow> hd (go_trim_slash s) \<noteq> 47 \<and> last (go_trim_slash s) \<noteq> 47"
proof -
  let ?t = "dropWhile (\<lambda>b. b = 47) s"
  have t: "go_trim_slash s = rev (dropWhile (\<lambda>b. b = 47) (rev ?t))" by (simp add: go_trim_slash_def)
  assume ne: "go_trim_slash s \<noteq> []"
  then have "last (go_trim_slash s) \<noteq> 47" unfolding t using hd_dropWhile [of "\<lambda>b. b = 47" "rev ?t"] by (simp add: last_rev)
  moreover have "\<exists>z. ?t = go_trim_slash s @ z"
    unfolding t by (metis rev_append rev_rev_ident takeWhile_dropWhile_id)
  then have "hd (go_trim_slash s) = hd ?t" "?t \<noteq> []" using ne by (metis hd_append2, force)
  then have "hd (go_trim_slash s) \<noteq> 47" using hd_dropWhile [of "\<lambda>b. b = 47" s] by simp
  ultimately show ?thesis by blast
qed

lemma go_trim_normalize [simp]: "go_trim_slash (normalizePath p) = go_trim_slash p"
proof (cases "go_trim_slash p = []")
  case False
  let ?q = "go_trim_slash p"
  have "hd ?q \<noteq> 47" "last ?q \<noteq> 47" using go_trim_slash_ends [OF False] by blast+
  then show ?thesis using False go_trim_slash_snoc by (simp add: normalizePath_def Let_def gostr_def)
next
  case True
  then have "normalizePath p = [47]" by (simp add: normalizePath_def gostr_def)
  moreover have "go_trim_slash [47] = []" by (simp add: go_trim_slash_def)
  ultimately show ?thesis using True by simp
qed

lemma normalize_normalize [simp]: "normalizePath (normalizePath p) = normalizePath p"
  unfolding normalizePath_def [of "normalizePath p"] go_trim_normalize by (simp add: normalizePath_def)

lemma pathKey_eq: "pathKey p = map (\<lambda>b. if b = 47 then 95 else b) (go_trim_slash p)"
  by (simp add: pathKey_def cong: if_cong)

lemma pathKey_normalize [simp]: "pathKey (normalizePath p) = pathKey p"
  by (simp only: pathKey_def go_trim_normalize)

lemma mount_Get_put:
  "mount_Get p (barrier_put (mount_key q) (MountEntry e) st) = (if pathKey p = pathKey q then Some e else mount_Get p st)"
  by (simp add: mount_Get_def barrier_get_put mount_key_def)

lemma mount_Get_delete:
  "mount_Get p (barrier_delete (mount_key q) st) = (if pathKey p = pathKey q then None else mount_Get p st)"
  by (simp add: mount_Get_def barrier_get_delete mount_key_def)

lemma Register_get:
  assumes "mount_Get p st = None"
  obtains st' where "Register acc now p ty d st = Inr st'"
    and "\<And>q. mount_Get q st' = (if pathKey q = pathKey p then Some (new_mount acc now False (normalizePath p) ty d) else mount_Get q st)"
proof -
  have "mount_Get (normalizePath p) st = None" using assms by (simp add: mount_Get_def)
  then show ?thesis using that by (simp add: Register_def Let_def mount_Get_put)
qed

lemma Register_taken: "mount_Get p st \<noteq> None \<Longrightarrow> Register acc now p ty d st = Inl MountExists"
  by (simp add: Register_def Let_def mount_Get_def)

lemma mount_Delete_get:
  assumes "mount_Get p st = Some e" "\<not> gt_Builtin e"
  obtains st' where "mount_Delete p st = Inr st'" and "\<And>q. mount_Get q st' = (if pathKey q = pathKey p then None else mount_Get q st)"
proof -
  have "mount_Get (normalizePath p) st = Some e" using assms by (simp add: mount_Get_def)
  then show ?thesis using that assms(2) by (simp add: mount_Delete_def Let_def mount_Get_delete)
qed

text \<open>Paths without an underscore have keys of their own, so the table is a map on them.\<close>

lemma pathKey_inj:
  assumes "95 \<notin> set (go_trim_slash p)" "95 \<notin> set (go_trim_slash q)" "pathKey p = pathKey q"
  shows "go_trim_slash p = go_trim_slash q"
proof -
  have "map (\<lambda>b. if b = 47 then 95 else b) xs = map (\<lambda>b. if b = 47 then 95 else b) ys \<Longrightarrow> 95 \<notin> set xs \<Longrightarrow> 95 \<notin> set ys \<Longrightarrow> xs = ys"
    for xs ys :: gostring
    by (induction xs arbitrary: ys) (auto simp: map_eq_Cons_conv Cons_eq_map_conv split: if_splits)
  then show ?thesis using assms by (simp only: pathKey_eq)
qed

lemma delete_keeps_other_mount:
  assumes "mount_Delete p st = Inr st'" "95 \<notin> set (go_trim_slash p)" "95 \<notin> set (go_trim_slash q)" "go_trim_slash p \<noteq> go_trim_slash q"
  shows "mount_Get q st' = mount_Get q st"
  using assms pathKey_inj [OF assms(2,3)]
  by (auto simp: mount_Delete_def Let_def mount_Get_delete split: option.splits if_splits)

text \<open>A creation that fails leaves the table as it was, also when the settings could not be read.\<close>

lemma createMount_atomic:
  assumes "createMount_handler acc now path ty d config st = (Some e, st')" "barrier_get (mount_key path) st = None"
  shows "barrier_get k st' = barrier_get k st"
proof -
  have key: "mount_key (normalizePath path) = mount_key path" by (simp add: mount_key_def)
  have "barrier_get k (case mount_Delete path st1 of Inr st2 \<Rightarrow> st2 | Inl e \<Rightarrow> st1) = barrier_get k st"
    if "Register acc now path ty d st = Inr st1" for st1
    using that assms(2) key by (auto simp: Register_def mount_Delete_def mount_Get_def Let_def barrier_get_put barrier_get_delete new_mount_def)
  then show ?thesis using assms(1)
    by (auto simp: createMount_handler_def Let_def split: if_splits sum.splits option.splits prod.splits)
qed

text \<open>The settings of a mount stay when it is removed: a mount created later at its path starts with them.\<close>

lemma removed_settings_return:
  "mount_Delete p st = Inr st' \<Longrightarrow> Register acc now p ty d st' = Inr st'' \<Longrightarrow> config_Get p st'' = config_Get p st"
  by (auto simp: mount_Delete_def Register_def config_Get_def Let_def barrier_get_put barrier_get_delete mount_key_def configKey_def
      gostr_def split: option.splits if_splits)


section \<open>Two paths, one key\<close>

lemma mseg_lang: "s \<in> lang mseg_re \<longleftrightarrow> s \<noteq> [] \<and> mseg_head (hd s) \<and> list_all mseg_tail (tl s)"
  by (auto simp: mseg_re_def re_lang list_all_iff neq_Nil_conv simp del: lang.simps)

lemma mseg_chars: "s \<in> lang mseg_re \<Longrightarrow> c \<in> set s \<Longrightarrow> c \<noteq> jc CHR ''/'' \<and> unat c < 128"
proof -
  have h: "mseg_head c \<Longrightarrow> c \<noteq> jc CHR ''/'' \<and> unat c < 128" for c
    by (auto simp: mseg_head_def in_range_def is_digit_def word_le_nat_alt)
  then have t: "mseg_tail c \<Longrightarrow> c \<noteq> jc CHR ''/'' \<and> unat c < 128" for c by (auto simp: mseg_tail_def)
  assume "s \<in> lang mseg_re" "c \<in> set s"
  then show ?thesis using h t unfolding mseg_lang by (cases s) (auto simp: list_all_iff simp del: js_simps)
qed

lemma more_segments:
  "v \<in> star (lang (Seq (Cls (\<lambda>c. c = jc CHR ''/'')) mseg_re)) \<Longrightarrow>
    (v = [] \<or> last v \<noteq> jc CHR ''/'') \<and> list_all (\<lambda>c. unat c < 128) v"
proof (induction rule: star.induct)
  case (star_step v w)
  then obtain s where s: "v = jc CHR ''/'' # s" "s \<in> lang mseg_re" unfolding lang_Seq_Cls by blast
  have "s \<noteq> []" using s(2) by (simp add: mseg_lang)
  then have "last v \<noteq> jc CHR ''/''" using mseg_chars [OF s(2), of "last s"] s(1) by simp
  moreover have "list_all (\<lambda>c. unat c < 128) v" using mseg_chars [OF s(2)] s(1) by (auto simp: list_all_iff)
  moreover have "v \<noteq> []" using s(1) by simp
  ultimately show ?case using star_step.IH by (cases "w = []") simp_all
qed simp

lemma path_ok_segments:
  assumes "path_ok p"
  obtains u v where "p = u @ v" "u \<in> lang mseg_re" "v \<in> star (lang (Seq (Cls (\<lambda>c. c = jc CHR ''/'')) mseg_re))"
proof -
  have "p \<in> lang (Seq mseg_re (Star (Grp 1 (Seq (Cls (\<lambda>c. c = jc CHR ''/'')) mseg_re))))"
    using assms unfolding path_ok_def MOUNT_PATH_RE_def by (subst (asm) test_anchored) (simp_all add: mseg_re_def)
  then show ?thesis using that by auto
qed

text \<open>A path the wizard accepts: ASCII, and no slash at its ends.\<close>

lemma path_ok_shape:
  assumes "path_ok p"
  shows "p \<noteq> [] \<and> hd p \<noteq> jc CHR ''/'' \<and> last p \<noteq> jc CHR ''/'' \<and> list_all (\<lambda>c. unat c < 128) p"
proof -
  obtain u v where p: "p = u @ v" "u \<in> lang mseg_re" "v \<in> star (lang (Seq (Cls (\<lambda>c. c = jc CHR ''/'')) mseg_re))"
    using path_ok_segments [OF assms] .
  have "u \<noteq> []" using p(2) by (simp add: mseg_lang)
  moreover have "hd u \<noteq> jc CHR ''/''" "last u \<noteq> jc CHR ''/''" using mseg_chars [OF p(2)] calculation by simp_all
  moreover have "list_all (\<lambda>c. unat c < 128) u" using mseg_chars [OF p(2)] by (simp add: list_all_iff)
  ultimately show ?thesis using p(1) more_segments [OF p(3)] by (cases "v = []") simp_all
qed

definition underscored :: "jsstring \<Rightarrow> jsstring" where
  "underscored = map (\<lambda>c. if c = jc CHR ''/'' then jc CHR ''_'' else c)"

lemma pathKey_path:
  assumes "path_ok p" shows "pathKey (text_encode p) = map unat (underscored p)"
proof -
  note s = path_ok_shape [OF assms]
  have e: "text_encode p = map unat p" using s by (intro text_encode_map) blast
  have "hd p \<noteq> 47" "last p \<noteq> 47" using s by simp_all
  then have "go_trim_slash (map unat p) = map unat p"
    using s by (intro go_trim_slash_id) (auto simp: hd_map last_map word_unat_eq_iff)
  then show ?thesis unfolding pathKey_eq e underscored_def by (auto simp: word_unat_eq_iff)
qed

text \<open>The entry the console lists for a path.\<close>

definition listed :: "jsstring \<Rightarrow> jsstring \<Rightarrow> mount_entry" where
  "listed p ty = \<lparr>me_path = p @ js ''/'', me_type = ty, me_accessor = [], me_description = None, me_builtin = False, me_created_at = []\<rparr>"

lemma normPath_listed:
  assumes "path_ok p" shows "normPath (me_path (listed p ty)) = p"
proof -
  note s = path_ok_shape [OF assms]
  obtain u v where "p = u @ v" "u \<in> lang mseg_re" using path_ok_segments [OF assms] by blast
  then have "mseg_head (hd p)" by (simp add: mseg_lang)
  then have nw: "\<not> is_ws (hd p)" by (auto simp: mseg_head_def in_range_def is_digit_def is_ws_def word_le_nat_alt word_unat_eq_iff)
  have "trim (p @ js ''/'') = p @ js ''/''" using s nw by (intro trim_id) (simp_all add: is_ws_def)
  moreover have "dropWhile (\<lambda>c. c = 47) p = p" using s by (cases p) simp_all
  moreover have "dropWhile (\<lambda>c. c = 47) (p @ [47]) = p @ [47]" using s by (cases p) simp_all
  moreover have "dropWhile (\<lambda>c. c = 47) (rev p) = rev p" using s by (cases p rule: rev_cases) simp_all
  ultimately show ?thesis by (simp add: normPath_def strip_slashes_def listed_def)
qed

text \<open>
  C40: the mount table keeps a path under the key in which slashes are underscores, and underscores are allowed in paths.
  So for two different paths that the wizard accepts and that agree up to that change, with the first one mounted: the
  wizard lets the second one through, the server refuses it as taken, and unmounting the second one, which was never
  mounted, removes the first.
\<close>

theorem mount_paths_collide:
  assumes a: "path_ok a" and b: "path_ok b" and ab: "a \<noteq> b" "underscored a = underscored b"
    and free: "mount_Get (text_encode a) st = None"
  shows "\<exists>st1 st2. Register acc now (text_encode a) ty d st = Inr st1 \<and> mount_Get (text_encode a) st1 \<noteq> None \<and>
    pathErr [listed a t] b = None \<and> Register acc' now' (text_encode b) ty' d' st1 = Inl MountExists \<and>
    mount_Delete (text_encode b) st1 = Inr st2 \<and> mount_Get (text_encode a) st2 = None"
proof -
  have key: "pathKey (text_encode a) = pathKey (text_encode b)" using pathKey_path [OF a] pathKey_path [OF b] ab(2) by simp
  obtain st1 where r: "Register acc now (text_encode a) ty d st = Inr st1"
    and g: "\<And>q. mount_Get q st1 = (if pathKey q = pathKey (text_encode a)
      then Some (new_mount acc now False (normalizePath (text_encode a)) ty d) else mount_Get q st)"
    using Register_get [OF free] by metis
  have gb: "mount_Get (text_encode b) st1 = Some (new_mount acc now False (normalizePath (text_encode a)) ty d)" using g key by simp
  obtain st2 where "mount_Delete (text_encode b) st1 = Inr st2"
    and "\<And>q. mount_Get q st2 = (if pathKey q = pathKey (text_encode b) then None else mount_Get q st1)"
    using mount_Delete_get [OF gb] by (auto simp: new_mount_def)
  moreover have "pathErr [listed a t] b = None" using b ab(1) normPath_listed [OF a] by (simp add: pathErr_None)
  moreover have "Register acc' now' (text_encode b) ty' d' st1 = Inl MountExists" using gb by (intro Register_taken) simp
  ultimately show ?thesis using r g key by auto
qed


theorem mount_paths_collide_witness:
  "\<exists>st1 st2. Register [] 0 (text_encode (js ''team/kv'')) (gostr ''kv'') [] [] = Inr st1 \<and>
    pathErr [listed (js ''team/kv'') (js ''kv'')] (js ''team_kv'') = None \<and>
    mount_Delete (text_encode (js ''team_kv'')) st1 = Inr st2 \<and> mount_Get (text_encode (js ''team/kv'')) st2 = None"
proof -
  have "path_ok (js ''team/kv'')" "path_ok (js ''team_kv'')" unfolding path_ok_def by code_simp+
  moreover have "js ''team/kv'' \<noteq> js ''team_kv''" "underscored (js ''team/kv'') = underscored (js ''team_kv'')"
    by (simp_all add: underscored_def)
  moreover have "mount_Get (text_encode (js ''team/kv'')) [] = None" by (simp add: mount_Get_def barrier_get_def)
  ultimately show ?thesis
    using mount_paths_collide [of "js ''team/kv''" "js ''team_kv''" "[]" "[]" 0 "gostr ''kv''" "[]" "js ''kv''" "[]" 0 "gostr ''kv''" "[]"] by blast
qed

end
