(* ===== verification/Spec2Isabelle.thy ===== *)
theory Spec2Isabelle
  imports Policy_Editor Durations Audit_Server Kv2_Diff Kv2_Page Session_Run Cluster_Page Wrapping Tokens Namespace_Tree Mounts
begin

text \<open>
  A verification development of the web console of tuck, \<open>src/web/src\<close>, and of the functions of the server that the
  console mirrors or talks to, under \<open>src/internal\<close>.

  The console is a client-side React program. It holds a session token, sends requests to the HTTP API of the server, and
  does a good deal of work of its own on what the user types and what the server returns. The development models that
  work as HOL functions on the data of the source. A page is a record of its \<open>useState\<close> values; a handler is a function
  from the page to the page, together with the request it sends; a handler that awaits is split at the await, so that the
  answer is an input of its own and any interleaving of answers and clicks is a sequence of steps.

  \<^bold>\<open>The language.\<close> \<open>Tuck_Prelude\<close> fixes the representation: a JavaScript string is a list of UTF-16 code units
  (\<open>jsstring\<close>), with the operations of \<open>String.prototype\<close> that the sources use; it also holds the locale \<open>machine\<close>, an
  invariant kept by every step, which the pages interpret. \<open>Js_Regex\<close> is the backtracking semantics of regular
  expressions: \<open>matches\<close> lists the ends of all matches in the order the engine tries them, \<open>exec\<close> takes the first, and
  \<open>test_anchored\<close> relates an anchored test to the language of the expression. An iteration runs at most as often as there
  are characters left, which is enough because a round that consumes nothing ends the iteration, as in the standard.
  \<open>Js_Data\<close> is sorting (locale \<open>comparator\<close>) and objects as dictionaries, \<open>Js_Set\<close> is \<open>Set\<close> (locale \<open>selection\<close>),
  \<open>Js_Number\<close> is double arithmetic with rounding, \<open>Js_Json\<close> and \<open>Js_Pretty\<close> are \<open>JSON.parse\<close> and \<open>JSON.stringify\<close> with
  their round trips (the fuel of the parser grows with the length of the text, and \<open>json_fuel\<close> shows that it is enough),
  \<open>Js_Uri\<close> is UTF-8, percent encoding and \<open>shared/utils/base64url.ts\<close>.

  \<^bold>\<open>Policies.\<close> \<open>Policy_Glob\<close> is the glob matcher, the access tester, the example path and the scope of
  \<open>pages/dashboard/policies/lib/policy-text.ts\<close>, with the server functions the tester ports (\<open>internal/policy/policy.go\<close>
  and \<open>parseCaps\<close>). The locale \<open>glob_matcher\<close> states the recursion both matchers share and is interpreted on both; the
  theorems give the declarative meaning of a pattern, the decision of the tester, and its agreement with the server.
  \<open>Policy_Text\<close> is the printer and the line parser of the same file: every line is accounted for, and a saved policy
  reopens with the same decisions. \<open>Policy_Editor\<close> is the page: drafts, matrix, highlighter (a loop that is a
  \<open>partial_function\<close>, with the theorem that it returns), and the failure on names that objects inherit.

  \<^bold>\<open>KV v2.\<close> \<open>Kv2_Values\<close> is \<open>kv2/utils.ts\<close>: values, names, the version table. \<open>Kv2_Diff\<close> is the version diff, shown to
  reproduce both versions and to keep a longest common subsequence. \<open>Kv2_Write\<close> is the write dialog and \<open>Kv2_Page\<close> the
  list, the drawer and the metadata form: what a save writes, the selection invariant, the timed hiding of values.

  \<^bold>\<open>Requests and session.\<close> \<open>Api_Client\<close> has one definition for each endpoint of \<open>shared/api/endpoints\<close> and of the
  pages' own clients, with the encoding of URLs. \<open>Session_Auth\<close> is the token storage, the interceptors, the login page,
  the OIDC callback and the namespace switcher; \<open>Session_Run\<close> runs them together and shows that a page is shown only to a
  session whose token was accepted, that every sign-in settles, and which answers end a session.

  \<^bold>\<open>Audit.\<close> \<open>Audit_Sinks\<close> is the form and the list; \<open>Audit_Stream\<close> is the live log, a reader of server-sent events in
  chunks, which refines the abstract log of the whole text; \<open>Audit_Server\<close> is what \<open>internal/api/audit_log.go\<close> writes,
  and puts the two ends together.

  \<^bold>\<open>Cluster, wrapping, tokens, widgets.\<close> \<open>Cluster\<close> is the model of the Raft configuration and the loss calculator
  (locale \<open>quorum_size\<close>, interpreted on majorities), \<open>Cluster_Page\<close> the page. \<open>Wrapping\<close> is the response-wrapping page:
  the status of a capsule refines the life of its token. \<open>Tokens\<close> is the token page with revocation. \<open>Kit\<close> is the shared
  widgets that hold state. \<open>Durations\<close> is every reader and printer of lengths of time, with their round trips.

  \<^bold>\<open>Namespaces and mounts.\<close> \<open>Namespaces\<close> sets the name rule of the form beside \<open>ValidateName\<close> of
  \<open>internal/namespace/namespace.go\<close> and shows them equal, models the storage prefix and the deletion of
  \<open>internal/core/core.go\<close> on the barrier (locale \<open>key_value\<close>), shows that a deletion touches no other namespace, compares
  the metadata limits of both sides, and has the page. \<open>Namespace_Tree\<close> is the tree view, built from shared node objects
  in a store and shown to hold every namespace once with exact counters; the tree is read off to the depth of the number
  of nodes, which bounds the length of every path (\<open>path_length\<close>). \<open>Mounts\<close> is the mounts page with its wizard and the
  mount table of \<open>internal/mount\<close>, where two paths can share a storage key.

  \<^bold>\<open>Parameters.\<close> \<open>localeCompare\<close> (\<open>lc\<close>), \<open>toLowerCase\<close> on arbitrary text (\<open>lw\<close>), \<open>Date.parse\<close> and the local year,
  the texts of error messages, and the text \<open>json.Marshal\<close> gives for an audit record are arguments of the definitions
  that use them. A theorem that needs something of them says so in a hypothesis, and its witness has an instance. Texts
  of the interface are the keys handed to the translator.

  \<^bold>\<open>Not modelled.\<close> Markup, styles, themes, icons, animations and the translation files: they compute nothing.
  \<open>schema.d.ts\<close> is generated. The pages for KV v1, authentication methods, token roles, teams, tucksecrets and the server
  status: their requests are in \<open>Api_Client\<close> and their time formats in \<open>Durations\<close>, their forms and lists are not
  modelled. Of the server, everything but the functions named above: storage backends, seals and cryptography, Raft,
  token and identity stores, the operator, the CSI driver, the injector and the command line are outside the console.
  Access control in front of a handler is not part of the models of the handlers. The barrier is taken to be unsealed,
  with a backend that does not fail. React itself (when effects run) and the query cache appear only as the order of
  steps they allow.
\<close>

end
